(* ===== verification/Objsds_Prelude.thy ===== *)
theory Objsds_Prelude
  imports Main "HOL-Library.Word" "HOL-Library.Char_ord" "HOL-Library.List_Lexorder"
    "HOL-Library.Finite_Map"
begin

text \<open>
  Shared vocabulary of the development: the machine types, results and fallible
  state-passing computations with the counterpart of Rust's \<open>?\<close>, and the parts of the Rust
  standard library that the crates call (checked arithmetic, decimal display, big-endian
  bytes, vector insertion, and \<open>binary_search_by\<close> as \<open>core::slice\<close> implements it) with the
  lemmas the components share.
\<close>

named_theorems comp_simps \<open>unfolding of fallible state-passing computations\<close>
named_theorems std_simps \<open>facts on the modelled parts of the standard library\<close>

section \<open>Machine types\<close>

type_synonym byte = "8 word"
type_synonym bytes = "byte list"
type_synonym u32 = "32 word"
type_synonym u64 = "64 word"
type_synonym uuid = "128 word"

section \<open>Results and fallible computations\<close>

text \<open>\<open>Result<T, E>\<close> is the sum type with the error on the left.\<close>

abbreviation Ok :: "'a \<Rightarrow> 'e + 'a" where "Ok \<equiv> Inr"
abbreviation Err :: "'e \<Rightarrow> 'e + 'a" where "Err \<equiv> Inl"

text \<open>
  A blocking operation on shared state reads and changes a state \<open>'s\<close> and returns a result.
  The state is returned with an error too: what an operation did before it failed stays done.
\<close>

type_synonym ('s, 'e, 'a) comp = "'s \<Rightarrow> ('e + 'a) \<times> 's"

definition ok :: "'a \<Rightarrow> ('s, 'e, 'a) comp" where
  "ok x s = (Ok x, s)"

definition err :: "'e \<Rightarrow> ('s, 'e, 'a) comp" where
  "err e s = (Err e, s)"

definition lift_result :: "'e + 'a \<Rightarrow> ('s, 'e, 'a) comp" where
  "lift_result r s = (r, s)"

text \<open>\<open>and_then m k\<close> is \<open>let x = m?; k(x)\<close>: the first error is returned at once.\<close>

definition and_then :: "('s, 'e, 'a) comp \<Rightarrow> ('a \<Rightarrow> ('s, 'e, 'b) comp) \<Rightarrow> ('s, 'e, 'b) comp" where
  "and_then m k s = (case m s of (Inl e, s') \<Rightarrow> (Inl e, s') | (Inr x, s') \<Rightarrow> k x s')"

definition map_err :: "('e \<Rightarrow> 'f) \<Rightarrow> ('s, 'e, 'a) comp \<Rightarrow> ('s, 'f, 'a) comp" where
  "map_err f m s = (case m s of (Inl e, s') \<Rightarrow> (Inl (f e), s') | (Inr x, s') \<Rightarrow> (Inr x, s'))"

definition map_error :: "('e \<Rightarrow> 'f) \<Rightarrow> 'e + 'a \<Rightarrow> 'f + 'a" where
  "map_error f r = (case r of Inl e \<Rightarrow> Inl (f e) | Inr x \<Rightarrow> Inr x)"

definition ok_or :: "'e \<Rightarrow> 'a option \<Rightarrow> 'e + 'a" where
  "ok_or e x = (case x of None \<Rightarrow> Inl e | Some y \<Rightarrow> Inr y)"

lemma ok_apply [simp, comp_simps]: "ok x s = (Ok x, s)"
  by (simp add: ok_def)

lemma err_apply [simp, comp_simps]: "err e s = (Err e, s)"
  by (simp add: err_def)

lemma lift_result_apply [simp, comp_simps]: "lift_result r s = (r, s)"
  by (simp add: lift_result_def)

lemma map_error_simps [simp]: "map_error f (Err e) = Err (f e)" "map_error f (Ok x) = Ok x"
  by (simp_all add: map_error_def)

lemma map_error_eq_Ok [simp]: "map_error f r = Ok x \<longleftrightarrow> r = Ok x"
  by (cases r) auto

lemma ok_or_simps [simp]: "ok_or e None = Err e" "ok_or e (Some x) = Ok x"
  by (simp_all add: ok_or_def)

lemma ok_or_eq_Ok [simp]: "ok_or e y = Ok x \<longleftrightarrow> y = Some x"
  by (cases y) auto

lemma and_then_Ok [comp_simps]: "m s = (Ok x, s') \<Longrightarrow> and_then m k s = k x s'"
  by (simp add: and_then_def)

lemma and_then_Err [comp_simps]: "m s = (Err e, s') \<Longrightarrow> and_then m k s = (Err e, s')"
  by (simp add: and_then_def)

lemma map_err_Ok [comp_simps]: "m s = (Ok x, s') \<Longrightarrow> map_err f m s = (Ok x, s')"
  by (simp add: map_err_def)

lemma map_err_Err [comp_simps]: "m s = (Err e, s') \<Longrightarrow> map_err f m s = (Err (f e), s')"
  by (simp add: map_err_def)

lemma and_then_eq_Ok:
  "and_then m k s = (Ok y, t) \<longleftrightarrow> (\<exists>x s'. m s = (Ok x, s') \<and> k x s' = (Ok y, t))"
  by (auto simp: and_then_def split: prod.splits sum.splits)

lemma and_then_eq_Err:
  "and_then m k s = (Err e, t) \<longleftrightarrow>
     m s = (Err e, t) \<or> (\<exists>x s'. m s = (Ok x, s') \<and> k x s' = (Err e, t))"
  by (auto simp: and_then_def split: prod.splits sum.splits)

lemma and_then_cases [consumes 1, case_names Err Ok]:
  assumes "and_then m k s = (r, t)"
  obtains (Err) e where "m s = (Err e, t)" "r = Err e"
  | (Ok) x u where "m s = (Ok x, u)" "k x u = (r, t)"
  using assms by (auto simp: and_then_def split: prod.splits sum.splits)

lemma map_err_eq_Ok: "map_err f m s = (Ok x, t) \<longleftrightarrow> m s = (Ok x, t)"
  by (auto simp: map_err_def split: prod.splits sum.splits)

lemma map_err_eq_Err: "map_err f m s = (Err e, t) \<longleftrightarrow> (\<exists>e'. m s = (Err e', t) \<and> e = f e')"
  by (auto simp: map_err_def split: prod.splits sum.splits)

lemmas comp_eqs = and_then_eq_Ok and_then_eq_Err map_err_eq_Ok map_err_eq_Err

lemma and_then_ok [simp]: "and_then c ok = c"
  by (auto simp: and_then_def fun_eq_iff split: prod.splits sum.splits)

lemma and_then_assoc: "and_then (and_then c f) g = and_then c (\<lambda>x. and_then (f x) g)"
  by (auto simp: and_then_def fun_eq_iff split: prod.splits sum.splits)

lemma and_then_ok_left [simp]: "and_then (ok x) f = f x"
  by (auto simp: and_then_def fun_eq_iff)

lemma and_then_lift_Ok [simp]: "and_then (lift_result (Ok x)) f = f x"
  by (auto simp: and_then_def fun_eq_iff)

lemma and_then_lift_Err [simp]: "and_then (lift_result (Err e)) f = err e"
  by (auto simp: and_then_def fun_eq_iff)

lemma snd_map_err [simp]: "snd (map_err f m s) = snd (m s)"
  by (simp add: map_err_def split: prod.splits sum.splits)

section \<open>Unsigned arithmetic\<close>

definition checked_add :: "'a::len word \<Rightarrow> 'a word \<Rightarrow> 'a word option" where
  "checked_add a b = (if unat a + unat b < 2 ^ LENGTH('a) then Some (a + b) else None)"

lemma checked_add_eq_Some:
  "checked_add a b = Some c \<longleftrightarrow> unat a + unat b < 2 ^ LENGTH('a) \<and> c = a + b"
  for a b c :: "'a::len word"
  by (auto simp: checked_add_def)

lemma unat_checked_add: "checked_add a b = Some c \<Longrightarrow> unat c = unat a + unat b"
  for a b c :: "'a::len word"
  by (auto simp: checked_add_def unat_word_ariths split: if_splits)

lemma checked_add_eq_None:
  "checked_add a b = None \<longleftrightarrow> 2 ^ LENGTH('a) \<le> unat a + unat b"
  for a b :: "'a::len word"
  by (auto simp: checked_add_def)

section \<open>Decimal display of unsigned integers\<close>

definition digit_char :: "nat \<Rightarrow> char" where
  "digit_char d = char_of (48 + d)"

fun show_nat :: "nat \<Rightarrow> string" where
  "show_nat n = (if n < 10 then [digit_char n] else show_nat (n div 10) @ [digit_char (n mod 10)])"

declare show_nat.simps [simp del]

definition read_nat :: "string \<Rightarrow> nat" where
  "read_nat s = foldl (\<lambda>a c. 10 * a + (of_char c - 48)) 0 s"

lemma of_digit_char: "d < 10 \<Longrightarrow> of_char (digit_char d) = 48 + d"
  by (simp add: digit_char_def)

lemma read_show_nat [simp]: "read_nat (show_nat n) = n"
proof (induction n rule: show_nat.induct)
  case (1 n)
  show ?case
  proof (cases "n < 10")
    case True
    then show ?thesis
      by (subst show_nat.simps) (simp add: read_nat_def of_digit_char)
  next
    case False
    have "read_nat (show_nat n) = 10 * read_nat (show_nat (n div 10)) + n mod 10"
      using False by (subst show_nat.simps) (simp add: read_nat_def of_digit_char)
    with "1.IH" False show ?thesis by simp
  qed
qed

lemma inj_show_nat: "inj show_nat"
  by (metis injI read_show_nat)

lemma show_nat_eq_iff [simp]: "show_nat m = show_nat n \<longleftrightarrow> m = n"
  by (metis read_show_nat)

definition show_word :: "'a::len word \<Rightarrow> string" where
  "show_word w = show_nat (unat w)"

lemma show_word_eq_iff [simp]: "show_word v = show_word w \<longleftrightarrow> v = w"
  by (simp add: show_word_def word_unat_eq_iff)

section \<open>Big-endian bytes\<close>

fun be_bytes :: "nat \<Rightarrow> nat \<Rightarrow> bytes" where
  "be_bytes 0 n = []"
| "be_bytes (Suc k) n = be_bytes k (n div 256) @ [of_nat (n mod 256)]"

definition from_be_bytes :: "bytes \<Rightarrow> nat" where
  "from_be_bytes bs = foldl (\<lambda>a b. a * 256 + unat b) 0 bs"

lemma length_be_bytes [simp]: "length (be_bytes k n) = k"
  by (induction k arbitrary: n) auto

lemma from_be_bytes_snoc [simp]: "from_be_bytes (bs @ [b]) = from_be_bytes bs * 256 + unat b"
  by (simp add: from_be_bytes_def)

lemma from_be_bytes_be_bytes: "n < 256 ^ k \<Longrightarrow> from_be_bytes (be_bytes k n) = n"
proof (induction k arbitrary: n)
  case 0
  then show ?case by (simp add: from_be_bytes_def)
next
  case (Suc k)
  have "n div 256 < 256 ^ k"
    using Suc.prems by (simp add: less_mult_imp_div_less mult.commute)
  moreover have "unat (of_nat (n mod 256) :: byte) = n mod 256"
    by (simp add: unat_of_nat)
  ultimately show ?case using Suc.IH by simp
qed

lemma from_be_bytes_less: "from_be_bytes bs < 256 ^ length bs"
proof (induction bs rule: rev_induct)
  case Nil
  then show ?case by (simp add: from_be_bytes_def)
next
  case (snoc b bs)
  have "unat b < 256" using unsigned_less [of b] by simp
  with snoc show ?case by simp
qed

lemma be_bytes_from_be_bytes: "be_bytes (length bs) (from_be_bytes bs) = bs"
proof (induction bs rule: rev_induct)
  case Nil
  then show ?case by simp
next
  case (snoc b bs)
  have "unat b < 256" using unsigned_less [of b] by simp
  then have "(from_be_bytes bs * 256 + unat b) div 256 = from_be_bytes bs"
    and "(from_be_bytes bs * 256 + unat b) mod 256 = unat b" by simp_all
  with snoc show ?case by simp
qed

section \<open>Vectors\<close>

definition vec_insert :: "nat \<Rightarrow> 'a \<Rightarrow> 'a list \<Rightarrow> 'a list" where
  "vec_insert i x xs = take i xs @ x # drop i xs"

definition vec_remove :: "nat \<Rightarrow> 'a list \<Rightarrow> 'a list" where
  "vec_remove i xs = take i xs @ drop (Suc i) xs"

text \<open>\<open>xs.windows(2)\<close>: the adjacent pairs.\<close>

definition windows2 :: "'a list \<Rightarrow> ('a \<times> 'a) list" where
  "windows2 xs = zip xs (tl xs)"

fun position :: "('a \<Rightarrow> bool) \<Rightarrow> 'a list \<Rightarrow> nat option" where
  "position p [] = None"
| "position p (x # xs) = (if p x then Some 0 else map_option Suc (position p xs))"

abbreviation keys_increasing :: "('a \<Rightarrow> 'k::linorder) \<Rightarrow> 'a list \<Rightarrow> bool" where
  "keys_increasing key xs \<equiv> sorted_wrt (<) (map key xs)"

lemma windows2_Cons2 [simp]: "windows2 (x # y # xs) = (x, y) # windows2 (y # xs)"
  by (simp add: windows2_def)

lemma windows2_short [simp]: "windows2 [] = []" "windows2 [x] = []"
  by (simp_all add: windows2_def)

lemma no_decreasing_window [std_simps]:
  "list_ex (\<lambda>(a, b). key b \<le> key a) (windows2 xs) \<longleftrightarrow> \<not> keys_increasing key xs"
  for key :: "'a \<Rightarrow> 'k::linorder"
proof (induction xs)
  case Nil
  then show ?case by simp
next
  case (Cons x xs)
  show ?case
  proof (cases xs)
    case Nil
    then show ?thesis by simp
  next
    case (Cons y ys)
    then show ?thesis using Cons.IH by (auto dest: less_trans) (metis less_trans not_le)+
  qed
qed

lemma position_eq_Some:
  "position p xs = Some i \<longleftrightarrow> i < length xs \<and> p (xs ! i) \<and> (\<forall>j<i. \<not> p (xs ! j))"
proof (induction xs arbitrary: i)
  case Nil
  then show ?case by simp
next
  case (Cons x xs)
  show ?case
    by (cases i) (auto simp: Cons.IH less_Suc_eq_0_disj)
qed

lemma position_eq_None: "position p xs = None \<longleftrightarrow> (\<forall>x\<in>set xs. \<not> p x)"
  by (induction xs) auto

lemma find_position: "find p xs = map_option ((!) xs) (position p xs)"
  by (induction xs) (auto simp: option.map_comp comp_def)

lemma set_vec_insert [simp]: "set (vec_insert i x xs) = insert x (set xs)"
  by (metis append_take_drop_id list.simps(15) set_append vec_insert_def Un_insert_right)

lemma length_vec_insert [simp]: "length (vec_insert i x xs) = Suc (length xs)"
  by (simp add: vec_insert_def)

lemma map_vec_insert: "map f (vec_insert i x xs) = vec_insert i (f x) (map f xs)"
  by (simp add: vec_insert_def take_map drop_map)

lemma map_vec_remove: "map f (vec_remove i xs) = vec_remove i (map f xs)"
  by (simp add: vec_remove_def take_map drop_map)

section \<open>Binary search\<close>

text \<open>
  \<open>core::slice::binary_search_by\<close>: the loop halves \<open>size\<close> while it is above one, moving
  \<open>base\<close> up unless the probe compares \<open>Greater\<close>; one last probe decides between \<open>Ok\<close> (the
  index of a match) and \<open>Err\<close> (the insertion point). \<open>partition_point\<close> calls it with a
  comparison that is never \<open>Equal\<close>.
\<close>

datatype ordering = Less | Equal | Greater

function bs_loop :: "(nat \<Rightarrow> ordering) \<Rightarrow> nat \<Rightarrow> nat \<Rightarrow> nat" where
  "bs_loop f base sz =
     (if sz > 1
      then let half = sz div 2; mid = base + half
           in bs_loop f (if f mid = Greater then base else mid) (sz - half)
      else base)"
  by pat_completeness auto
termination
  by (relation "measure (\<lambda>(f, base, sz). sz)") auto

declare bs_loop.simps [simp del]

definition binary_search_by :: "('a \<Rightarrow> ordering) \<Rightarrow> 'a list \<Rightarrow> nat + nat" where
  "binary_search_by f xs =
     (if xs = [] then Err 0
      else let base = bs_loop (\<lambda>i. f (xs ! i)) 0 (length xs)
           in case f (xs ! base) of
                Equal \<Rightarrow> Ok base
              | Less \<Rightarrow> Err (base + 1)
              | Greater \<Rightarrow> Err base)"

definition cmp :: "'k::linorder \<Rightarrow> 'k \<Rightarrow> ordering" where
  "cmp a b = (if a < b then Less else if a = b then Equal else Greater)"

definition binary_search_by_key :: "'k::linorder \<Rightarrow> ('a \<Rightarrow> 'k) \<Rightarrow> 'a list \<Rightarrow> nat + nat" where
  "binary_search_by_key k key xs = binary_search_by (\<lambda>x. cmp (key x) k) xs"

definition partition_point :: "('a \<Rightarrow> bool) \<Rightarrow> 'a list \<Rightarrow> nat" where
  "partition_point p xs =
     (case binary_search_by (\<lambda>x. if p x then Less else Greater) xs of Inl i \<Rightarrow> i | Inr i \<Rightarrow> i)"

text \<open>
  The loop's invariant: every index below \<open>base\<close> is not \<open>Greater\<close> and every index at or
  above \<open>base + size\<close> is \<open>Greater\<close>, where the comparison is monotone along the indices.
\<close>

lemma bs_loop_bounds:
  "0 < sz \<Longrightarrow> base \<le> bs_loop f base sz \<and> bs_loop f base sz < base + sz"
proof (induction f base sz rule: bs_loop.induct)
  case (1 f base sz)
  show ?case
  proof (cases "sz > 1")
    case True
    define half where "half = sz div 2"
    have half: "0 < half" "half < sz" using True by (auto simp: half_def)
    have "bs_loop f base sz =
        bs_loop f (if f (base + half) = Greater then base else base + half) (sz - half)"
      using True by (subst bs_loop.simps) (simp add: half_def Let_def)
    moreover have "(if f (base + half) = Greater then base else base + half)
          \<le> bs_loop f (if f (base + half) = Greater then base else base + half) (sz - half) \<and>
        bs_loop f (if f (base + half) = Greater then base else base + half) (sz - half)
          < (if f (base + half) = Greater then base else base + half) + (sz - half)"
      using "1.IH" [OF True half_def refl] half by simp
    ultimately show ?thesis using half by (auto split: if_splits)
  next
    case False
    with "1.prems" show ?thesis by (subst (1 2) bs_loop.simps) simp
  qed
qed

lemma bs_loop_invariant:
  assumes "\<And>i j. i \<le> j \<Longrightarrow> j < n \<Longrightarrow> f i = Greater \<Longrightarrow> f j = Greater"
    and "0 < sz" "base + sz \<le> n"
    and "\<And>i. base + sz \<le> i \<Longrightarrow> i < n \<Longrightarrow> f i = Greater"
    and "base = 0 \<or> f base \<noteq> Greater"
  shows "(\<forall>i. bs_loop f base sz < i \<longrightarrow> i < n \<longrightarrow> f i = Greater)
    \<and> (bs_loop f base sz = 0 \<or> f (bs_loop f base sz) \<noteq> Greater)"
  using assms
proof (induction f base sz rule: bs_loop.induct)
  case (1 f base sz)
  show ?case
  proof (cases "sz > 1")
    case True
    define half where "half = sz div 2"
    define base' where "base' = (if f (base + half) = Greater then base else base + half)"
    have half: "0 < half" "half < sz" "half \<le> sz - half" using True by (auto simp: half_def)
    have above: "f i = Greater" if "base' + (sz - half) \<le> i" "i < n" for i
    proof (cases "f (base + half) = Greater")
      case True
      then have "base + half \<le> i" using that half by (auto simp: base'_def)
      with "1.prems"(1) True that show ?thesis by blast
    next
      case False
      then have "base + sz \<le> i" using that half by (auto simp: base'_def)
      then show ?thesis using "1.prems"(4) that by simp
    qed
    have "bs_loop f base sz = bs_loop f base' (sz - half)"
      using True by (subst bs_loop.simps) (simp add: half_def base'_def Let_def)
    moreover have "base' = 0 \<or> f base' \<noteq> Greater" and "base' + (sz - half) \<le> n"
      using "1.prems"(3,5) half by (auto simp: base'_def)
    ultimately show ?thesis
      using "1.IH" [OF True half_def refl, folded base'_def, OF "1.prems"(1) _ _ above] half
      by simp
  next
    case False
    with "1.prems" show ?thesis by (subst (1 2 3) bs_loop.simps) auto
  qed
qed

lemma binary_search_by_cases:
  assumes mono: "\<And>i j. i \<le> j \<Longrightarrow> j < length xs \<Longrightarrow> f (xs ! i) = Greater \<Longrightarrow> f (xs ! j) = Greater"
    and "xs \<noteq> []"
  obtains b where "b < length xs"
    and "\<And>i. b < i \<Longrightarrow> i < length xs \<Longrightarrow> f (xs ! i) = Greater"
    and "b = 0 \<or> f (xs ! b) \<noteq> Greater"
    and "binary_search_by f xs =
      (case f (xs ! b) of Equal \<Rightarrow> Ok b | Less \<Rightarrow> Err (b + 1) | Greater \<Rightarrow> Err b)"
proof
  let ?b = "bs_loop (\<lambda>i. f (xs ! i)) 0 (length xs)"
  show "?b < length xs"
    using bs_loop_bounds [of "length xs" 0] assms(2) by simp
  have inv: "(\<forall>i. ?b < i \<longrightarrow> i < length xs \<longrightarrow> f (xs ! i) = Greater)
    \<and> (?b = 0 \<or> f (xs ! ?b) \<noteq> Greater)"
    by (rule bs_loop_invariant) (use assms in auto)
  show "\<And>i. ?b < i \<Longrightarrow> i < length xs \<Longrightarrow> f (xs ! i) = Greater"
    using inv by blast
  show "?b = 0 \<or> f (xs ! ?b) \<noteq> Greater"
    using inv by blast
  show "binary_search_by f xs =
      (case f (xs ! ?b) of Equal \<Rightarrow> Ok ?b | Less \<Rightarrow> Err (?b + 1) | Greater \<Rightarrow> Err ?b)"
    using assms(2) by (simp add: binary_search_by_def Let_def)
qed

text \<open>
  \<open>partition_point\<close> of a partitioned vector is the length of the part that satisfies the
  predicate.
\<close>

lemma partition_point_takeWhile:
  assumes part: "\<And>i j. i \<le> j \<Longrightarrow> j < length xs \<Longrightarrow> p (xs ! j) \<Longrightarrow> p (xs ! i)"
  shows "partition_point p xs = length (takeWhile p xs)"
proof (cases "xs = []")
  case True
  then show ?thesis by (simp add: partition_point_def binary_search_by_def)
next
  case False
  define f where "f = (\<lambda>x. if p x then Less else Greater)"
  have f: "f x = Greater \<longleftrightarrow> \<not> p x" "f x \<noteq> Equal" for x by (auto simp: f_def)
  obtain b where b: "b < length xs" "\<And>i. b < i \<Longrightarrow> i < length xs \<Longrightarrow> f (xs ! i) = Greater"
      "b = 0 \<or> f (xs ! b) \<noteq> Greater"
    and eq: "binary_search_by f xs =
      (case f (xs ! b) of Equal \<Rightarrow> Ok b | Less \<Rightarrow> Err (b + 1) | Greater \<Rightarrow> Err b)"
    by (rule binary_search_by_cases [of xs f]) (use part False f in blast)+
  show ?thesis
  proof (cases "p (xs ! b)")
    case True
    have "takeWhile p xs = take (b + 1) xs"
      by (rule takeWhile_eq_take_P_nth) (use b part [of _ b] True f in auto)
    then show ?thesis using True eq b(1) by (simp add: partition_point_def f_def)
  next
    case False
    then have "b = 0" using b(3) f by blast
    then have "takeWhile p xs = []" using False \<open>xs \<noteq> []\<close> by (cases xs) auto
    then show ?thesis using False eq \<open>b = 0\<close> by (simp add: partition_point_def f_def)
  qed
qed

text \<open>On a vector with strictly increasing keys, a search by key finds the one element with the
  key, or the position before which all keys are smaller.\<close>

lemma keys_increasing_nth_less:
  "keys_increasing key xs \<Longrightarrow> i < j \<Longrightarrow> j < length xs \<Longrightarrow> key (xs ! i) < key (xs ! j)"
  by (auto simp: sorted_wrt_iff_nth_less)

lemma keys_increasing_nth_le:
  "keys_increasing key xs \<Longrightarrow> i \<le> j \<Longrightarrow> j < length xs \<Longrightarrow> key (xs ! i) \<le> key (xs ! j)"
  by (cases "i = j") (auto dest: keys_increasing_nth_less [of key xs i j])

lemma partition_point_less:
  assumes "keys_increasing key xs"
  shows "partition_point (\<lambda>x. key x < k) xs = length (takeWhile (\<lambda>x. key x < k) xs)"
  by (rule partition_point_takeWhile)
    (use keys_increasing_nth_le [OF assms] in \<open>metis le_less_trans\<close>)

lemma partition_point_le:
  assumes "keys_increasing key xs"
  shows "partition_point (\<lambda>x. key x \<le> k) xs = length (takeWhile (\<lambda>x. key x \<le> k) xs)"
  by (rule partition_point_takeWhile)
    (use keys_increasing_nth_le [OF assms] in \<open>metis order_trans\<close>)

lemma binary_search_by_key_probe:
  assumes inc: "keys_increasing key xs" and "xs \<noteq> []"
  obtains b where "b < length xs" "\<And>i. b < i \<Longrightarrow> i < length xs \<Longrightarrow> k < key (xs ! i)"
    "\<And>i. i < b \<Longrightarrow> key (xs ! i) < key (xs ! b)" "b = 0 \<or> \<not> k < key (xs ! b)"
    "binary_search_by_key k key xs =
      (if key (xs ! b) = k then Ok b else if key (xs ! b) < k then Err (b + 1) else Err b)"
proof -
  define f where "f = (\<lambda>x. cmp (key x) k)"
  have f: "f x = Greater \<longleftrightarrow> k < key x" for x
    by (auto simp: f_def cmp_def)
  have mono: "f (xs ! j) = Greater" if "i \<le> j" "j < length xs" "f (xs ! i) = Greater" for i j
    using keys_increasing_nth_le [OF inc that(1,2)] that(3) by (simp add: f)
  obtain b where b: "b < length xs" "\<And>i. b < i \<Longrightarrow> i < length xs \<Longrightarrow> f (xs ! i) = Greater"
      "b = 0 \<or> f (xs ! b) \<noteq> Greater"
    and eq: "binary_search_by f xs =
      (case f (xs ! b) of Equal \<Rightarrow> Ok b | Less \<Rightarrow> Err (b + 1) | Greater \<Rightarrow> Err b)"
    by (rule binary_search_by_cases [of xs f]) (use mono assms(2) in blast)+
  show thesis
  proof (rule that [of b])
    show "binary_search_by_key k key xs =
      (if key (xs ! b) = k then Ok b else if key (xs ! b) < k then Err (b + 1) else Err b)"
      using eq by (auto simp: binary_search_by_key_def f_def cmp_def)
  qed (use b f keys_increasing_nth_less [OF inc _ b(1)] in auto)
qed

lemma binary_search_by_key_spec:
  assumes inc: "keys_increasing key xs"
  shows "binary_search_by_key k key xs =
    (case position (\<lambda>x. key x = k) xs of
       Some i \<Rightarrow> Ok i
     | None \<Rightarrow> Err (length (takeWhile (\<lambda>x. key x < k) xs)))"
proof (cases "xs = []")
  case True
  then show ?thesis by (simp add: binary_search_by_key_def binary_search_by_def)
next
  case False
  from binary_search_by_key_probe [OF inc False] obtain b where b: "b < length xs"
      "\<And>i. b < i \<Longrightarrow> i < length xs \<Longrightarrow> k < key (xs ! i)"
      "\<And>i. i < b \<Longrightarrow> key (xs ! i) < key (xs ! b)" "b = 0 \<or> \<not> k < key (xs ! b)"
    and eq: "binary_search_by_key k key xs =
      (if key (xs ! b) = k then Ok b else if key (xs ! b) < k then Err (b + 1) else Err b)"
    by blast
  show ?thesis
  proof (cases "key (xs ! b) = k")
    case True
    then have "position (\<lambda>x. key x = k) xs = Some b"
      using b(1) by (auto simp: position_eq_Some dest!: b(3))
    with True eq show ?thesis by simp
  next
    case False
    have "key (xs ! i) \<noteq> k" if "i < length xs" for i
      using that b(2) [of i] b(3) [of i] b(4) False by (cases i b rule: linorder_cases) auto
    then have none: "position (\<lambda>x. key x = k) xs = None"
      unfolding position_eq_None by (metis in_set_conv_nth)
    have "takeWhile (\<lambda>x. key x < k) xs = take (if key (xs ! b) < k then b + 1 else b) xs"
      by (rule takeWhile_eq_take_P_nth)
        (use b False in \<open>auto simp: less_Suc_eq split: if_splits intro: less_trans dest: less_asym\<close>)
    with False eq none b(1) show ?thesis by simp
  qed
qed

section \<open>Vectors with strictly increasing keys\<close>

text \<open>\<open>sorted_insert\<close> is the reference for the insertion both structures compute with a search.\<close>

definition sorted_insert :: "('a \<Rightarrow> 'k::linorder) \<Rightarrow> 'a \<Rightarrow> 'a list \<Rightarrow> 'a list" where
  "sorted_insert key y xs = takeWhile (\<lambda>x. key x < key y) xs @ y # dropWhile (\<lambda>x. key x < key y) xs"

lemma vec_insert_takeWhile:
  "vec_insert (length (takeWhile p xs)) y xs = takeWhile p xs @ y # dropWhile p xs"
  by (simp add: vec_insert_def dropWhile_eq_drop flip: takeWhile_eq_take)

lemma set_sorted_insert [simp]: "set (sorted_insert key y xs) = insert y (set xs)"
  by (metis Un_insert_right list.simps(15) set_append sorted_insert_def takeWhile_dropWhile_id)

lemma length_sorted_insert [simp]: "length (sorted_insert key y xs) = Suc (length xs)"
  by (metis add_Suc_right length_Cons length_append sorted_insert_def takeWhile_dropWhile_id)

lemma keys_increasing_dropWhile:
  assumes "keys_increasing key xs" and "x \<in> set (dropWhile (\<lambda>x. key x < k) xs)"
  shows "k \<le> key x"
  using assms by (induction xs) (auto split: if_splits dest: less_imp_le intro: le_less_trans)

lemma sorted_insert_increasing:
  assumes inc: "keys_increasing key xs"
  shows "keys_increasing key (sorted_insert key y xs) \<longleftrightarrow> key y \<notin> key ` set xs"
proof -
  have "keys_increasing key (takeWhile (\<lambda>x. key x < key y) xs @ dropWhile (\<lambda>x. key x < key y) xs)"
    using inc by simp
  then have split: "keys_increasing key (takeWhile (\<lambda>x. key x < key y) xs)"
      "keys_increasing key (dropWhile (\<lambda>x. key x < key y) xs)"
      "\<forall>a\<in>set (takeWhile (\<lambda>x. key x < key y) xs). \<forall>b\<in>set (dropWhile (\<lambda>x. key x < key y) xs). key a < key b"
    by (auto simp: sorted_wrt_append simp del: takeWhile_dropWhile_id)
  have "keys_increasing key (sorted_insert key y xs) \<longleftrightarrow>
      (\<forall>x\<in>set (dropWhile (\<lambda>x. key x < key y) xs). key y < key x)"
    using split by (auto simp: sorted_insert_def sorted_wrt_append dest: set_takeWhileD)
  also have "\<dots> \<longleftrightarrow> (\<forall>x\<in>set (dropWhile (\<lambda>x. key x < key y) xs). key y \<noteq> key x)"
    using keys_increasing_dropWhile [OF inc] by (auto simp: le_less)
  also have "\<dots> \<longleftrightarrow> (\<forall>x\<in>set xs. key y \<noteq> key x)"
    by (metis (no_types, lifting) Un_iff less_irrefl set_append set_takeWhileD takeWhile_dropWhile_id)
  finally show ?thesis by auto
qed

lemma partition_point_insert:
  "keys_increasing key xs \<Longrightarrow>
     vec_insert (partition_point (\<lambda>x. key x < key y) xs) y xs = sorted_insert key y xs"
  by (simp add: partition_point_less vec_insert_takeWhile sorted_insert_def)

text \<open>\<open>binary_search(..).unwrap_or_else(|index| index)\<close> gives the same insertion: where the key
  occurs, its index is the number of smaller keys.\<close>

lemma position_key_takeWhile:
  assumes "keys_increasing key xs" and "position (\<lambda>x. key x = k) xs = Some i"
  shows "i = length (takeWhile (\<lambda>x. key x < k) xs)"
proof -
  have i: "i < length xs" "key (xs ! i) = k" using assms(2) by (auto simp: position_eq_Some)
  have "takeWhile (\<lambda>x. key x < k) xs = take i xs"
    by (rule takeWhile_eq_take_P_nth) (use i keys_increasing_nth_less [OF assms(1) _ i(1)] in auto)
  with i(1) show ?thesis by simp
qed

lemma binary_search_insert:
  assumes "keys_increasing key xs"
  shows "vec_insert (case binary_search_by_key (key y) key xs of Inl i \<Rightarrow> i | Inr i \<Rightarrow> i) y xs
    = sorted_insert key y xs"
proof -
  have "(case binary_search_by_key (key y) key xs of Inl i \<Rightarrow> i | Inr i \<Rightarrow> i)
      = length (takeWhile (\<lambda>x. key x < key y) xs)"
    by (auto simp: binary_search_by_key_spec [OF assms] position_key_takeWhile [OF assms]
        split: option.splits)
  then show ?thesis by (simp add: vec_insert_takeWhile sorted_insert_def)
qed

lemma keys_increasing_distinct: "keys_increasing key xs \<Longrightarrow> distinct (map key xs)"
  by (induction xs) auto

lemma keys_increasing_inj:
  "keys_increasing key xs \<Longrightarrow> x \<in> set xs \<Longrightarrow> y \<in> set xs \<Longrightarrow> key x = key y \<Longrightarrow> x = y"
  by (metis distinct_map inj_onD keys_increasing_distinct)

lemma vec_remove_key:
  assumes inc: "keys_increasing key xs" and i: "i < length xs"
  shows "vec_remove i xs = filter (\<lambda>x. key x \<noteq> key (xs ! i)) xs"
proof -
  have xs: "xs = take i xs @ xs ! i # drop (Suc i) xs"
    using i by (simp add: Cons_nth_drop_Suc)
  have "distinct (map key (take i xs @ xs ! i # drop (Suc i) xs))"
    using keys_increasing_distinct [OF inc] xs by metis
  then have "filter (\<lambda>x. key x \<noteq> key (xs ! i)) (take i xs @ xs ! i # drop (Suc i) xs)
      = take i xs @ drop (Suc i) xs"
    by (auto intro!: arg_cong2 [where f = "(@)"] filter_True simp: image_iff)
  then show ?thesis using xs by (metis vec_remove_def)
qed

lemma keys_increasing_filter: "keys_increasing key xs \<Longrightarrow> keys_increasing key (filter p xs)"
  by (induction xs) auto

lemma keys_increasing_update:
  "i < length xs \<Longrightarrow> key y = key (xs ! i) \<Longrightarrow> keys_increasing key (xs[i := y]) \<longleftrightarrow> keys_increasing key xs"
  by (metis list_update_id map_update nth_map)

lemma keys_increasing_list_update:
  assumes "keys_increasing key xs" "i < length xs"
  shows "xs[i := f (xs ! i)] = map (\<lambda>x. if key x = key (xs ! i) then f x else x) xs"
proof (rule nth_equalityI)
  fix j
  assume "j < length (xs[i := f (xs ! i)])"
  with assms keys_increasing_distinct [OF assms(1)]
  show "xs[i := f (xs ! i)] ! j = map (\<lambda>x. if key x = key (xs ! i) then f x else x) xs ! j"
    by (auto simp: nth_list_update distinct_conv_nth)
qed simp

lemma sorted_insert_insort: "sorted_insert key x xs = insort_key key x xs"
  by (induction xs) (auto simp: sorted_insert_def not_less)

end
