(* ===== verification/Store_Interface.thy ===== *)
theory Store_Interface
  imports Objsds_Prelude
begin

text \<open>
  The crate \<open>objsds-store\<close>: locations, versions, objects, conditional-write errors and the
  trait \<open>ObjectStore\<close>. A store is a record of its three operations over a state \<open>'s\<close>; what a
  client may rely on is a locale hierarchy: the conditional-write contract
  (\<open>object_store_laws\<close>), the promise that a version token never comes back with other bytes
  (\<open>versioned_store\<close>), and the absence of backend failures (\<open>infallible_store\<close>).
\<close>

section \<open>Locations\<close>

text \<open>\<open>str::contains(char)\<close> and \<open>str::contains(&str)\<close>.\<close>

fun contains_str :: "string \<Rightarrow> string \<Rightarrow> bool" where
  "contains_str pat [] = (pat = [])"
| "contains_str pat (c # cs) = (take (length pat) (c # cs) = pat \<or> contains_str pat cs)"

definition is_path_segment :: "string \<Rightarrow> bool" where
  "is_path_segment v \<longleftrightarrow> v \<noteq> [] \<and> v \<noteq> ''.'' \<and> v \<noteq> ''..'' \<and> CHR ''/'' \<notin> set v"

datatype Location = Location (loc_str: string)

datatype InvalidLocation = InvalidLocation

definition Location_new :: "string \<Rightarrow> InvalidLocation + Location" where
  "Location_new v =
     (if v = [] \<or> take 1 v = ''/'' \<or> contains_str ''//'' v then Err InvalidLocation
      else Ok (Location v))"

definition Location_structure :: "string \<Rightarrow> string \<Rightarrow> string \<Rightarrow> InvalidLocation + Location" where
  "Location_structure namespace kind name =
     (if \<not> list_all is_path_segment [namespace, kind, name] then Err InvalidLocation
      else Location_new (namespace @ ''/'' @ kind @ ''/'' @ name @ ''.json''))"

definition Location_as_str :: "Location \<Rightarrow> string" where
  "Location_as_str l = loc_str l"

definition display_Location :: "Location \<Rightarrow> string" where
  "display_Location l = loc_str l"

definition display_InvalidLocation :: "InvalidLocation \<Rightarrow> string" where
  "display_InvalidLocation _ = ''object location must be relative, non-empty, and normalized''"

text \<open>\<open>Location\<close> derives \<open>Ord\<close>: the byte-wise order of its string.\<close>

instantiation Location :: linorder
begin

definition less_eq_Location :: "Location \<Rightarrow> Location \<Rightarrow> bool" where
  "less_eq_Location a b \<longleftrightarrow> loc_str a \<le> loc_str b"

definition less_Location :: "Location \<Rightarrow> Location \<Rightarrow> bool" where
  "less_Location a b \<longleftrightarrow> loc_str a < loc_str b"

instance
  by standard (auto simp: less_eq_Location_def less_Location_def Location.expand)

end

section \<open>Versions, objects and conditional-write errors\<close>

datatype Version = Version (version_str: string)

record Object =
  obj_bytes :: bytes
  obj_version :: Version

datatype 'e CreateError = Create_AlreadyExists Version | Create_Store 'e

datatype 'e ReplaceError = Replace_Conflict "Version option" | Replace_Store 'e

section \<open>The trait \<open>ObjectStore\<close>\<close>

record ('s, 'e) object_store =
  os_get :: "Location \<Rightarrow> ('s, 'e, Object option) comp"
  os_create :: "Location \<Rightarrow> bytes \<Rightarrow> ('s, 'e CreateError, Version) comp"
  os_replace :: "Location \<Rightarrow> Version \<Rightarrow> bytes \<Rightarrow> ('s, 'e ReplaceError, Version) comp"

text \<open>
  The contract the trait's documentation states, over the logical contents \<open>view\<close> of a state:
  a read returns the current object and changes nothing; a create succeeds only on an absent
  location and a replace only at the expected version, and both then show exactly the new
  bytes; a refused write changes nothing and reports what is there; a backend failure is
  ambiguous: the write was either not applied or applied whole. \<open>locs\<close> are the locations the
  contract is for: a backend may give other strings a meaning of its own.
\<close>

locale object_store_laws =
  fixes S :: "('s, 'e) object_store"
    and view :: "'s \<Rightarrow> Location \<Rightarrow> Object option"
    and inv :: "'s \<Rightarrow> bool"
    and locs :: "Location \<Rightarrow> bool"
  assumes get_law: "inv s \<Longrightarrow> locs l \<Longrightarrow> os_get S l s = (r, t) \<Longrightarrow>
      inv t \<and> view t = view s \<and> (\<forall>y. r = Ok y \<longrightarrow> y = view s l)"
    and create_inv: "inv s \<Longrightarrow> locs l \<Longrightarrow> os_create S l b s = (rc, t) \<Longrightarrow> inv t"
    and create_Ok: "inv s \<Longrightarrow> locs l \<Longrightarrow> os_create S l b s = (Ok v, t) \<Longrightarrow>
      view s l = None \<and> view t = (view s)(l \<mapsto> \<lparr>obj_bytes = b, obj_version = v\<rparr>)"
    and create_AlreadyExists: "inv s \<Longrightarrow> locs l \<Longrightarrow> os_create S l b s = (Err (Create_AlreadyExists v), t) \<Longrightarrow>
      view t = view s \<and> map_option obj_version (view s l) = Some v"
    and create_Store: "inv s \<Longrightarrow> locs l \<Longrightarrow> os_create S l b s = (Err (Create_Store e), t) \<Longrightarrow>
      view t = view s \<or>
      (\<exists>v. view s l = None \<and> view t = (view s)(l \<mapsto> \<lparr>obj_bytes = b, obj_version = v\<rparr>))"
    and replace_inv: "inv s \<Longrightarrow> locs l \<Longrightarrow> os_replace S l x b s = (rr, t) \<Longrightarrow> inv t"
    and replace_Ok: "inv s \<Longrightarrow> locs l \<Longrightarrow> os_replace S l x b s = (Ok v, t) \<Longrightarrow>
      map_option obj_version (view s l) = Some x \<and>
      view t = (view s)(l \<mapsto> \<lparr>obj_bytes = b, obj_version = v\<rparr>)"
    and replace_Conflict: "inv s \<Longrightarrow> locs l \<Longrightarrow> os_replace S l x b s = (Err (Replace_Conflict ob), t) \<Longrightarrow>
      view t = view s \<and> ob = map_option obj_version (view s l) \<and> ob \<noteq> Some x"
    and replace_Store: "inv s \<Longrightarrow> locs l \<Longrightarrow> os_replace S l x b s = (Err (Replace_Store e), t) \<Longrightarrow>
      view t = view s \<or>
      (map_option obj_version (view s l) = Some x \<and>
       (\<exists>v. view t = (view s)(l \<mapsto> \<lparr>obj_bytes = b, obj_version = v\<rparr>)))"
begin

lemma get_OkD:
  assumes "inv s" "locs l" "os_get S l s = (Ok x, t)"
  shows "inv t" "view t = view s" "x = view s l"
  using get_law [OF assms] by auto

lemma create_view_other:
  assumes "inv s" "locs l" "os_create S l b s = (r, t)" "l' \<noteq> l"
  shows "view t l' = view s l'"
proof (cases r)
  case (Inl e)
  then show ?thesis
    using assms create_AlreadyExists create_Store by (cases e) fastforce+
next
  case (Inr v)
  then show ?thesis using assms create_Ok by fastforce
qed

lemma create_present_view:
  assumes "inv s" "locs l'" "os_create S l' b s = (r, t)" "view s l \<noteq> None"
  shows "view t l = view s l"
proof (cases "l' = l")
  case True
  then show ?thesis
    using assms create_AlreadyExists create_Store create_Ok
    by (cases r) (metis CreateError.exhaust option.distinct(1))+
next
  case False
  then show ?thesis using create_view_other [OF assms(1-3)] by simp
qed

lemma replace_view_other:
  assumes "inv s" "locs l" "os_replace S l x b s = (r, t)" "l' \<noteq> l"
  shows "view t l' = view s l'"
proof (cases r)
  case (Inl e)
  then show ?thesis
    using assms replace_Conflict replace_Store by (cases e) fastforce+
next
  case (Inr v)
  then show ?thesis using assms replace_Ok by fastforce
qed

end

text \<open>
  Compare-and-swap is sound only if a version token that comes back stands for the same
  bytes. \<open>snap s l obj\<close> says that \<open>obj\<close> was read at \<open>l\<close> in the past of \<open>s\<close>; \<open>mintable s\<close> that
  the store can still issue a token it has not issued before; \<open>vinv\<close> is what the store keeps
  true of the tokens it has issued.
\<close>

locale versioned_store = object_store_laws +
  fixes vinv :: "'a \<Rightarrow> bool"
    and snap :: "'a \<Rightarrow> Location \<Rightarrow> Object \<Rightarrow> bool"
    and mintable :: "'a \<Rightarrow> bool"
  assumes vinv_inv: "vinv s \<Longrightarrow> inv s"
    and vinv_get: "vinv s \<Longrightarrow> locs l \<Longrightarrow> os_get S l s = (r, t) \<Longrightarrow> vinv t"
    and vinv_create: "vinv s \<Longrightarrow> mintable s \<Longrightarrow> locs l \<Longrightarrow> os_create S l b s = (rc, t) \<Longrightarrow> vinv t"
    and vinv_replace: "vinv s \<Longrightarrow> mintable s \<Longrightarrow> locs l \<Longrightarrow> os_replace S l x b s = (rr, t) \<Longrightarrow> vinv t"
    and snap_view: "vinv s \<Longrightarrow> view s l = Some obj \<Longrightarrow> snap s l obj"
    and snap_agree: "vinv s \<Longrightarrow> snap s l obj \<Longrightarrow> view s l = Some obj' \<Longrightarrow>
      obj_version obj' = obj_version obj \<Longrightarrow> obj' = obj"
    and snap_get: "vinv s \<Longrightarrow> snap s l obj \<Longrightarrow> locs l' \<Longrightarrow> os_get S l' s = (r, t) \<Longrightarrow> snap t l obj"
    and snap_create: "vinv s \<Longrightarrow> mintable s \<Longrightarrow> snap s l obj \<Longrightarrow> locs l' \<Longrightarrow>
      os_create S l' b s = (rc, t) \<Longrightarrow> snap t l obj"
    and snap_replace: "vinv s \<Longrightarrow> mintable s \<Longrightarrow> snap s l obj \<Longrightarrow> locs l' \<Longrightarrow>
      os_replace S l' x b s = (rr, t) \<Longrightarrow> snap t l obj"
begin

text \<open>
  The consequence every mutation rests on: a replacement that succeeds with the version of an
  earlier read replaces exactly the object that was read.
\<close>

lemma replace_Ok_snapshot:
  assumes "vinv s" "locs l" "snap s l obj" "os_replace S l (obj_version obj) b s = (Ok v, t)"
  shows "view s l = Some obj"
  using replace_Ok [OF vinv_inv [OF assms(1)] assms(2,4)] snap_agree [OF assms(1,3)] by auto

end

locale infallible_store = object_store_laws +
  assumes get_total: "inv s \<Longrightarrow> locs l \<Longrightarrow> \<exists>y t. os_get S l s = (Ok y, t)"
    and create_total: "inv s \<Longrightarrow> locs l \<Longrightarrow> os_create S l b s \<noteq> (Err (Create_Store e), t)"
    and replace_total: "inv s \<Longrightarrow> locs l \<Longrightarrow> os_replace S l x b s \<noteq> (Err (Replace_Store e), t)"
begin

lemma get_eq: "inv s \<Longrightarrow> locs l \<Longrightarrow> \<exists>t. os_get S l s = (Ok (view s l), t) \<and> inv t \<and> view t = view s"
  using get_total get_law by metis

lemma create_absent:
  assumes "inv s" "locs l" "view s l = None"
  shows "\<exists>v t. os_create S l b s = (Ok v, t) \<and> inv t \<and>
    view t = (view s)(l \<mapsto> \<lparr>obj_bytes = b, obj_version = v\<rparr>)"
proof -
  obtain r t where c: "os_create S l b s = (r, t)" by fastforce
  then show ?thesis
    using assms create_total create_inv create_AlreadyExists create_Ok
    by (cases r) (metis CreateError.exhaust option.map_disc_iff option.simps(3))+
qed

lemma replace_current:
  assumes "inv s" "locs l" "view s l = Some obj"
  shows "\<exists>v t. os_replace S l (obj_version obj) b s = (Ok v, t) \<and> inv t \<and>
    view t = (view s)(l \<mapsto> \<lparr>obj_bytes = b, obj_version = v\<rparr>)"
proof -
  obtain r t where c: "os_replace S l (obj_version obj) b s = (r, t)" by fastforce
  then show ?thesis
    using assms replace_total replace_inv replace_Conflict replace_Ok
    by (cases r) (metis ReplaceError.exhaust option.map(2))+
qed

end

section \<open>Facts on locations\<close>

lemma contains_str_append_slash:
  "CHR ''/'' \<notin> set u \<Longrightarrow> take 1 v \<noteq> ''/'' \<Longrightarrow>
     contains_str ''//'' (u @ CHR ''/'' # v) \<longleftrightarrow> contains_str ''//'' v"
proof (induction u)
  case Nil
  then show ?case by (cases v) auto
next
  case (Cons c u)
  then show ?case by auto
qed

lemma contains_str_no_slash: "CHR ''/'' \<notin> set u \<Longrightarrow> \<not> contains_str ''//'' u"
  by (induction u) auto

lemma append_sep_eq_iff:
  "c \<notin> set u \<Longrightarrow> c \<notin> set u' \<Longrightarrow> u @ c # v = u' @ c # v' \<longleftrightarrow> u = u' \<and> v = v'"
proof (induction u arbitrary: u')
  case Nil
  then show ?case by (cases u') auto
next
  case (Cons a u)
  then show ?case by (cases u') auto
qed

lemma is_path_segmentD:
  assumes "is_path_segment v"
  shows "v \<noteq> []" "v \<noteq> ''.''" "v \<noteq> ''..''" "CHR ''/'' \<notin> set v" "take 1 v \<noteq> ''/''"
  using assms by (cases v; auto simp: is_path_segment_def)+

lemma Location_structure_segments:
  assumes "is_path_segment namespace" "is_path_segment kind" "is_path_segment name"
  shows "Location_structure namespace kind name =
    Ok (Location (namespace @ ''/'' @ kind @ ''/'' @ name @ ''.json''))"
proof -
  let ?tail = "name @ ''.json''"
  have tail: "CHR ''/'' \<notin> set ?tail" "take 1 ?tail \<noteq> ''/''"
    using is_path_segmentD [OF assms(3)] by (cases name; auto)+
  have mid: "take 1 (kind @ CHR ''/'' # ?tail) \<noteq> ''/''"
    using is_path_segmentD [OF assms(2)] by (cases kind) auto
  have "\<not> contains_str ''//'' (namespace @ CHR ''/'' # kind @ CHR ''/'' # ?tail)"
    using is_path_segmentD(4) [OF assms(1)] is_path_segmentD(4) [OF assms(2)] tail mid
    by (simp add: contains_str_append_slash contains_str_no_slash del: take_append)
  moreover have "take 1 (namespace @ ''/'' @ kind @ ''/'' @ ?tail) \<noteq> ''/''"
    using is_path_segmentD [OF assms(1)] by (cases namespace) auto
  ultimately show ?thesis
    using assms is_path_segmentD(1) [OF assms(1)]
    by (simp add: Location_structure_def Location_new_def del: take_append)
qed

lemma Location_structure_eq_Ok:
  "Location_structure namespace kind name = Ok l \<longleftrightarrow>
     is_path_segment namespace \<and> is_path_segment kind \<and> is_path_segment name \<and>
     l = Location (namespace @ ''/'' @ kind @ ''/'' @ name @ ''.json'')"
proof (cases "is_path_segment namespace \<and> is_path_segment kind \<and> is_path_segment name")
  case True
  then show ?thesis by (auto simp: Location_structure_segments)
next
  case False
  then show ?thesis by (auto simp: Location_structure_def)
qed

lemma structure_string_inj:
  assumes "is_path_segment n" "is_path_segment k" "is_path_segment n'" "is_path_segment k'"
    and "n @ ''/'' @ k @ ''/'' @ m @ ''.json'' = n' @ ''/'' @ k' @ ''/'' @ m' @ ''.json''"
  shows "n = n' \<and> k = k' \<and> m = m'"
  using assms by (simp add: append_sep_eq_iff is_path_segmentD(4))

text \<open>
  Two structures occupy the same object exactly when their namespace, kind and name agree:
  the location of a structure determines the structure.
\<close>

theorem structure_location_injective:
  assumes "Location_structure n k m = Ok l" "Location_structure n' k' m' = Ok l'"
  shows "l = l' \<longleftrightarrow> n = n' \<and> k = k' \<and> m = m'"
proof
  assume "l = l'"
  then show "n = n' \<and> k = k' \<and> m = m'"
    using assms unfolding Location_structure_eq_Ok by (intro structure_string_inj) simp_all
next
  assume "n = n' \<and> k = k' \<and> m = m'"
  then show "l = l'" using assms by simp
qed

theorem structure_location_injective_witness:
  "Location_structure ''prod'' ''maps'' ''users'' = Ok (Location ''prod/maps/users.json'') \<and>
   Location_structure ''prod'' ''logs'' ''users'' = Ok (Location ''prod/logs/users.json'') \<and>
   Location ''prod/maps/users.json'' \<noteq> Location ''prod/logs/users.json''"
proof -
  have a: "Location_structure ''prod'' ''maps'' ''users'' = Ok (Location ''prod/maps/users.json'')"
    and b: "Location_structure ''prod'' ''logs'' ''users'' = Ok (Location ''prod/logs/users.json'')"
    by code_simp+
  show ?thesis using a b structure_location_injective [OF a b] by simp
qed

end
