(* ===== verification/Core_Error.thy ===== *)
theory Core_Error
  imports Store_Interface
begin

text \<open>
  The error types of the crate \<open>objsds\<close> (\<open>error.rs\<close>, and \<open>BuildError\<close> of \<open>client.rs\<close>) with
  their messages and source chains, and the metadata check of \<open>document.rs\<close>. The types of
  backend errors (\<open>'e\<close>) and of \<open>serde_json\<close> errors (\<open>'j\<close>) and their messages are parameters.
\<close>

section \<open>Error types\<close>

datatype BuildError =
    MissingStore | MissingNamespace | InvalidNamespace | MissingSchema | InvalidName

record 'e StoreError =
  se_source :: 'e

datatype 'j DocumentError = Doc_Serialize 'j | Doc_Deserialize 'j | Doc_Corrupt string

record AlreadyExistsError =
  ae_observed :: Version

record ConflictError =
  ce_expected :: Version
  ce_observed :: "Version option"

datatype CompatibilityError =
    Compat_FormatVersion u32 u32  \<comment> \<open>expected, observed\<close>
  | Compat_Kind string string
  | Compat_Schema string string

datatype ('j, 'e) Error =
    Error_Configuration BuildError
  | Error_Store "'e StoreError"
  | Error_Document "'j DocumentError"
  | Error_NotFound
  | Error_AlreadyExists AlreadyExistsError
  | Error_Conflict ConflictError
  | Error_Incompatible CompatibilityError

section \<open>Messages\<close>

fun display_BuildError :: "BuildError \<Rightarrow> string" where
  "display_BuildError MissingStore = ''missing object store''"
| "display_BuildError MissingNamespace = ''missing namespace''"
| "display_BuildError InvalidNamespace = ''namespace must be one non-empty path segment''"
| "display_BuildError MissingSchema = ''missing schema identifier''"
| "display_BuildError InvalidName = ''structure name must be one non-empty path segment''"

definition display_StoreError :: "('e \<Rightarrow> string) \<Rightarrow> 'e StoreError \<Rightarrow> string" where
  "display_StoreError de x = de (se_source x)"

definition display_AlreadyExistsError :: "AlreadyExistsError \<Rightarrow> string" where
  "display_AlreadyExistsError x = ''object already exists at version '' @ version_str (ae_observed x)"

definition display_ConflictError :: "ConflictError \<Rightarrow> string" where
  "display_ConflictError x =
     (case ce_observed x of
        Some ob \<Rightarrow> ''expected object version '' @ version_str (ce_expected x)
          @ '', observed '' @ version_str ob
      | None \<Rightarrow> ''expected object version '' @ version_str (ce_expected x)
          @ '', but the object was deleted'')"

fun display_DocumentError :: "('j \<Rightarrow> string) \<Rightarrow> 'j DocumentError \<Rightarrow> string" where
  "display_DocumentError dj (Doc_Serialize x) = ''could not encode JSON document: '' @ dj x"
| "display_DocumentError dj (Doc_Deserialize x) = ''persisted JSON document is malformed: '' @ dj x"
| "display_DocumentError dj (Doc_Corrupt reason) = ''persisted document is corrupt: '' @ reason"

definition display_CompatibilityError :: "CompatibilityError \<Rightarrow> string" where
  "display_CompatibilityError x = ''incompatible data structure: '' @
     (case x of
        Compat_FormatVersion ex ob \<Rightarrow>
          ''expected format version '' @ show_word ex @ '', observed '' @ show_word ob
      | Compat_Kind ex ob \<Rightarrow> ''expected kind '' @ ex @ '', observed '' @ ob
      | Compat_Schema ex ob \<Rightarrow> ''expected schema '' @ ex @ '', observed '' @ ob)"

fun display_Error :: "('j \<Rightarrow> string) \<Rightarrow> ('e \<Rightarrow> string) \<Rightarrow> ('j, 'e) Error \<Rightarrow> string" where
  "display_Error dj de (Error_Configuration x) = ''invalid configuration: '' @ display_BuildError x"
| "display_Error dj de (Error_Store x) = ''object store error: '' @ de (se_source x)"
| "display_Error dj de (Error_Document x) = display_DocumentError dj x"
| "display_Error dj de Error_NotFound = ''data structure does not exist''"
| "display_Error dj de (Error_AlreadyExists x) = ''data structure already exists''"
| "display_Error dj de (Error_Conflict x) = ''object version conflict''"
| "display_Error dj de (Error_Incompatible x) = display_CompatibilityError x"

section \<open>Source chains\<close>

text \<open>\<open>std::error::Error::source\<close>: the next error of the chain, by its type.\<close>

datatype ('j, 'e) source =
    Source_Build BuildError | Source_Backend 'e | Source_Document "'j DocumentError" | Source_Json 'j

fun source_DocumentError :: "'j DocumentError \<Rightarrow> ('j, 'e) source option" where
  "source_DocumentError (Doc_Serialize x) = Some (Source_Json x)"
| "source_DocumentError (Doc_Deserialize x) = Some (Source_Json x)"
| "source_DocumentError (Doc_Corrupt _) = None"

definition source_StoreError :: "'e StoreError \<Rightarrow> ('j, 'e) source option" where
  "source_StoreError x = Some (Source_Backend (se_source x))"

fun source_Error :: "('j, 'e) Error \<Rightarrow> ('j, 'e) source option" where
  "source_Error (Error_Configuration x) = Some (Source_Build x)"
| "source_Error (Error_Store x) = Some (Source_Backend (se_source x))"
| "source_Error (Error_Document x) = Some (Source_Document x)"
| "source_Error _ = None"

section \<open>Document metadata\<close>

definition FORMAT_VERSION :: u32 where
  "FORMAT_VERSION = 1"

definition validate :: "u32 \<Rightarrow> string \<Rightarrow> string \<Rightarrow> string \<Rightarrow> string \<Rightarrow> ('j, 'e) Error + unit" where
  "validate format_version observed_kind observed_schema expected_kind expected_schema =
     (if format_version \<noteq> FORMAT_VERSION
      then Err (Error_Incompatible (Compat_FormatVersion FORMAT_VERSION format_version))
      else if observed_kind \<noteq> expected_kind
      then Err (Error_Incompatible (Compat_Kind expected_kind observed_kind))
      else if observed_schema \<noteq> expected_schema
      then Err (Error_Incompatible (Compat_Schema expected_schema observed_schema))
      else Ok ())"

lemma validate_eq_Ok [simp]:
  "validate fv k sch k' sch' = Ok () \<longleftrightarrow> fv = FORMAT_VERSION \<and> k = k' \<and> sch = sch'"
  by (simp add: validate_def)

lemma validate_same [simp]: "validate FORMAT_VERSION k sch k sch = Ok ()"
  by simp

lemma validate_Err_cases:
  assumes "validate fv k sch k' sch' = Err e"
  obtains "fv \<noteq> FORMAT_VERSION" "e = Error_Incompatible (Compat_FormatVersion FORMAT_VERSION fv)"
  | "fv = FORMAT_VERSION" "k \<noteq> k'" "e = Error_Incompatible (Compat_Kind k' k)"
  | "fv = FORMAT_VERSION" "k = k'" "sch \<noteq> sch'" "e = Error_Incompatible (Compat_Schema sch' sch)"
  using assms by (auto simp: validate_def split: if_splits)

end
