(* ===== verification/Lifecycle.thy ===== *)
theory Lifecycle
  imports Core_Error
begin

text \<open>
  \<open>client.rs\<close> and \<open>lifecycle.rs\<close> of the crate \<open>objsds\<close>: the client and its builder, structure
  locations, and the create / open / open-or-create protocol that Map and Log share. The
  closures \<open>empty_bytes\<close> and \<open>read\<close> that the structures pass are arguments. The context of
  \<open>object_store_laws\<close> gives what the two wrappers keep of the store contract.
\<close>

section \<open>Client\<close>

record ('s, 'e) Objsds =
  client_store :: "('s, 'e) object_store"
  client_namespace :: string

record ('s, 'e) ObjsdsBuilder =
  ob_store :: "('s, 'e) object_store option"
  ob_namespace :: "string option"

definition ObjsdsBuilder_default :: "('s, 'e) ObjsdsBuilder" where
  "ObjsdsBuilder_default = \<lparr>ob_store = None, ob_namespace = None\<rparr>"

definition Objsds_builder :: "('s, 'e) ObjsdsBuilder" where
  "Objsds_builder = ObjsdsBuilder_default"

definition ObjsdsBuilder_store ::
  "('s, 'e) object_store \<Rightarrow> ('s, 'e) ObjsdsBuilder \<Rightarrow> ('s, 'e) ObjsdsBuilder" where
  "ObjsdsBuilder_store S b = b\<lparr>ob_store := Some S\<rparr>"

definition ObjsdsBuilder_namespace :: "string \<Rightarrow> ('s, 'e) ObjsdsBuilder \<Rightarrow> ('s, 'e) ObjsdsBuilder" where
  "ObjsdsBuilder_namespace n b = b\<lparr>ob_namespace := Some n\<rparr>"

definition ObjsdsBuilder_build :: "('s, 'e) ObjsdsBuilder \<Rightarrow> BuildError + ('s, 'e) Objsds" where
  "ObjsdsBuilder_build b =
     (case ob_namespace b of
        None \<Rightarrow> Err MissingNamespace
      | Some namespace \<Rightarrow>
          if \<not> is_path_segment namespace then Err InvalidNamespace
          else (case ob_store b of
                  None \<Rightarrow> Err MissingStore
                | Some S \<Rightarrow> Ok \<lparr>client_store = S, client_namespace = namespace\<rparr>))"

definition location :: "string \<Rightarrow> string \<Rightarrow> string \<Rightarrow> BuildError + Location" where
  "location namespace kind name =
     (if \<not> is_path_segment name then Err InvalidName
      else map_error (\<lambda>_. InvalidName) (Location_structure namespace kind name))"

lemma location_eq_Ok: "location ns k n = Ok l \<longleftrightarrow> Location_structure ns k n = Ok l"
  by (auto simp: location_def Location_structure_eq_Ok)

lemma location_eq_Err: "location ns k n = Err e \<longleftrightarrow>
    e = InvalidName \<and> \<not> (is_path_segment ns \<and> is_path_segment k \<and> is_path_segment n)"
proof (cases "is_path_segment ns \<and> is_path_segment k \<and> is_path_segment n")
  case True
  then show ?thesis by (simp add: location_def Location_structure_segments)
next
  case False
  then show ?thesis by (auto simp: location_def Location_structure_def)
qed

section \<open>Lifecycle operations\<close>

fun create_error :: "'e CreateError \<Rightarrow> ('j, 'e) Error" where
  "create_error (Create_AlreadyExists observed) = Error_AlreadyExists \<lparr>ae_observed = observed\<rparr>"
| "create_error (Create_Store source) = Error_Store \<lparr>se_source = source\<rparr>"

definition lifecycle_create ::
  "('s, 'e) object_store \<Rightarrow> Location \<Rightarrow> bytes \<Rightarrow> ('s, ('j, 'e) Error, Version) comp" where
  "lifecycle_create S l b = map_err create_error (os_create S l b)"

definition create_structure ::
  "('s, 'e) object_store \<Rightarrow> Location \<Rightarrow> ('j, 'e) Error + bytes \<Rightarrow> ('s, ('j, 'e) Error, unit) comp" where
  "create_structure S l empty_bytes =
     and_then (lift_result empty_bytes) (\<lambda>b.
     and_then (lifecycle_create S l b) (\<lambda>_.
     ok ()))"

definition open_structure :: "('s, ('j, 'e) Error, 'a) comp \<Rightarrow> ('s, ('j, 'e) Error, unit) comp" where
  "open_structure read = and_then read (\<lambda>_. ok ())"

definition open_or_create_structure ::
  "('s, 'e) object_store \<Rightarrow> Location \<Rightarrow> ('j, 'e) Error + bytes \<Rightarrow> ('s, ('j, 'e) Error, 'a) comp
   \<Rightarrow> ('s, ('j, 'e) Error, unit) comp" where
  "open_or_create_structure S l empty_bytes read =
     and_then (map_err (\<lambda>source. Error_Store \<lparr>se_source = source\<rparr>) (os_get S l)) (\<lambda>found.
     if found \<noteq> None then open_structure read
     else
       and_then (lift_result empty_bytes) (\<lambda>b s.
       case lifecycle_create S l b s of
         (Inr _, s') \<Rightarrow> (Ok (), s')
       | (Inl (Error_AlreadyExists _), s') \<Rightarrow> open_structure read s'
       | (Inl e, s') \<Rightarrow> (Err e, s')))"

fun replace_error :: "Version \<Rightarrow> 'e ReplaceError \<Rightarrow> ('j, 'e) Error" where
  "replace_error expected (Replace_Conflict observed) =
     Error_Conflict \<lparr>ce_expected = expected, ce_observed = observed\<rparr>"
| "replace_error expected (Replace_Store source) = Error_Store \<lparr>se_source = source\<rparr>"

definition lifecycle_replace ::
  "('s, 'e) object_store \<Rightarrow> Location \<Rightarrow> Version \<Rightarrow> bytes \<Rightarrow> ('s, ('j, 'e) Error, Version) comp" where
  "lifecycle_replace S l expected b = map_err (replace_error expected) (os_replace S l expected b)"

section \<open>What the wrappers keep of the contract\<close>

context object_store_laws
begin

lemma lifecycle_create_inv: "inv s \<Longrightarrow> locs l \<Longrightarrow> lifecycle_create S l b s = (r, t) \<Longrightarrow> inv t"
  using create_inv unfolding lifecycle_create_def
  by (metis prod.exhaust_sel snd_conv snd_map_err)

lemma lifecycle_create_Ok:
  "inv s \<Longrightarrow> locs l \<Longrightarrow> lifecycle_create S l b s = (Ok v, t) \<Longrightarrow>
     view s l = None \<and> view t = (view s)(l \<mapsto> \<lparr>obj_bytes = b, obj_version = v\<rparr>)"
  using create_Ok by (auto simp: lifecycle_create_def comp_eqs)

lemma lifecycle_replace_inv: "inv s \<Longrightarrow> locs l \<Longrightarrow> lifecycle_replace S l x b s = (r, t) \<Longrightarrow> inv t"
  using replace_inv unfolding lifecycle_replace_def
  by (metis prod.exhaust_sel snd_conv snd_map_err)

lemma lifecycle_replace_Ok:
  "inv s \<Longrightarrow> locs l \<Longrightarrow> lifecycle_replace S l x b s = (Ok v, t) \<Longrightarrow>
     map_option obj_version (view s l) = Some x \<and>
     view t = (view s)(l \<mapsto> \<lparr>obj_bytes = b, obj_version = v\<rparr>)"
  using replace_Ok by (auto simp: lifecycle_replace_def comp_eqs)

text \<open>A mutation that reports a conflict was not applied, and the report is accurate.\<close>

lemma lifecycle_replace_Conflict:
  assumes "inv s" "locs l" "lifecycle_replace S l x b s = (Err (Error_Conflict c :: ('j, 'e) Error), t)"
  shows "view t = view s" "ce_expected c = x"
    "ce_observed c = map_option obj_version (view s l)" "ce_observed c \<noteq> Some x"
proof -
  obtain e where e: "os_replace S l x b s = (Err e, t)" "(Error_Conflict c :: ('j, 'e) Error) = replace_error x e"
    using assms(3) by (auto simp: lifecycle_replace_def comp_eqs)
  then obtain ob where "e = Replace_Conflict ob" "c = \<lparr>ce_expected = x, ce_observed = ob\<rparr>"
    by (cases e) auto
  with e replace_Conflict [OF assms(1,2)] show "view t = view s" "ce_expected c = x"
    "ce_observed c = map_option obj_version (view s l)" "ce_observed c \<noteq> Some x" by auto
qed

text \<open>Only a backend failure leaves open whether a refused replacement was applied.\<close>

lemma lifecycle_replace_Err:
  assumes "inv s" "locs l" "lifecycle_replace S l x b s = (Err e, t)" "\<And>src. e \<noteq> Error_Store src"
  shows "view t = view s"
proof -
  obtain e' where e': "os_replace S l x b s = (Err e', t)" "e = replace_error x e'"
    using assms(3) by (auto simp: lifecycle_replace_def comp_eqs)
  then show ?thesis
    using assms(1,2,4) replace_Conflict by (cases e') auto
qed

end

end
