(* ===== verification/Document_Structure.thy ===== *)
theory Document_Structure
  imports Store_Interface
begin

text \<open>
  The protocol that Map, Log and Queue share: read and decode the one object, compute on the
  document, and conditionally replace the object at the version that was read. \<open>transact\<close> is
  the protocol over a pure function on documents; the locale \<open>document_structure\<close> is the
  interface a structure's \<open>read\<close> and \<open>write\<close> provide, and its lemmas say what a transaction
  does to the stored document, once for all structures.
\<close>

section \<open>Transactions\<close>

text \<open>
  What a pure step decides on a document: refuse with an error, answer without writing, or
  write a new document and answer from the version of the write.
\<close>

datatype ('x, 'r, 'd) outcome = Reject 'x | Reply 'r | Commit 'd "Version \<Rightarrow> 'r"

definition transact ::
  "('s, 'x, Version \<times> 'd) comp \<Rightarrow> (Version \<Rightarrow> 'd \<Rightarrow> ('s, 'x, Version) comp)
   \<Rightarrow> ('d \<Rightarrow> ('x, 'r, 'd) outcome) \<Rightarrow> ('s, 'x, 'r) comp" where
  "transact rd wr f =
     and_then rd (\<lambda>(v, d).
       case f d of
         Reject x \<Rightarrow> err x
       | Reply r \<Rightarrow> ok r
       | Commit d' k \<Rightarrow> and_then (wr v d') (\<lambda>v'. ok (k v')))"

lemma transact_cong:
  assumes "\<And>v d s t. rd s = (Ok (v, d), t) \<Longrightarrow> f d = g d"
  shows "transact rd wr f = transact rd wr g"
proof
  fix s
  obtain r t where r: "rd s = (r, t)" by fastforce
  show "transact rd wr f s = transact rd wr g s"
  proof (cases r)
    case (Inl x)
    then show ?thesis using r by (simp add: transact_def and_then_def)
  next
    case (Inr vd)
    then have "f (snd vd) = g (snd vd)" using r assms [of s "fst vd" "snd vd" t] by simp
    then show ?thesis using r Inr by (simp add: transact_def and_then_def split_beta)
  qed
qed

section \<open>The interface\<close>

definition roundtrips :: "('d \<Rightarrow> bool) \<Rightarrow> ('d \<Rightarrow> 'x + bytes) \<Rightarrow> (bytes \<Rightarrow> 'x + 'd) \<Rightarrow> bool" where
  "roundtrips valid encode decode \<longleftrightarrow> (\<forall>d b. valid d \<longrightarrow> encode d = Ok b \<longrightarrow> decode b = Ok d)"

text \<open>The document an object holds: the object is present and decodes.\<close>

definition stored_doc :: "(bytes \<Rightarrow> 'x + 'd) \<Rightarrow> Object option \<Rightarrow> 'd option" where
  "stored_doc decode x =
     (case x of
        None \<Rightarrow> None
      | Some obj \<Rightarrow> (case decode (obj_bytes obj) of Inl _ \<Rightarrow> None | Inr d \<Rightarrow> Some d))"

lemma stored_doc_eq_Some:
  "stored_doc decode x = Some d \<longleftrightarrow> (\<exists>obj. x = Some obj \<and> decode (obj_bytes obj) = Ok d)"
  by (auto simp: stored_doc_def split: option.splits sum.splits)

text \<open>
  The whole outcome of a transaction at a location \<open>l\<close>: other locations are untouched; success is
  the decision \<open>f\<close> on the stored document, and what it decided to write is what is stored, at
  the version it reports; an error other than a backend failure changed nothing; a backend
  failure left the old document or the whole new one.
\<close>

definition atomic_outcome ::
  "('s \<Rightarrow> Location \<Rightarrow> Object option) \<Rightarrow> Location \<Rightarrow> (bytes \<Rightarrow> 'x + 'd) \<Rightarrow> ('e \<Rightarrow> 'x)
   \<Rightarrow> ('d \<Rightarrow> ('x, 'a, 'd) outcome) \<Rightarrow> 's \<Rightarrow> 'x + 'a \<Rightarrow> 's \<Rightarrow> bool" where
  "atomic_outcome view l decode store_err f s r t \<longleftrightarrow>
     (\<forall>l'. l' \<noteq> l \<longrightarrow> view t l' = view s l') \<and>
     (case r of
        Inr y \<Rightarrow> \<exists>d. stored_doc decode (view s l) = Some d \<and>
          (f d = Reply y \<and> view t = view s \<or>
           (\<exists>d' k v. f d = Commit d' k \<and> y = k v \<and> stored_doc decode (view t l) = Some d' \<and>
              map_option obj_version (view t l) = Some v))
      | Inl x \<Rightarrow> ((\<forall>e. x \<noteq> store_err e) \<longrightarrow> view t = view s) \<and>
          (stored_doc decode (view t l) = stored_doc decode (view s l) \<or>
           (\<exists>d d' k. stored_doc decode (view s l) = Some d \<and> f d = Commit d' k \<and>
              stored_doc decode (view t l) = Some d')))"

locale document_structure = object_store_laws S view inv locs
  for S :: "('s, 'e) object_store" and view inv locs +
  fixes l :: Location
    and decode :: "bytes \<Rightarrow> 'x + 'd"
    and encode :: "'d \<Rightarrow> 'x + bytes"
    and valid :: "'d \<Rightarrow> bool"
    and store_err :: "'e \<Rightarrow> 'x"
    and not_found :: 'x
    and conflict :: "Version \<Rightarrow> Version option \<Rightarrow> 'x"
    and rd :: "('s, 'x, Version \<times> 'd) comp"
    and wr :: "Version \<Rightarrow> 'd \<Rightarrow> ('s, 'x, Version) comp"
  assumes loc: "locs l"
    and decode_valid: "decode b = Ok d \<Longrightarrow> valid d"
    and read_eq: "rd s =
      (case os_get S l s of
         (Inl e, t) \<Rightarrow> (Err (store_err e), t)
       | (Inr None, t) \<Rightarrow> (Err not_found, t)
       | (Inr (Some obj), t) \<Rightarrow>
           (case decode (obj_bytes obj) of
              Inl x \<Rightarrow> (Err x, t)
            | Inr d \<Rightarrow> (Ok (obj_version obj, d), t)))"
    and write_eq: "wr v d s =
      (case encode d of
         Inl x \<Rightarrow> (Err x, s)
       | Inr b \<Rightarrow>
           (case os_replace S l v b s of
              (Inl (Replace_Conflict ob), t) \<Rightarrow> (Err (conflict v ob), t)
            | (Inl (Replace_Store e), t) \<Rightarrow> (Err (store_err e), t)
            | (Inr v', t) \<Rightarrow> (Ok v', t)))"
begin

lemmas at_get = get_law [OF _ loc]
lemmas at_replace_inv = replace_inv [OF _ loc]
lemmas at_replace_Ok = replace_Ok [OF _ loc]
lemmas at_replace_Conflict = replace_Conflict [OF _ loc]
lemmas at_replace_Store = replace_Store [OF _ loc]
lemmas at_replace_other = replace_view_other [OF _ loc]

abbreviation contents :: "'s \<Rightarrow> 'd option" where
  "contents s \<equiv> stored_doc decode (view s l)"

lemma contents_valid: "contents s = Some d \<Longrightarrow> valid d"
  by (auto simp: stored_doc_eq_Some dest: decode_valid)

lemma contents_cong: "view t l = view s l \<Longrightarrow> contents t = contents s"
  by simp

lemma read_frame:
  assumes "inv s" "rd s = (r, t)"
  shows "inv t" "view t = view s"
  using assms at_get [OF assms(1)]
  by (auto simp: read_eq split: prod.splits sum.splits option.splits)

lemma read_OkD:
  assumes "inv s" "rd s = (Ok (v, d), t)"
  shows "\<exists>obj. view s l = Some obj \<and> obj_version obj = v \<and> decode (obj_bytes obj) = Ok d"
    and "contents s = Some d"
proof -
  show "\<exists>obj. view s l = Some obj \<and> obj_version obj = v \<and> decode (obj_bytes obj) = Ok d"
    using assms at_get [OF assms(1)]
    by (auto simp: read_eq split: prod.splits sum.splits option.splits)
  then show "contents s = Some d" by (auto simp: stored_doc_eq_Some)
qed

lemma write_inv: "inv s \<Longrightarrow> wr v d s = (r, t) \<Longrightarrow> inv t"
  using at_replace_inv by (auto simp: write_eq split: prod.splits sum.splits ReplaceError.splits)

lemma write_OkD:
  assumes "inv s" "wr v d s = (Ok v', t)"
  shows "\<exists>b. encode d = Ok b \<and> view t = (view s)(l \<mapsto> \<lparr>obj_bytes = b, obj_version = v'\<rparr>)"
    and "map_option obj_version (view s l) = Some v"
  using assms at_replace_Ok
  by (fastforce simp: write_eq split: prod.splits sum.splits ReplaceError.splits)+

lemma write_ErrD:
  assumes "inv s" "wr v d s = (Err x, t)" "\<And>e. x \<noteq> store_err e"
  shows "view t = view s"
  using assms at_replace_Conflict
  by (fastforce simp: write_eq split: prod.splits sum.splits ReplaceError.splits)

lemma write_Err_contents:
  assumes rt: "roundtrips valid encode decode" and "inv s" "valid d" "wr v d s = (Err x, t)"
  shows "contents t = contents s \<or> contents t = Some d"
proof (cases "encode d")
  case (Inl e)
  then show ?thesis using assms(4) by (simp add: write_eq)
next
  case (Inr b)
  have "decode b = Ok d" using rt Inr assms(3) by (auto simp: roundtrips_def)
  moreover obtain r where r: "os_replace S l v b s = (Err r, t)"
    using Inr assms(4) by (auto simp: write_eq split: prod.splits sum.splits ReplaceError.splits)
  moreover have "view t = view s \<or>
      (\<exists>v'. view t = (view s)(l \<mapsto> \<lparr>obj_bytes = b, obj_version = v'\<rparr>))"
    using r at_replace_Conflict [OF assms(2), of v b] at_replace_Store [OF assms(2), of v b]
    by (cases r) auto
  ultimately show ?thesis by (auto simp: stored_doc_def)
qed

lemma transact_cases:
  assumes "transact rd wr f s = (r, t)"
  obtains x where "rd s = (Err x, t)" "r = Err x"
  | v d x where "rd s = (Ok (v, d), t)" "f d = Reject x" "r = Err x"
  | v d y where "rd s = (Ok (v, d), t)" "f d = Reply y" "r = Ok y"
  | v d u d' k x where "rd s = (Ok (v, d), u)" "f d = Commit d' k" "wr v d' u = (Err x, t)" "r = Err x"
  | v d u d' k v' where "rd s = (Ok (v, d), u)" "f d = Commit d' k" "wr v d' u = (Ok v', t)" "r = Ok (k v')"
  using assms
  by (auto simp: transact_def and_then_def split: prod.splits sum.splits outcome.splits)

lemma write_view_other: "inv s \<Longrightarrow> wr v d s = (r, t) \<Longrightarrow> l' \<noteq> l \<Longrightarrow> view t l' = view s l'"
  using at_replace_other
  by (fastforce simp: write_eq split: prod.splits sum.splits ReplaceError.splits)

text \<open>A transaction keeps the store's invariant and touches no other location.\<close>

lemma transact_frame:
  assumes "inv s" "transact rd wr f s = (r, t)"
  shows "inv t \<and> (l' \<noteq> l \<longrightarrow> view t l' = view s l')"
  using assms(2)
  by (cases rule: transact_cases)
    (use assms(1) read_frame write_inv write_view_other in metis)+

text \<open>A transaction that succeeds decided on the document stored at its start.\<close>

lemma transact_OkD:
  assumes "inv s" "transact rd wr f s = (Ok y, t)"
  obtains d where "contents s = Some d" "f d = Reply y" "view t = view s"
  | d d' k v b where "contents s = Some d" "f d = Commit d' k" "y = k v" "encode d' = Ok b"
      "view t = (view s)(l \<mapsto> \<lparr>obj_bytes = b, obj_version = v\<rparr>)"
  using assms(2)
proof (cases rule: transact_cases)
  case (3 v d z)
  then show ?thesis using that(1) read_frame [OF assms(1)] read_OkD [OF assms(1)] by auto
next
  case (5 v d u d' k v')
  note u = read_frame [OF assms(1) 5(1)]
  from write_OkD(1) [OF u(1) 5(3)] obtain b where
    "encode d' = Ok b" "view t = (view u)(l \<mapsto> \<lparr>obj_bytes = b, obj_version = v'\<rparr>)" by blast
  with 5 u read_OkD(2) [OF assms(1) 5(1)] show ?thesis by (intro that(2)) auto
qed auto

lemma transact_Ok_contents:
  assumes rt: "roundtrips valid encode decode"
    and "inv s" "transact rd wr f s = (Ok y, t)"
    and valid: "\<And>d d' k. contents s = Some d \<Longrightarrow> f d = Commit d' k \<Longrightarrow> valid d'"
  obtains d where "contents s = Some d" "f d = Reply y" "contents t = Some d"
  | d d' k v where "contents s = Some d" "f d = Commit d' k" "y = k v" "contents t = Some d'"
  using assms(2,3)
proof (cases rule: transact_OkD)
  case (1 d)
  then show ?thesis using that(1) contents_cong by metis
next
  case (2 d d' k v b)
  have "valid d'" using valid 2 by blast
  then have "decode b = Ok d'" using rt 2 by (auto simp: roundtrips_def)
  then show ?thesis using that(2) 2 by (auto simp: stored_doc_eq_Some)
qed

text \<open>A transaction that fails other than by a backend failure changed nothing.\<close>

lemma transact_ErrD:
  assumes "inv s" "transact rd wr f s = (Err x, t)" "\<And>e. x \<noteq> store_err e"
  shows "view t = view s"
  using assms(2)
  by (cases rule: transact_cases)
    (use assms(1,3) read_frame write_ErrD in \<open>auto; metis\<close>)+

text \<open>Any failed transaction left the old document or wrote the whole new one.\<close>

lemma transact_Err_contents:
  assumes rt: "roundtrips valid encode decode"
    and "inv s" "transact rd wr f s = (Err x, t)"
    and valid: "\<And>d d' k. contents s = Some d \<Longrightarrow> f d = Commit d' k \<Longrightarrow> valid d'"
  shows "contents t = contents s \<or>
    (\<exists>d d' k. contents s = Some d \<and> f d = Commit d' k \<and> contents t = Some d')"
  using assms(3)
proof (cases rule: transact_cases)
  case (4 v d u d' k x')
  have "valid d'" using valid 4 read_OkD(2) [OF assms(2)] by blast
  then have "contents t = contents u \<or> contents t = Some d'"
    using write_Err_contents [OF rt] 4 read_frame [OF assms(2)] by blast
  moreover have "contents u = contents s" using 4 read_frame [OF assms(2)] contents_cong by metis
  ultimately show ?thesis using 4 read_OkD(2) [OF assms(2)] by metis
next
  case (1 y)
  then show ?thesis using read_frame(2) [OF assms(2)] contents_cong by metis
next
  case (2 v d y)
  then show ?thesis using read_frame(2) [OF assms(2)] contents_cong by metis
qed simp_all

lemma transact_atomic:
  assumes rt: "roundtrips valid encode decode"
    and "inv s" "transact rd wr f s = (r, t)"
    and valid: "\<And>d d' k. contents s = Some d \<Longrightarrow> f d = Commit d' k \<Longrightarrow> valid d'"
  shows "atomic_outcome view l decode store_err f s r t"
proof (cases r)
  case (Inl x)
  then have e: "transact rd wr f s = (Err x, t)" using assms(3) by simp
  note transact_Err_contents [OF rt assms(2) e, OF valid]
  with Inl show ?thesis
    using transact_frame [OF assms(2,3)] transact_ErrD [OF assms(2) e]
    unfolding atomic_outcome_def by auto
next
  case (Inr y)
  have "transact rd wr f s = (Ok y, t)" using assms(3) Inr by simp
  with assms(2) show ?thesis
  proof (cases rule: transact_OkD)
    case (1 d)
    then show ?thesis using Inr by (simp add: atomic_outcome_def)
  next
    case (2 d d' k v b)
    then have "decode b = Ok d'" using rt valid by (auto simp: roundtrips_def)
    with 2 Inr show ?thesis by (auto simp: atomic_outcome_def stored_doc_eq_Some)
  qed
qed

lemmas transact_atomic_pair = case_prodI2 [OF transact_atomic]

end

section \<open>Without backend failures a transaction always decides\<close>

locale reliable_structure =
  document_structure S view inv locs l decode encode valid store_err not_found conflict rd wr +
  infallible_store S view inv locs
  for S :: "('s, 'e) object_store" and view inv locs l
    and decode :: "bytes \<Rightarrow> 'x + 'd" and encode valid store_err not_found conflict rd wr
begin

lemma read_total:
  assumes "inv s"
  shows "\<exists>t. inv t \<and> view t = view s \<and>
    rd s = (case view s l of
       None \<Rightarrow> (Err not_found, t)
     | Some obj \<Rightarrow>
         (case decode (obj_bytes obj) of Inl x \<Rightarrow> (Err x, t) | Inr d \<Rightarrow> (Ok (obj_version obj, d), t)))"
  using get_eq [OF assms loc] by (auto simp: read_eq split: option.splits sum.splits)

lemma read_contents:
  assumes "inv s" "contents s = Some d"
  obtains obj t where "rd s = (Ok (obj_version obj, d), t)" "inv t" "view t = view s" "view s l = Some obj"
  using read_total [OF assms(1)] assms(2) by (auto simp: stored_doc_eq_Some)

lemma transact_Reply:
  assumes "inv s" "contents s = Some d" "f d = Reply y"
  obtains t where "transact rd wr f s = (Ok y, t)" "inv t" "view t = view s"
proof -
  obtain obj :: Object and t where "rd s = (Ok (obj_version obj, d), t)" "inv t" "view t = view s"
    by (rule read_contents [OF assms(1,2)])
  with assms(3) show thesis by (intro that [of t]) (simp_all add: transact_def and_then_def)
qed

lemma transact_Commit:
  assumes "inv s" "contents s = Some d" "f d = Commit d' k" "encode d' = Ok b"
  obtains v t where "transact rd wr f s = (Ok (k v), t)" "inv t"
    "view t = (view s)(l \<mapsto> \<lparr>obj_bytes = b, obj_version = v\<rparr>)"
proof -
  obtain obj u where u: "rd s = (Ok (obj_version obj, d), u)" "inv u" "view u = view s"
      "view u l = Some obj"
    by (rule read_contents [OF assms(1,2)]) simp
  obtain v t where "os_replace S l (obj_version obj) b u = (Ok v, t)" "inv t"
      "view t = (view u)(l \<mapsto> \<lparr>obj_bytes = b, obj_version = v\<rparr>)"
    using replace_current [OF u(2) loc u(4)] by blast
  with u assms(3,4) show thesis
    by (intro that [of v t]) (simp_all add: transact_def and_then_def write_eq)
qed

lemma transact_Commit_contents:
  assumes "roundtrips valid encode decode" "inv s" "contents s = Some d" "f d = Commit d' k"
    and "valid d'" "encode d' = Ok b"
  obtains v t where "transact rd wr f s = (Ok (k v), t)" "inv t" "contents t = Some d'"
proof -
  obtain v t where t: "transact rd wr f s = (Ok (k v), t)" "inv t"
      "view t = (view s)(l \<mapsto> \<lparr>obj_bytes = b, obj_version = v\<rparr>)"
    by (rule transact_Commit [of s d f d' k b]) (use assms in blast)+
  moreover have "decode b = Ok d'" using assms(1,5,6) by (auto simp: roundtrips_def)
  ultimately show thesis by (intro that [of v t]) (auto simp: stored_doc_eq_Some)
qed

end

end
