(* ===== verification/Memory_Store.thy ===== *)
theory Memory_Store
  imports Store_Interface
begin

text \<open>
  The crate \<open>objsds-store-memory\<close>. The mutex makes each operation one atomic step on the
  state, so an operation is a function on \<open>State\<close>; \<open>BTreeMap<Location, Object>\<close> is a finite
  map; the version counter is a 64-bit word that wraps as a release build's does. The store is
  interpreted as every locale of \<open>Store_Interface\<close>, with the counter's decimal string as a
  token that is fresh until the counter is exhausted.
\<close>

section \<open>State and operations\<close>

text \<open>\<open>std::convert::Infallible\<close>: an error type of which no operation here ever makes a value.\<close>

typedecl Infallible

record State =
  st_objects :: "(Location, Object) fmap"
  st_next_version :: u64

definition State_default :: State where
  "State_default = \<lparr>st_objects = fmempty, st_next_version = 0\<rparr>"

definition State_version :: "State \<Rightarrow> Version \<times> State" where
  "State_version st =
     (let st' = st\<lparr>st_next_version := st_next_version st + 1\<rparr>
      in (Version (show_word (st_next_version st')), st'))"

definition memory_get :: "Location \<Rightarrow> (State, Infallible, Object option) comp" where
  "memory_get l st = (Ok (fmlookup (st_objects st) l), st)"

definition memory_create :: "Location \<Rightarrow> bytes \<Rightarrow> (State, Infallible CreateError, Version) comp" where
  "memory_create l b st =
     (case fmlookup (st_objects st) l of
        Some obj \<Rightarrow> (Err (Create_AlreadyExists (obj_version obj)), st)
      | None \<Rightarrow>
          (let (v, st') = State_version st
           in (Ok v, st'\<lparr>st_objects := fmupd l \<lparr>obj_bytes = b, obj_version = v\<rparr> (st_objects st')\<rparr>)))"

definition memory_replace ::
  "Location \<Rightarrow> Version \<Rightarrow> bytes \<Rightarrow> (State, Infallible ReplaceError, Version) comp" where
  "memory_replace l expected b st =
     (let current = fmlookup (st_objects st) l
      in if (case current of Some obj \<Rightarrow> obj_version obj = expected | None \<Rightarrow> False)
         then (let (v, st') = State_version st
               in (Ok v, st'\<lparr>st_objects := fmupd l \<lparr>obj_bytes = b, obj_version = v\<rparr> (st_objects st')\<rparr>))
         else (Err (Replace_Conflict (map_option obj_version current)), st))"

definition memory_store :: "(State, Infallible) object_store" where
  "memory_store = \<lparr>os_get = memory_get, os_create = memory_create, os_replace = memory_replace\<rparr>"

section \<open>The contract\<close>

definition memory_view :: "State \<Rightarrow> Location \<Rightarrow> Object option" where
  "memory_view st = fmlookup (st_objects st)"

text \<open>Every stored version was issued: it is the decimal form of a number up to the counter.\<close>

definition issued :: "State \<Rightarrow> Version \<Rightarrow> bool" where
  "issued st v \<longleftrightarrow> (\<exists>n \<le> unat (st_next_version st). v = Version (show_nat n))"

definition memory_vinv :: "State \<Rightarrow> bool" where
  "memory_vinv st \<longleftrightarrow> (\<forall>l obj. memory_view st l = Some obj \<longrightarrow> issued st (obj_version obj))"

definition memory_snap :: "State \<Rightarrow> Location \<Rightarrow> Object \<Rightarrow> bool" where
  "memory_snap st l obj \<longleftrightarrow> issued st (obj_version obj) \<and>
     (\<forall>obj'. memory_view st l = Some obj' \<longrightarrow> obj_version obj' = obj_version obj \<longrightarrow> obj' = obj)"

definition memory_mintable :: "State \<Rightarrow> bool" where
  "memory_mintable st \<longleftrightarrow> unat (st_next_version st) + 1 < 2 ^ 64"

lemma memory_store_sel [simp]:
  "os_get memory_store = memory_get"
  "os_create memory_store = memory_create"
  "os_replace memory_store = memory_replace"
  by (simp_all add: memory_store_def)

lemmas memory_defs = memory_get_def memory_create_def memory_replace_def State_version_def
  memory_view_def

interpretation mem: infallible_store memory_store memory_view "\<lambda>_. True" "\<lambda>_. True"
  by unfold_locales
    (auto simp: memory_defs Let_def fun_eq_iff split: option.splits if_splits)

text \<open>A write either leaves the state alone or adds an object under the next version.\<close>

definition memory_put :: "Location \<Rightarrow> bytes \<Rightarrow> State \<Rightarrow> State" where
  "memory_put l b st =
     (let (v, st') = State_version st
      in st'\<lparr>st_objects := fmupd l \<lparr>obj_bytes = b, obj_version = v\<rparr> (st_objects st')\<rparr>)"

lemma memory_create_state: "memory_create l b st = (r, t) \<Longrightarrow> t = st \<or> t = memory_put l b st"
  by (auto simp: memory_create_def memory_put_def Let_def split: option.splits prod.splits)

lemma memory_replace_state: "memory_replace l x b st = (r, t) \<Longrightarrow> t = st \<or> t = memory_put l b st"
  by (auto simp: memory_replace_def memory_put_def Let_def split: if_splits prod.splits)

lemma unat_next_version:
  "memory_mintable st \<Longrightarrow> unat (st_next_version st + 1) = Suc (unat (st_next_version st))"
  by (simp add: memory_mintable_def unat_word_ariths)

lemma memory_put_view:
  "memory_view (memory_put l b st) =
     (memory_view st)(l \<mapsto> \<lparr>obj_bytes = b, obj_version = Version (show_word (st_next_version st + 1))\<rparr>)"
  by (auto simp: memory_put_def State_version_def memory_view_def Let_def)

lemma memory_create_absent:
  "fmlookup (st_objects st) l = None \<Longrightarrow>
     memory_create l b st = (Ok (Version (show_word (st_next_version st + 1))), memory_put l b st)"
  by (simp add: memory_create_def memory_put_def State_version_def Let_def)

lemma memory_put_lookup:
  "fmlookup (st_objects (memory_put l b st)) l
     = Some \<lparr>obj_bytes = b, obj_version = Version (show_word (st_next_version st + 1))\<rparr>"
  using memory_put_view [of l b st] by (simp add: memory_view_def)

lemma memory_create_present:
  "fmlookup (st_objects st) l = Some obj \<Longrightarrow>
     memory_create l b st = (Err (Create_AlreadyExists (obj_version obj)), st)"
  by (simp add: memory_create_def)

lemma issued_put: "memory_mintable st \<Longrightarrow> issued st v \<Longrightarrow> issued (memory_put l b st) v"
  using unat_next_version
  by (fastforce simp: issued_def memory_put_def State_version_def Let_def)

lemma next_not_issued:
  assumes "memory_mintable st"
  shows "\<not> issued st (Version (show_word (st_next_version st + 1)))"
  using unat_next_version [OF assms] by (auto simp: issued_def show_word_def)

lemma next_issued_put: "issued (memory_put l b st) (Version (show_word (st_next_version st + 1)))"
  by (auto simp: issued_def show_word_def memory_put_def State_version_def Let_def)

lemma memory_vinv_put:
  assumes "memory_vinv st" "memory_mintable st"
  shows "memory_vinv (memory_put l b st)"
  using assms issued_put next_issued_put by (auto simp: memory_vinv_def memory_put_view)

lemma memory_snap_put:
  assumes "memory_mintable st" "memory_snap st l obj"
  shows "memory_snap (memory_put l' b st) l obj"
proof -
  have "obj_version obj \<noteq> Version (show_word (st_next_version st + 1))"
    using assms next_not_issued [OF assms(1)] by (auto simp: memory_snap_def)
  with assms issued_put [OF assms(1)] show ?thesis
    by (auto simp: memory_snap_def memory_put_view split: if_splits)
qed

lemma memory_snap_agree:
  "memory_snap st l obj \<Longrightarrow> memory_view st l = Some obj' \<Longrightarrow>
     obj_version obj' = obj_version obj \<Longrightarrow> obj' = obj"
  by (simp add: memory_snap_def)

interpretation memv: versioned_store memory_store memory_view "\<lambda>_. True" "\<lambda>_. True"
    memory_vinv memory_snap memory_mintable
proof unfold_locales
  fix st :: State and l obj
  assume "memory_vinv st" "memory_view st l = Some obj"
  then show "memory_snap st l obj" by (auto simp: memory_vinv_def memory_snap_def)
qed (auto simp: memory_get_def intro: memory_vinv_put memory_snap_put memory_snap_agree
      dest!: memory_create_state memory_replace_state)

end
