(* ===== verification/Sample_Codec.thy ===== *)
theory Sample_Codec
  imports Objsds_Prelude
begin

text \<open>
  A small executable wire format: a list of strings as bytes, each character behind a 1 and
  each string ended by a 0. It stands in for \<open>serde_json\<close> where a theorem's hypotheses on the
  encoder are shown to be satisfiable on a concrete document.
\<close>

definition put_string :: "string \<Rightarrow> bytes" where
  "put_string s = concat (map (\<lambda>c. [1, of_nat (of_char c)]) s) @ [0]"

definition put_fields :: "string list \<Rightarrow> bytes" where
  "put_fields xs = concat (map put_string xs)"

fun get_fields :: "string \<Rightarrow> bytes \<Rightarrow> string list option" where
  "get_fields acc [] = (if acc = [] then Some [] else None)"
| "get_fields acc [b] = (if b = 0 then Some [rev acc] else None)"
| "get_fields acc (b # c # bs) =
     (if b = 0 then map_option (Cons (rev acc)) (get_fields [] (c # bs))
      else get_fields (char_of (unat c) # acc) bs)"

lemma char_of_byte [simp]: "char_of (unat (of_nat (of_char c) :: byte)) = c"
proof -
  have "(of_char c :: nat) < 256" by simp
  then show ?thesis by (simp add: unat_of_nat)
qed

lemma get_fields_zero: "get_fields acc (0 # bs) = map_option (Cons (rev acc)) (get_fields [] bs)"
  by (cases bs) auto

lemma get_fields_string:
  "get_fields acc (put_string s @ bs) = map_option (Cons (rev acc @ s)) (get_fields [] bs)"
proof (induction s arbitrary: acc)
  case Nil
  then show ?case by (simp add: put_string_def get_fields_zero)
next
  case (Cons c s)
  have "get_fields acc (put_string (c # s) @ bs) = get_fields (c # acc) (put_string s @ bs)"
    by (simp add: put_string_def)
  then show ?case by (simp add: Cons.IH)
qed

lemma get_put_fields [simp]: "get_fields [] (put_fields xs) = Some xs"
  by (induction xs) (simp_all add: put_fields_def get_fields_string)

lemma of_nat_read_show_word [simp]: "of_nat (read_nat (show_word w)) = w" for w :: "'a::len word"
  by (simp add: show_word_def)

text \<open>Pairs of strings as consecutive fields.\<close>

fun put_pairs :: "(string \<times> string) list \<Rightarrow> string list" where
  "put_pairs [] = []"
| "put_pairs ((k, v) # ps) = k # v # put_pairs ps"

fun get_pairs :: "string list \<Rightarrow> (string \<times> string) list option" where
  "get_pairs [] = Some []"
| "get_pairs [_] = None"
| "get_pairs (k # v # xs) = map_option (Cons (k, v)) (get_pairs xs)"

lemma get_put_pairs [simp]: "get_pairs (put_pairs ps) = Some ps"
  by (induction ps rule: put_pairs.induct) auto

end
