(* ===== verification/Map_Structure.thy ===== *)
theory Map_Structure
  imports Lifecycle Document_Structure Memory_Store Sample_Codec
begin

text \<open>
  \<open>map/mod.rs\<close> and \<open>map/builder.rs\<close> of the crate \<open>objsds\<close>. \<open>BTreeMap<String, V>\<close> is a finite
  map whose iteration is in key order (strings are byte sequences, so the order is Rust's).
  \<open>serde_json\<close> is a parameter: \<open>map_serde\<close> holds the three calls the source makes, and the
  hypothesis \<open>map_serde_ok\<close> is that decoding an encoded document gives the document back.
\<close>

section \<open>Documents and handles\<close>

record 'v MapDocument =
  bmd_format_version :: u32
  bmd_kind :: string
  bmd_schema :: string
  bmd_entries :: "(string, 'v) fmap"

record 'v OwnedMapDocument =
  md_format_version :: u32
  md_kind :: string
  md_schema :: string
  md_entries :: "(string, 'v) fmap"

datatype 'v InsertIfAbsent = Inserted Version | Occupied 'v

record ('v, 'j) map_serde =
  ms_borrowed_to_vec :: "'v MapDocument \<Rightarrow> 'j + bytes"
  ms_to_vec :: "'v OwnedMapDocument \<Rightarrow> 'j + bytes"
  ms_from_slice :: "bytes \<Rightarrow> 'j + 'v OwnedMapDocument"

record ('s, 'e) Map =
  map_store :: "('s, 'e) object_store"
  map_location :: Location
  map_schema :: string

section \<open>Operations\<close>

definition map_empty_bytes :: "('v, 'j) map_serde \<Rightarrow> ('s, 'e) Map \<Rightarrow> ('j, 'e) Error + bytes" where
  "map_empty_bytes C m =
     map_error Error_Document (map_error Doc_Serialize
       (ms_borrowed_to_vec C
          \<lparr>bmd_format_version = FORMAT_VERSION, bmd_kind = ''map'', bmd_schema = map_schema m,
           bmd_entries = fmempty\<rparr>))"

definition map_read ::
  "('v, 'j) map_serde \<Rightarrow> ('s, 'e) Map \<Rightarrow> ('s, ('j, 'e) Error, Version \<times> 'v OwnedMapDocument) comp" where
  "map_read C m =
     and_then (map_err (\<lambda>source. Error_Store \<lparr>se_source = source\<rparr>) (os_get (map_store m) (map_location m)))
       (\<lambda>found.
     and_then (lift_result (ok_or Error_NotFound found)) (\<lambda>obj.
     and_then (lift_result (map_error Error_Document (map_error Doc_Deserialize
                  (ms_from_slice C (obj_bytes obj))))) (\<lambda>document.
     and_then (lift_result (validate (md_format_version document) (md_kind document)
                  (md_schema document) ''map'' (map_schema m))) (\<lambda>_.
     ok (obj_version obj, document)))))"

definition map_write ::
  "('v, 'j) map_serde \<Rightarrow> ('s, 'e) Map \<Rightarrow> Version \<Rightarrow> 'v OwnedMapDocument
   \<Rightarrow> ('s, ('j, 'e) Error, Version) comp" where
  "map_write C m version document =
     and_then (lift_result (map_error Error_Document (map_error Doc_Serialize (ms_to_vec C document))))
       (\<lambda>b. lifecycle_replace (map_store m) (map_location m) version b)"

definition map_get ::
  "('v, 'j) map_serde \<Rightarrow> ('s, 'e) Map \<Rightarrow> string \<Rightarrow> ('s, ('j, 'e) Error, 'v option) comp" where
  "map_get C m key = and_then (map_read C m) (\<lambda>(_, document). ok (fmlookup (md_entries document) key))"

definition map_entries ::
  "('v, 'j) map_serde \<Rightarrow> ('s, 'e) Map \<Rightarrow> ('s, ('j, 'e) Error, (string \<times> 'v) list) comp" where
  "map_entries C m =
     and_then (map_read C m) (\<lambda>(_, document). ok (sorted_list_of_fmap (md_entries document)))"

definition map_insert ::
  "('v, 'j) map_serde \<Rightarrow> ('s, 'e) Map \<Rightarrow> string \<Rightarrow> 'v \<Rightarrow> ('s, ('j, 'e) Error, Version) comp" where
  "map_insert C m key v =
     and_then (map_read C m) (\<lambda>(version, document).
     map_write C m version (document\<lparr>md_entries := fmupd key v (md_entries document)\<rparr>))"

definition map_insert_if_absent ::
  "('v, 'j) map_serde \<Rightarrow> ('s, 'e) Map \<Rightarrow> string \<Rightarrow> 'v
   \<Rightarrow> ('s, ('j, 'e) Error, 'v InsertIfAbsent) comp" where
  "map_insert_if_absent C m key v =
     and_then (map_read C m) (\<lambda>(version, document).
     case fmlookup (md_entries document) key of
       Some old \<Rightarrow> ok (Occupied old)
     | None \<Rightarrow>
         and_then (map_write C m version (document\<lparr>md_entries := fmupd key v (md_entries document)\<rparr>))
           (\<lambda>version'. ok (Inserted version')))"

definition map_remove ::
  "('v, 'j) map_serde \<Rightarrow> ('s, 'e) Map \<Rightarrow> string \<Rightarrow> ('s, ('j, 'e) Error, 'v option) comp" where
  "map_remove C m key =
     and_then (map_read C m) (\<lambda>(version, document).
     let removed = fmlookup (md_entries document) key;
         document' = document\<lparr>md_entries := fmdrop key (md_entries document)\<rparr>
     in if removed \<noteq> None
        then and_then (map_write C m version document') (\<lambda>_. ok removed)
        else ok removed)"

section \<open>Builder\<close>

record ('s, 'e) MapBuilder =
  mb_store :: "('s, 'e) object_store"
  mb_location :: "BuildError + Location"
  mb_schema :: "string option"

definition MapBuilder_new :: "('s, 'e) object_store \<Rightarrow> string \<Rightarrow> string \<Rightarrow> ('s, 'e) MapBuilder" where
  "MapBuilder_new S namespace name =
     \<lparr>mb_store = S, mb_location = location namespace ''maps'' name, mb_schema = None\<rparr>"

definition Objsds_map :: "('s, 'e) Objsds \<Rightarrow> string \<Rightarrow> ('s, 'e) MapBuilder" where
  "Objsds_map c name = MapBuilder_new (client_store c) (client_namespace c) name"

definition MapBuilder_schema :: "string \<Rightarrow> ('s, 'e) MapBuilder \<Rightarrow> ('s, 'e) MapBuilder" where
  "MapBuilder_schema sch b = b\<lparr>mb_schema := Some sch\<rparr>"

definition MapBuilder_finish :: "('s, 'e) MapBuilder \<Rightarrow> BuildError + ('s, 'e) Map" where
  "MapBuilder_finish b =
     (case mb_schema b of
        None \<Rightarrow> Err MissingSchema
      | Some sch \<Rightarrow>
          if sch = [] then Err MissingSchema
          else (case mb_location b of
                  Inl e \<Rightarrow> Err e
                | Inr l \<Rightarrow> Ok \<lparr>map_store = mb_store b, map_location = l, map_schema = sch\<rparr>))"

definition MapBuilder_create ::
  "('v, 'j) map_serde \<Rightarrow> ('s, 'e) MapBuilder \<Rightarrow> ('s, ('j, 'e) Error, ('s, 'e) Map) comp" where
  "MapBuilder_create C b =
     and_then (lift_result (map_error Error_Configuration (MapBuilder_finish b))) (\<lambda>m.
     and_then (create_structure (map_store m) (map_location m) (map_empty_bytes C m)) (\<lambda>_.
     ok m))"

definition MapBuilder_open ::
  "('v, 'j) map_serde \<Rightarrow> ('s, 'e) MapBuilder \<Rightarrow> ('s, ('j, 'e) Error, ('s, 'e) Map) comp" where
  "MapBuilder_open C b =
     and_then (lift_result (map_error Error_Configuration (MapBuilder_finish b))) (\<lambda>m.
     and_then (open_structure (map_read C m)) (\<lambda>_.
     ok m))"

definition MapBuilder_open_or_create ::
  "('v, 'j) map_serde \<Rightarrow> ('s, 'e) MapBuilder \<Rightarrow> ('s, ('j, 'e) Error, ('s, 'e) Map) comp" where
  "MapBuilder_open_or_create C b =
     and_then (lift_result (map_error Error_Configuration (MapBuilder_finish b))) (\<lambda>m.
     and_then (open_or_create_structure (map_store m) (map_location m) (map_empty_bytes C m)
                (map_read C m)) (\<lambda>_.
     ok m))"

section \<open>Map operations as transactions on documents\<close>

definition map_decode :: "('v, 'j) map_serde \<Rightarrow> string \<Rightarrow> bytes \<Rightarrow> ('j, 'e) Error + 'v OwnedMapDocument" where
  "map_decode C sch b =
     (case ms_from_slice C b of
        Inl x \<Rightarrow> Err (Error_Document (Doc_Deserialize x))
      | Inr d \<Rightarrow>
          (case validate (md_format_version d) (md_kind d) (md_schema d) ''map'' sch of
             Inl e \<Rightarrow> Err e
           | Inr _ \<Rightarrow> Ok d))"

definition map_encode :: "('v, 'j) map_serde \<Rightarrow> 'v OwnedMapDocument \<Rightarrow> ('j, 'e) Error + bytes" where
  "map_encode C d = map_error (\<lambda>x. Error_Document (Doc_Serialize x)) (ms_to_vec C d)"

definition map_valid :: "string \<Rightarrow> 'v OwnedMapDocument \<Rightarrow> bool" where
  "map_valid sch d \<longleftrightarrow> md_format_version d = FORMAT_VERSION \<and> md_kind d = ''map'' \<and> md_schema d = sch"

abbreviation map_conflict :: "Version \<Rightarrow> Version option \<Rightarrow> ('j, 'e) Error" where
  "map_conflict x ob \<equiv> Error_Conflict \<lparr>ce_expected = x, ce_observed = ob\<rparr>"

definition with_entries :: "((string, 'v) fmap \<Rightarrow> (string, 'v) fmap) \<Rightarrow> 'v OwnedMapDocument \<Rightarrow> 'v OwnedMapDocument" where
  "with_entries g d = d\<lparr>md_entries := g (md_entries d)\<rparr>"

lemma with_entries_sel [simp]:
  "md_entries (with_entries g d) = g (md_entries d)"
  "map_valid sch (with_entries g d) = map_valid sch d"
  by (simp_all add: with_entries_def map_valid_def)

text \<open>The pure step of each operation.\<close>

definition map_get_step :: "string \<Rightarrow> 'v OwnedMapDocument \<Rightarrow> ('x, 'v option, 'v OwnedMapDocument) outcome" where
  "map_get_step key d = Reply (fmlookup (md_entries d) key)"

definition map_entries_step ::
  "'v OwnedMapDocument \<Rightarrow> ('x, (string \<times> 'v) list, 'v OwnedMapDocument) outcome" where
  "map_entries_step d = Reply (sorted_list_of_fmap (md_entries d))"

definition map_insert_step ::
  "string \<Rightarrow> 'v \<Rightarrow> 'v OwnedMapDocument \<Rightarrow> ('x, Version, 'v OwnedMapDocument) outcome" where
  "map_insert_step key v d = Commit (with_entries (fmupd key v) d) id"

definition map_insert_if_absent_step ::
  "string \<Rightarrow> 'v \<Rightarrow> 'v OwnedMapDocument \<Rightarrow> ('x, 'v InsertIfAbsent, 'v OwnedMapDocument) outcome" where
  "map_insert_if_absent_step key v d =
     (case fmlookup (md_entries d) key of
        Some old \<Rightarrow> Reply (Occupied old)
      | None \<Rightarrow> Commit (with_entries (fmupd key v) d) Inserted)"

definition map_remove_step ::
  "string \<Rightarrow> 'v OwnedMapDocument \<Rightarrow> ('x, 'v option, 'v OwnedMapDocument) outcome" where
  "map_remove_step key d =
     (case fmlookup (md_entries d) key of
        None \<Rightarrow> Reply None
      | Some old \<Rightarrow> Commit (with_entries (fmdrop key) d) (\<lambda>_. Some old))"

lemmas map_steps = map_get_step_def map_entries_step_def map_insert_step_def
  map_insert_if_absent_step_def map_remove_step_def

lemma map_get_transact:
  "map_get C m key = transact (map_read C m) (map_write C m) (map_get_step key)"
  by (simp add: map_get_def transact_def map_get_step_def)

lemma map_entries_transact:
  "map_entries C m = transact (map_read C m) (map_write C m) map_entries_step"
  by (simp add: map_entries_def transact_def map_entries_step_def)

lemma map_insert_transact:
  "map_insert C m key v = transact (map_read C m) (map_write C m) (map_insert_step key v)"
  by (simp add: map_insert_def transact_def with_entries_def map_insert_step_def)

lemma map_insert_if_absent_transact:
  "map_insert_if_absent C m key v =
     transact (map_read C m) (map_write C m) (map_insert_if_absent_step key v)"
  unfolding map_insert_if_absent_def transact_def with_entries_def map_insert_if_absent_step_def
  by (rule arg_cong [where f = "and_then _"]) (auto simp: fun_eq_iff split: option.splits)

lemma map_remove_transact:
  "map_remove C m key = transact (map_read C m) (map_write C m) (map_remove_step key)"
  unfolding map_remove_def transact_def with_entries_def map_remove_step_def
  by (rule arg_cong [where f = "and_then _"]) (auto simp: fun_eq_iff Let_def split: option.splits)

lemmas map_transacts = map_get_transact map_entries_transact map_insert_transact
  map_insert_if_absent_transact map_remove_transact

abbreviation memory_map :: "Location \<Rightarrow> string \<Rightarrow> (State, Infallible) Map" where
  "memory_map l sch \<equiv> \<lparr>map_store = memory_store, map_location = l, map_schema = sch\<rparr>"

lemma map_decode_eq_Ok:
  "map_decode C sch b = Ok d \<longleftrightarrow> ms_from_slice C b = Ok d \<and> map_valid sch d"
  by (auto simp: map_decode_def map_valid_def validate_def split: sum.splits if_splits)

lemma map_decode_valid: "map_decode C sch b = Ok d \<Longrightarrow> map_valid sch d"
  by (simp add: map_decode_eq_Ok)

lemma map_read_eq:
  "map_read C \<lparr>map_store = S, map_location = l, map_schema = sch\<rparr> s =
     (case os_get S l s of
        (Inl e, t) \<Rightarrow> (Err (Error_Store \<lparr>se_source = e\<rparr>), t)
      | (Inr None, t) \<Rightarrow> (Err Error_NotFound, t)
      | (Inr (Some obj), t) \<Rightarrow>
          (case map_decode C sch (obj_bytes obj) of
             Inl x \<Rightarrow> (Err x, t)
           | Inr d \<Rightarrow> (Ok (obj_version obj, d), t)))"
  by (auto simp: map_read_def map_decode_def and_then_def map_err_def map_error_def
      split: prod.splits sum.splits option.splits)

lemma map_write_eq:
  "map_write C \<lparr>map_store = S, map_location = l, map_schema = sch\<rparr> v d s =
     (case map_encode C d of
        Inl x \<Rightarrow> (Err x, s)
      | Inr b \<Rightarrow>
          (case os_replace S l v b s of
             (Inl (Replace_Conflict ob), t) \<Rightarrow> (Err (map_conflict v ob), t)
           | (Inl (Replace_Store e), t) \<Rightarrow> (Err (Error_Store \<lparr>se_source = e\<rparr>), t)
           | (Inr v', t) \<Rightarrow> (Ok v', t)))"
  by (auto simp: map_write_def map_encode_def lifecycle_replace_def and_then_def map_err_def
      map_error_def split: prod.splits sum.splits ReplaceError.splits)

text \<open>Over any store that keeps the contract, a map's \<open>read\<close> and \<open>write\<close> provide the interface.\<close>

lemma map_document_structure:
  assumes "object_store_laws S view I locs" "locs l"
  shows "document_structure S view I locs l (map_decode C sch) (map_encode C) (map_valid sch)
    (\<lambda>e. Error_Store \<lparr>se_source = e\<rparr>) Error_NotFound map_conflict
    (map_read C \<lparr>map_store = S, map_location = l, map_schema = sch\<rparr>)
    (map_write C \<lparr>map_store = S, map_location = l, map_schema = sch\<rparr>)"
  by (intro document_structure.intro document_structure_axioms.intro assms)
    (erule map_decode_valid, rule map_read_eq, rule map_write_eq)

lemma map_steps_valid:
  "map_insert_step k v d = Commit d' h1 \<Longrightarrow> map_valid sch d' = map_valid sch d"
  "map_insert_if_absent_step k v d = Commit d' h2 \<Longrightarrow> map_valid sch d' = map_valid sch d"
  "map_remove_step k d = Commit d' h3 \<Longrightarrow> map_valid sch d' = map_valid sch d"
  "map_get_step k d \<noteq> Commit d' h4"
  "map_entries_step d \<noteq> Commit d' h5"
  by (auto simp: map_steps split: option.splits)

interpretation mapm: reliable_structure memory_store memory_view "\<lambda>_. True" "\<lambda>_. True" l
    "map_decode C sch" "map_encode C" "map_valid sch" "\<lambda>e. Error_Store \<lparr>se_source = e\<rparr>"
    Error_NotFound map_conflict "map_read C (memory_map l sch)" "map_write C (memory_map l sch)"
  for l sch C
  by unfold_locales (rule TrueI, erule map_decode_valid, rule map_read_eq, rule map_write_eq)

end
