(* ===== verification/Map_Properties.thy ===== *)
theory Map_Properties
  imports Map_Structure
begin

text \<open>
  What \<open>Map\<close> promises, over the in-memory store: every sequence of operations returns what a
  \<open>BTreeMap\<close> returns, errors change nothing, and the lifecycle operations create, validate and
  never overwrite. \<open>stored_map\<close> is the abstraction: the entries of the document stored at a
  location, when there is one of the right kind, format and schema.
\<close>

section \<open>Abstraction\<close>

definition map_serde_ok :: "('v, 'j) map_serde \<Rightarrow> bool" where
  "map_serde_ok C \<longleftrightarrow>
     (\<forall>d. \<exists>b. ms_to_vec C d = Ok b \<and> ms_from_slice C b = Ok d) \<and>
     (\<forall>d. \<exists>b. ms_borrowed_to_vec C d = Ok b \<and>
        ms_from_slice C b = Ok \<lparr>md_format_version = bmd_format_version d, md_kind = bmd_kind d,
          md_schema = bmd_schema d, md_entries = bmd_entries d\<rparr>)"

definition stored_map ::
  "('v, 'j) map_serde \<Rightarrow> string \<Rightarrow> Location \<Rightarrow> State \<Rightarrow> (string, 'v) fmap option" where
  "stored_map C sch l st =
     (case fmlookup (st_objects st) l of
        None \<Rightarrow> None
      | Some obj \<Rightarrow>
          (case ms_from_slice C (obj_bytes obj) of
             Inl _ \<Rightarrow> None
           | Inr d \<Rightarrow> if map_valid sch d then Some (md_entries d) else None))"

datatype 'v map_op =
    Op_get string | Op_entries | Op_insert string 'v | Op_insert_if_absent string 'v | Op_remove string

datatype 'v map_reply =
    Reply_value "'v option" | Reply_entries "(string \<times> 'v) list" | Reply_inserted | Reply_occupied 'v

text \<open>One operation on the stored map, with the version of a write dropped from the answer.\<close>

fun map_exec ::
  "('v, 'j) map_serde \<Rightarrow> ('s, 'e) Map \<Rightarrow> 'v map_op \<Rightarrow> ('s, ('j, 'e) Error, 'v map_reply) comp" where
  "map_exec C m (Op_get k) = and_then (map_get C m k) (\<lambda>r. ok (Reply_value r))"
| "map_exec C m Op_entries = and_then (map_entries C m) (\<lambda>r. ok (Reply_entries r))"
| "map_exec C m (Op_insert k v) = and_then (map_insert C m k v) (\<lambda>_. ok Reply_inserted)"
| "map_exec C m (Op_insert_if_absent k v) =
     and_then (map_insert_if_absent C m k v) (\<lambda>r.
       ok (case r of Inserted _ \<Rightarrow> Reply_inserted | Occupied old \<Rightarrow> Reply_occupied old))"
| "map_exec C m (Op_remove k) = and_then (map_remove C m k) (\<lambda>r. ok (Reply_value r))"

text \<open>The same operation on a \<open>BTreeMap\<close>.\<close>

fun btree_exec :: "'v map_op \<Rightarrow> (string, 'v) fmap \<Rightarrow> 'v map_reply \<times> (string, 'v) fmap" where
  "btree_exec (Op_get k) M = (Reply_value (fmlookup M k), M)"
| "btree_exec Op_entries M = (Reply_entries (sorted_list_of_fmap M), M)"
| "btree_exec (Op_insert k v) M = (Reply_inserted, fmupd k v M)"
| "btree_exec (Op_insert_if_absent k v) M =
     (case fmlookup M k of Some old \<Rightarrow> (Reply_occupied old, M) | None \<Rightarrow> (Reply_inserted, fmupd k v M))"
| "btree_exec (Op_remove k) M = (Reply_value (fmlookup M k), fmdrop k M)"

fun map_run ::
  "('v, 'j) map_serde \<Rightarrow> ('s, 'e) Map \<Rightarrow> 'v map_op list \<Rightarrow> ('s, ('j, 'e) Error, 'v map_reply list) comp" where
  "map_run C m [] = ok []"
| "map_run C m (x # xs) = and_then (map_exec C m x) (\<lambda>r. and_then (map_run C m xs) (\<lambda>rs. ok (r # rs)))"

fun btree_run :: "'v map_op list \<Rightarrow> (string, 'v) fmap \<Rightarrow> 'v map_reply list \<times> (string, 'v) fmap" where
  "btree_run [] M = ([], M)"
| "btree_run (x # xs) M =
     (let (r, M') = btree_exec x M; (rs, M'') = btree_run xs M' in (r # rs, M''))"

section \<open>Reading the library's lemmas at this instance\<close>

abbreviation map_doc :: "('v, 'j) map_serde \<Rightarrow> string \<Rightarrow> Location \<Rightarrow> State \<Rightarrow> 'v OwnedMapDocument option" where
  "map_doc C sch l st \<equiv>
     stored_doc (map_decode C sch :: bytes \<Rightarrow> ('j, Infallible) Error + 'v OwnedMapDocument)
       (memory_view st l)"

lemma stored_map_eq_Some:
  "stored_map C sch l st = Some M \<longleftrightarrow> (\<exists>d. map_doc C sch l st = Some d \<and> M = md_entries d)"
  by (auto simp: stored_map_def stored_doc_eq_Some memory_view_def map_decode_eq_Ok
      split: sum.splits option.splits if_splits)

lemma stored_mapI: "map_doc C sch l st = Some d \<Longrightarrow> stored_map C sch l st = Some (md_entries d)"
  by (auto simp: stored_map_eq_Some)

lemma map_serde_roundtrips:
  "map_serde_ok C \<Longrightarrow> roundtrips (map_valid sch) (map_encode C) (map_decode C sch)"
  by (auto simp: roundtrips_def map_serde_ok_def map_encode_def map_decode_eq_Ok)
    (metis sum.inject(2))

lemma map_serde_encodes: "map_serde_ok C \<Longrightarrow> \<exists>b. map_encode C d = Ok b"
  by (auto simp: map_serde_ok_def map_encode_def)

text \<open>A mutation of the stored map, and an answer from it, at the in-memory store.\<close>

lemma map_commit:
  fixes C :: "('v, 'j) map_serde"
  assumes "map_serde_ok C" "map_doc C sch l st = Some d" "f d = Commit (with_entries g d) k"
  shows "\<exists>v st'.
    transact (map_read C (memory_map l sch)) (map_write C (memory_map l sch)) f st = (Ok (k v), st') \<and>
    stored_map C sch l st' = Some (g (md_entries d))"
proof -
  have "map_valid sch d" using assms(2) by (auto simp: stored_doc_eq_Some map_decode_eq_Ok)
  then have v: "map_valid sch (with_entries g d)" by simp
  obtain b where b: "(map_encode C (with_entries g d) :: ('j, Infallible) Error + bytes) = Ok b"
    using map_serde_encodes [OF assms(1)] by blast
  show ?thesis
    by (rule mapm.transact_Commit_contents
          [where f = f, OF map_serde_roundtrips [OF assms(1)] TrueI assms(2,3) v b])
      (auto dest: stored_mapI)
qed

lemma map_reply:
  assumes "map_doc C sch l st = Some d" "f d = Reply y"
  shows "\<exists>st'.
    transact (map_read C (memory_map l sch)) (map_write C (memory_map l sch)) f st = (Ok y, st') \<and>
    stored_map C sch l st' = Some (md_entries d)"
  by (rule mapm.transact_Reply [where f = f, OF TrueI assms])
    (use assms(1) in \<open>auto simp: stored_map_eq_Some\<close>)

section \<open>Refinement of the map\<close>

lemma map_exec_refines:
  assumes C: "map_serde_ok C" and st: "stored_map C sch l st = Some M"
  shows "\<exists>st'. map_exec C (memory_map l sch) x st = (Ok (fst (btree_exec x M)), st') \<and>
    stored_map C sch l st' = Some (snd (btree_exec x M))"
proof -
  obtain d where d: "map_doc C sch l st = Some d" and M: "M = md_entries d"
    using st by (auto simp: stored_map_eq_Some)
  note reply = map_reply [OF d] and commit = map_commit [OF C d]
  show ?thesis
  proof (cases x)
    case (Op_get k)
    then show ?thesis using reply [of "map_get_step k"]
      by (auto simp: M map_get_step_def map_get_transact and_then_Ok)
  next
    case Op_entries
    then show ?thesis using reply [of map_entries_step]
      by (auto simp: M map_entries_step_def map_entries_transact and_then_Ok)
  next
    case (Op_insert k v)
    then show ?thesis using commit [of "map_insert_step k v" "fmupd k v" id]
      by (auto simp: M map_insert_step_def map_insert_transact and_then_Ok)
  next
    case (Op_insert_if_absent k v)
    then show ?thesis
      using reply [of "map_insert_if_absent_step k v"] commit [of "map_insert_if_absent_step k v"]
      by (cases "fmlookup M k")
        (fastforce simp: M map_insert_if_absent_step_def map_insert_if_absent_transact and_then_Ok)+
  next
    case (Op_remove k)
    have "fmdrop k M = M" if "fmlookup M k = None"
      using that by (auto intro: fmap_ext)
    with Op_remove show ?thesis
      using reply [of "map_remove_step k"] commit [of "map_remove_step k"]
      by (cases "fmlookup M k")
        (fastforce simp: M map_remove_step_def map_remove_transact and_then_Ok)+
  qed
qed

text \<open>
  C2: a map stored in one object behaves as an ordered map under every sequence of operations:
  each \<open>get\<close>, \<open>entries\<close>, \<open>insert\<close>, \<open>insert_if_absent\<close> and \<open>remove\<close> succeeds and answers what a
  \<open>BTreeMap\<close> with the same history answers, and the stored map is that \<open>BTreeMap\<close> at the end.
\<close>

theorem map_refines_btree:
  assumes "map_serde_ok C" "stored_map C sch l st = Some M"
  shows "\<exists>st'. map_run C (memory_map l sch) xs st = (Ok (fst (btree_run xs M)), st') \<and>
    stored_map C sch l st' = Some (snd (btree_run xs M))"
  using assms(2)
proof (induction xs arbitrary: st M)
  case Nil
  then show ?case by simp
next
  case (Cons x xs)
  obtain st1 where st1: "map_exec C (memory_map l sch) x st = (Ok (fst (btree_exec x M)), st1)"
      "stored_map C sch l st1 = Some (snd (btree_exec x M))"
    using map_exec_refines [OF assms(1) Cons.prems] by blast
  obtain st2 where "map_run C (memory_map l sch) xs st1
        = (Ok (fst (btree_run xs (snd (btree_exec x M)))), st2)"
      "stored_map C sch l st2 = Some (snd (btree_run xs (snd (btree_exec x M))))"
    using Cons.IH [OF st1(2)] by blast
  with st1 show ?case by (auto simp: and_then_Ok Let_def split_beta)
qed

section \<open>A concrete encoder\<close>

definition sample_map_serde :: "(string, unit) map_serde" where
  "sample_map_serde =
     \<lparr>ms_borrowed_to_vec = (\<lambda>d. Ok (put_fields (show_word (bmd_format_version d) # bmd_kind d
        # bmd_schema d # put_pairs (sorted_list_of_fmap (bmd_entries d))))),
      ms_to_vec = (\<lambda>d. Ok (put_fields (show_word (md_format_version d) # md_kind d # md_schema d
        # put_pairs (sorted_list_of_fmap (md_entries d))))),
      ms_from_slice = (\<lambda>b.
        case get_fields [] b of
          Some (fv # k # sch # rest) \<Rightarrow>
            (case get_pairs rest of
               Some ps \<Rightarrow> Ok \<lparr>md_format_version = of_nat (read_nat fv), md_kind = k, md_schema = sch,
                                md_entries = fmap_of_list ps\<rparr>
             | None \<Rightarrow> Err ())
        | _ \<Rightarrow> Err ())\<rparr>"

lemma fmap_of_sorted_list_of_fmap [simp]: "fmap_of_list (sorted_list_of_fmap m) = m"
  by (rule fmap_ext) (simp add: fmlookup_of_list)

lemma sample_map_serde_ok: "map_serde_ok sample_map_serde"
  by (simp add: map_serde_ok_def sample_map_serde_def)

definition sample_map_state :: State where
  "sample_map_state =
     \<lparr>st_objects = fmupd (Location ''prod/maps/users.json'')
        \<lparr>obj_bytes = put_fields [''1'', ''map'', ''user-v1'', ''ada'', ''1''], obj_version = Version ''1''\<rparr>
        fmempty,
      st_next_version = 1\<rparr>"

lemma sample_map_stored:
  "stored_map sample_map_serde ''user-v1'' (Location ''prod/maps/users.json'') sample_map_state
     = Some (fmap_of_list [(''ada'', ''1'')])"
  by (simp add: stored_map_def sample_map_state_def sample_map_serde_def map_valid_def
      FORMAT_VERSION_def read_nat_def)

theorem map_refines_btree_witness:
  "\<exists>st'. map_run sample_map_serde (memory_map (Location ''prod/maps/users.json'') ''user-v1'')
      [Op_insert ''bob'' ''2'', Op_insert_if_absent ''bob'' ''3'', Op_remove ''ada'', Op_get ''ada'', Op_entries]
      sample_map_state
    = (Ok [Reply_inserted, Reply_occupied ''2'', Reply_value (Some ''1''), Reply_value None,
           Reply_entries [(''bob'', ''2'')]], st') \<and>
    stored_map sample_map_serde ''user-v1'' (Location ''prod/maps/users.json'') st'
      = Some (fmdrop ''ada'' (fmupd ''bob'' ''2'' (fmap_of_list [(''ada'', ''1'')])))"
proof -
  let ?xs = "[Op_insert ''bob'' ''2'', Op_insert_if_absent ''bob'' ''3'', Op_remove ''ada'',
    Op_get ''ada'', Op_entries]"
  have "btree_run ?xs (fmap_of_list [(''ada'', ''1'')]) =
    ([Reply_inserted, Reply_occupied ''2'', Reply_value (Some ''1''), Reply_value None,
      Reply_entries [(''bob'', ''2'')]],
     fmdrop ''ada'' (fmupd ''bob'' ''2'' (fmap_of_list [(''ada'', ''1'')])))"
    by code_simp
  then show ?thesis
    using map_refines_btree [OF sample_map_serde_ok sample_map_stored, of ?xs] by simp
qed


section \<open>Atomicity over any store\<close>

lemma map_transact_atomic:
  fixes C :: "('v, 'j) map_serde" and S :: "('s, 'e) object_store"
  assumes "object_store_laws S view I locs" "locs l"
    and "\<forall>d b. ms_to_vec C d = Ok b \<longrightarrow> ms_from_slice C b = Ok d" "I s"
    and "\<And>d d' k. f d = Commit d' k \<Longrightarrow> map_valid sch d' = map_valid sch d"
  shows "case_prod (atomic_outcome view l (map_decode C sch) (\<lambda>e. Error_Store \<lparr>se_source = e\<rparr>) f s)
    (transact (map_read C \<lparr>map_store = S, map_location = l, map_schema = sch\<rparr>)
      (map_write C \<lparr>map_store = S, map_location = l, map_schema = sch\<rparr>) f s)"
proof -
  have rt: "roundtrips (map_valid sch) (map_encode C) (map_decode C sch :: bytes \<Rightarrow> ('j, 'e) Error + _)"
    using assms(3) by (auto simp: roundtrips_def map_encode_def map_decode_eq_Ok)
  show ?thesis
    by (rule document_structure.transact_atomic_pair
          [OF map_document_structure [OF assms(1,2)] rt assms(4)])
      (auto simp: stored_doc_eq_Some map_decode_eq_Ok assms(5))
qed

text \<open>
  C12: over every store that keeps the object-store contract, each map operation is one atomic
  step on the stored document: on success the answer and the new document are those of the
  step applied to the stored document, at the version reported; on a conflict or any error other
  than a backend failure nothing changed; after a backend failure the location holds the old
  document or the complete new one; no other location is touched.
\<close>

theorem map_operations_atomic:
  assumes "object_store_laws S view I locs" "locs l" "I s"
    and "\<forall>d b. ms_to_vec C d = Ok b \<longrightarrow> ms_from_slice C b = Ok d"
    and "m = \<lparr>map_store = S, map_location = l, map_schema = sch\<rparr>"
  shows "case_prod (atomic_outcome view l (map_decode C sch) (\<lambda>e. Error_Store \<lparr>se_source = e\<rparr>)
           (map_insert_step k v) s) (map_insert C m k v s) \<and>
    case_prod (atomic_outcome view l (map_decode C sch) (\<lambda>e. Error_Store \<lparr>se_source = e\<rparr>)
           (map_insert_if_absent_step k v) s) (map_insert_if_absent C m k v s) \<and>
    case_prod (atomic_outcome view l (map_decode C sch) (\<lambda>e. Error_Store \<lparr>se_source = e\<rparr>)
           (map_remove_step k) s) (map_remove C m k s) \<and>
    case_prod (atomic_outcome view l (map_decode C sch) (\<lambda>e. Error_Store \<lparr>se_source = e\<rparr>)
           (map_get_step k) s) (map_get C m k s) \<and>
    case_prod (atomic_outcome view l (map_decode C sch) (\<lambda>e. Error_Store \<lparr>se_source = e\<rparr>)
           map_entries_step s) (map_entries C m s)"
  unfolding map_transacts assms(5)
  by (intro conjI map_transact_atomic [OF assms(1,2,4,3)])
    (simp_all add: map_steps_valid)

theorem map_operations_atomic_witness:
  "case_prod (atomic_outcome memory_view (Location ''prod/maps/users.json'')
      (map_decode sample_map_serde ''user-v1'') (\<lambda>e. Error_Store \<lparr>se_source = e\<rparr>)
      (map_insert_step ''bob'' ''2'') sample_map_state)
    (map_insert sample_map_serde (memory_map (Location ''prod/maps/users.json'') ''user-v1'')
      ''bob'' ''2'' sample_map_state)"
proof -
  have "\<forall>d b. ms_to_vec sample_map_serde d = Ok b \<longrightarrow> ms_from_slice sample_map_serde b = Ok d"
    using sample_map_serde_ok unfolding map_serde_ok_def by (metis sum.inject(2))
  then show ?thesis
    by (rule map_operations_atomic [OF mem.object_store_laws_axioms TrueI TrueI _ refl, THEN conjunct1])
qed

end
