(* ===== verification/Map_Lifecycle.thy ===== *)
theory Map_Lifecycle
  imports Map_Properties
begin

text \<open>
  The lifecycle of a map built through a client: configuration is checked before any I/O,
  \<open>create\<close> never replaces an object, \<open>open\<close> accepts exactly a well-formed map of the same schema,
  and \<open>open_or_create\<close> does one or the other.
\<close>

abbreviation memory_objsds :: "string \<Rightarrow> (State, Infallible) Objsds" where
  "memory_objsds ns \<equiv> \<lparr>client_store = memory_store, client_namespace = ns\<rparr>"

abbreviation memory_map_builder :: "string \<Rightarrow> string \<Rightarrow> string \<Rightarrow> (State, Infallible) MapBuilder" where
  "memory_map_builder ns name sch \<equiv> MapBuilder_schema sch (Objsds_map (memory_objsds ns) name)"

abbreviation map_loc :: "string \<Rightarrow> string \<Rightarrow> Location" where
  "map_loc ns name \<equiv> Location (ns @ ''/'' @ ''maps'' @ ''/'' @ name @ ''.json'')"

lemma is_path_segment_maps: "is_path_segment ''maps''"
  by (simp add: is_path_segment_def)

lemma MapBuilder_finish_client:
  "MapBuilder_finish (MapBuilder_schema sch (Objsds_map \<lparr>client_store = S, client_namespace = ns\<rparr> name)) =
     (if sch = [] then Err MissingSchema
      else if is_path_segment ns \<and> is_path_segment name
      then Ok \<lparr>map_store = S, map_location = map_loc ns name, map_schema = sch\<rparr>
      else Err InvalidName)"
proof -
  have "location ns ''maps'' name =
      (if is_path_segment ns \<and> is_path_segment name then Ok (map_loc ns name) else Err InvalidName)"
    using is_path_segment_maps
    by (auto simp: location_eq_Ok location_eq_Err Location_structure_eq_Ok)
  then show ?thesis
    by (auto simp: MapBuilder_finish_def MapBuilder_schema_def Objsds_map_def MapBuilder_new_def)
qed

lemmas MapBuilder_finish_memory = MapBuilder_finish_client [where S = memory_store]

text \<open>
  A map is configured exactly when its namespace and name are single path segments and its
  schema identifier is not empty; otherwise every lifecycle operation returns the configuration
  error (the schema is checked first) and touches no object.
\<close>

theorem map_configuration_errors:
  assumes "sch = [] \<or> \<not> is_path_segment ns \<or> \<not> is_path_segment name"
  shows "MapBuilder_create C (memory_map_builder ns name sch) st =
      (Err (Error_Configuration (if sch = [] then MissingSchema else InvalidName)), st) \<and>
    MapBuilder_open C (memory_map_builder ns name sch) st =
      (Err (Error_Configuration (if sch = [] then MissingSchema else InvalidName)), st) \<and>
    MapBuilder_open_or_create C (memory_map_builder ns name sch) st =
      (Err (Error_Configuration (if sch = [] then MissingSchema else InvalidName)), st)"
  using assms
  by (auto simp: MapBuilder_create_def MapBuilder_open_def MapBuilder_open_or_create_def
      MapBuilder_finish_memory and_then_def)

theorem map_configuration_errors_witness:
  "MapBuilder_create sample_map_serde (memory_map_builder ''prod'' ''a/b'' ''user-v1'') State_default
     = (Err (Error_Configuration InvalidName), State_default)"
proof -
  have "''user-v1'' = [] \<or> \<not> is_path_segment ''prod'' \<or> \<not> is_path_segment ''a/b''"
    by code_simp
  from map_configuration_errors [OF this, of sample_map_serde State_default] show ?thesis by simp
qed

lemma map_empty_stored:
  fixes C :: "('v, 'j) map_serde"
  assumes "map_serde_ok C" "map_empty_bytes C (memory_map l sch) = Ok b"
  shows "stored_doc (map_decode C sch :: bytes \<Rightarrow> ('j, Infallible) Error + _) (Some \<lparr>obj_bytes = b, obj_version = v\<rparr>)
    = Some \<lparr>md_format_version = FORMAT_VERSION, md_kind = ''map'', md_schema = sch, md_entries = fmempty\<rparr>"
proof -
  let ?d = "\<lparr>bmd_format_version = FORMAT_VERSION, bmd_kind = ''map'', bmd_schema = sch, bmd_entries = fmempty\<rparr>"
  have "ms_borrowed_to_vec C ?d = Ok b" using assms(2) by (simp add: map_empty_bytes_def)
  then have "ms_from_slice C b = Ok \<lparr>md_format_version = FORMAT_VERSION, md_kind = ''map'',
      md_schema = sch, md_entries = fmempty\<rparr>"
    using assms(1) unfolding map_serde_ok_def by (metis MapDocument.select_convs sum.inject(2))
  then show ?thesis by (auto simp: stored_doc_eq_Some map_decode_eq_Ok map_valid_def)
qed

lemma map_empty_encodes: "map_serde_ok C \<Longrightarrow> \<exists>b. map_empty_bytes C m = Ok b"
  by (auto simp: map_serde_ok_def map_empty_bytes_def)

lemma map_put_empty:
  assumes "map_serde_ok C" "map_empty_bytes C (memory_map l sch) = Ok b"
  shows "stored_map C sch l (memory_put l b st) = Some fmempty"
  using map_empty_stored [OF assms] by (simp add: stored_map_eq_Some memory_put_view)

text \<open>
  Creating a map on an absent location succeeds and stores the empty map there, leaving every
  other object as it was; on an occupied location it fails with the version found and changes
  nothing, whatever the object holds.
\<close>

theorem map_create_spec:
  assumes "map_serde_ok C" "is_path_segment ns" "is_path_segment name" "sch \<noteq> []"
  shows "case fmlookup (st_objects st) (map_loc ns name) of
      None \<Rightarrow> \<exists>st'. MapBuilder_create C (memory_map_builder ns name sch) st
          = (Ok (memory_map (map_loc ns name) sch), st') \<and>
        stored_map C sch (map_loc ns name) st' = Some fmempty \<and>
        (\<forall>l'. l' \<noteq> map_loc ns name \<longrightarrow> memory_view st' l' = memory_view st l')
    | Some obj \<Rightarrow> MapBuilder_create C (memory_map_builder ns name sch) st
          = (Err (Error_AlreadyExists \<lparr>ae_observed = obj_version obj\<rparr>), st)"
proof -
  obtain b where b: "(map_empty_bytes C (memory_map (map_loc ns name) sch)) = Ok b"
    using map_empty_encodes [OF assms(1)] by blast
  have create: "MapBuilder_create C (memory_map_builder ns name sch) st =
      and_then (lifecycle_create memory_store (map_loc ns name) b)
        (\<lambda>_. ok (memory_map (map_loc ns name) sch)) st"
    using assms b
    by (simp add: MapBuilder_create_def MapBuilder_finish_memory create_structure_def and_then_def
        split: prod.splits sum.splits)
  show ?thesis
    using create map_put_empty [OF assms(1) b]
    by (auto simp: lifecycle_create_def and_then_def map_err_def memory_create_absent
        memory_create_present memory_put_view split: option.splits)
qed

theorem map_create_spec_witness:
  "\<exists>st'. MapBuilder_create sample_map_serde (memory_map_builder ''prod'' ''users'' ''user-v1'') State_default
      = (Ok (memory_map (map_loc ''prod'' ''users'') ''user-v1''), st') \<and>
    stored_map sample_map_serde ''user-v1'' (map_loc ''prod'' ''users'') st' = Some fmempty"
proof -
  have "is_path_segment ''prod''" "is_path_segment ''users''" "''user-v1'' \<noteq> []" by code_simp+
  from map_create_spec [OF sample_map_serde_ok this, of State_default] show ?thesis
    by (auto simp: State_default_def)
qed

text \<open>
  Opening a map returns its handle exactly when the stored document is a map of this format
  version, kind and schema; a missing object, undecodable bytes and each metadata mismatch are
  reported as such, with what was expected and what was found; nothing is written in any case.
\<close>

theorem map_open_spec:
  assumes "is_path_segment ns" "is_path_segment name" "sch \<noteq> []"
  shows "MapBuilder_open C (memory_map_builder ns name sch) st =
    (case fmlookup (st_objects st) (map_loc ns name) of
       None \<Rightarrow> Err Error_NotFound
     | Some obj \<Rightarrow>
         (case ms_from_slice C (obj_bytes obj) of
            Inl x \<Rightarrow> Err (Error_Document (Doc_Deserialize x))
          | Inr d \<Rightarrow>
              if md_format_version d \<noteq> 1
              then Err (Error_Incompatible (Compat_FormatVersion 1 (md_format_version d)))
              else if md_kind d \<noteq> ''map'' then Err (Error_Incompatible (Compat_Kind ''map'' (md_kind d)))
              else if md_schema d \<noteq> sch then Err (Error_Incompatible (Compat_Schema sch (md_schema d)))
              else Ok (memory_map (map_loc ns name) sch)), st)"
  using assms
  by (simp add: MapBuilder_open_def MapBuilder_finish_memory open_structure_def and_then_def
      map_read_eq memory_get_def map_decode_def validate_def FORMAT_VERSION_def
      split: option.splits sum.splits)

theorem map_open_spec_witness:
  "MapBuilder_open sample_map_serde (memory_map_builder ''prod'' ''users'' ''user-v2'') sample_map_state
     = (Err (Error_Incompatible (Compat_Schema ''user-v2'' ''user-v1'')), sample_map_state)"
proof -
  have "is_path_segment ''prod''" "is_path_segment ''users''" "''user-v2'' \<noteq> []" by code_simp+
  from map_open_spec [OF this, of sample_map_serde sample_map_state] show ?thesis
    by (simp add: sample_map_state_def sample_map_serde_def read_nat_def)
qed

lemma map_open_stored:
  assumes "is_path_segment ns" "is_path_segment name" "sch \<noteq> []"
    and "stored_map C sch (map_loc ns name) st = Some M"
  shows "MapBuilder_open C (memory_map_builder ns name sch) st
    = (Ok (memory_map (map_loc ns name) sch), st)"
  using assms
  by (auto simp: MapBuilder_open_def MapBuilder_finish_memory open_structure_def and_then_def
      map_read_eq memory_get_def stored_map_eq_Some stored_doc_eq_Some memory_view_def)

text \<open>
  \<open>open_or_create\<close> on an absent location creates the empty map; on a compatible map it
  succeeds and leaves the store exactly as it was, so that calling it again changes nothing;
  on an incompatible object it fails as \<open>open\<close> does, and does not overwrite it.
\<close>

theorem map_open_or_create_spec:
  assumes "map_serde_ok C" "is_path_segment ns" "is_path_segment name" "sch \<noteq> []"
  shows "case fmlookup (st_objects st) (map_loc ns name) of
      None \<Rightarrow> \<exists>st'. MapBuilder_open_or_create C (memory_map_builder ns name sch) st
          = (Ok (memory_map (map_loc ns name) sch), st') \<and>
        stored_map C sch (map_loc ns name) st' = Some fmempty \<and>
        (\<forall>l'. l' \<noteq> map_loc ns name \<longrightarrow> memory_view st' l' = memory_view st l') \<and>
        MapBuilder_open_or_create C (memory_map_builder ns name sch) st'
          = (Ok (memory_map (map_loc ns name) sch), st')
    | Some obj \<Rightarrow> MapBuilder_open_or_create C (memory_map_builder ns name sch) st
          = MapBuilder_open C (memory_map_builder ns name sch) st"
proof -
  let ?l = "map_loc ns name"
  obtain b where b: "(map_empty_bytes C (memory_map ?l sch)) = Ok b"
    using map_empty_encodes [OF assms(1)] by blast
  have present: "MapBuilder_open_or_create C (memory_map_builder ns name sch) s
      = MapBuilder_open C (memory_map_builder ns name sch) s"
    if "fmlookup (st_objects s) ?l = Some obj" for obj s
    using assms that
    by (simp add: MapBuilder_open_or_create_def MapBuilder_open_def MapBuilder_finish_memory
        open_or_create_structure_def and_then_def map_err_def memory_get_def)
  have absent: "MapBuilder_open_or_create C (memory_map_builder ns name sch) st
      = (Ok (memory_map ?l sch), memory_put ?l b st)"
    if "fmlookup (st_objects st) ?l = None"
    using assms that b
    by (simp add: MapBuilder_open_or_create_def MapBuilder_finish_memory lifecycle_create_def
        open_or_create_structure_def and_then_def map_err_def memory_get_def memory_create_absent)
  have "stored_map C sch ?l (memory_put ?l b st) = Some fmempty"
    by (rule map_put_empty [OF assms(1) b])
  moreover from this have "MapBuilder_open_or_create C (memory_map_builder ns name sch) (memory_put ?l b st)
      = (Ok (memory_map ?l sch), memory_put ?l b st)"
    using map_open_stored [OF assms(2-4)] present [OF memory_put_lookup] by simp
  ultimately show ?thesis
    using absent present by (auto simp: memory_put_view split: option.splits)
qed

theorem map_open_or_create_spec_witness:
  "MapBuilder_open_or_create sample_map_serde (memory_map_builder ''prod'' ''users'' ''user-v1'') sample_map_state
     = (Ok (memory_map (map_loc ''prod'' ''users'') ''user-v1''), sample_map_state)"
proof -
  have seg: "is_path_segment ''prod''" "is_path_segment ''users''" "''user-v1'' \<noteq> []" by code_simp+
  have "stored_map sample_map_serde ''user-v1'' (map_loc ''prod'' ''users'') sample_map_state
      = Some (fmap_of_list [(''ada'', ''1'')])"
    using sample_map_stored by simp
  from map_open_or_create_spec [OF sample_map_serde_ok seg, of sample_map_state]
    map_open_stored [OF seg this] show ?thesis
    by (simp add: sample_map_state_def)
qed

end
