(* ===== verification/Queue_Structure.thy ===== *)
theory Queue_Structure
  imports Document_Structure Memory_Store Sample_Codec
begin

text \<open>
  The crate \<open>objsds-queue\<close>: its data, operations and builder. The trait \<open>Clock\<close> is the type
  \<open>'c\<close> with the function \<open>now_millis\<close> that the clock computes at the moment of the call;
  \<open>Uuid::now_v7()\<close> is the argument \<open>fresh\<close> of the operation that draws it; \<open>serde_json\<close> is the
  parameter \<open>queue_serde\<close>. Durations are seconds and nanoseconds as in the standard library.
\<close>

section \<open>Durations and clocks\<close>

record Duration =
  dur_secs :: u64
  dur_nanos :: u32

text \<open>\<open>Duration::as_millis\<close> is a \<open>u128\<close>, which the largest duration does not fill.\<close>

definition as_millis :: "Duration \<Rightarrow> nat" where
  "as_millis d = unat (dur_secs d) * 1000 + unat (dur_nanos d) div 1000000"

definition u64_try_from :: "nat \<Rightarrow> u64 option" where
  "u64_try_from n = (if n < 2 ^ 64 then Some (of_nat n) else None)"

definition Duration_default :: Duration where
  "Duration_default = \<lparr>dur_secs = 0, dur_nanos = 0\<rparr>"

datatype SystemClock = SystemClock

text \<open>\<open>since\<close> is \<open>SystemTime::now().duration_since(UNIX_EPOCH)\<close>, an error before the epoch.\<close>

definition SystemClock_now_millis :: "'t + Duration \<Rightarrow> SystemClock \<Rightarrow> u64" where
  "SystemClock_now_millis since _ =
     (let millis = as_millis (case since of Inl _ \<Rightarrow> Duration_default | Inr d \<Rightarrow> d)
      in case u64_try_from millis of None \<Rightarrow> - 1 | Some w \<Rightarrow> w)"

section \<open>Identifiers, claims and acknowledgements\<close>

datatype MessageId = MessageId (message_uuid: uuid)

text \<open>\<open>MessageId\<close> derives \<open>Ord\<close>.\<close>

instantiation MessageId :: linorder
begin

definition less_eq_MessageId :: "MessageId \<Rightarrow> MessageId \<Rightarrow> bool" where
  "less_eq_MessageId a b \<longleftrightarrow> message_uuid a \<le> message_uuid b"

definition less_MessageId :: "MessageId \<Rightarrow> MessageId \<Rightarrow> bool" where
  "less_MessageId a b \<longleftrightarrow> message_uuid a < message_uuid b"

instance
  by standard (auto simp: less_eq_MessageId_def less_MessageId_def MessageId.expand)

end

datatype LeaseToken = LeaseToken (token_uuid: uuid)

definition display_MessageId :: "(uuid \<Rightarrow> string) \<Rightarrow> MessageId \<Rightarrow> string" where
  "display_MessageId show_uuid i = show_uuid (message_uuid i)"

definition display_LeaseToken :: "(uuid \<Rightarrow> string) \<Rightarrow> LeaseToken \<Rightarrow> string" where
  "display_LeaseToken show_uuid t = show_uuid (token_uuid t)"

record 'v Claim =
  cl_id :: MessageId
  cl_value :: 'v
  cl_lease_token :: LeaseToken
  cl_attempt :: u32
  cl_lease_expires_at_millis :: u64

datatype Ack = Acknowledged | Ack_NotFound | LeaseMismatch | LeaseExpired

section \<open>Errors\<close>

datatype QueueBuildError = Q_InvalidNamespace | Q_InvalidName | Q_MissingSchema

fun display_QueueBuildError :: "QueueBuildError \<Rightarrow> string" where
  "display_QueueBuildError Q_InvalidNamespace = ''namespace must be one non-empty path segment''"
| "display_QueueBuildError Q_InvalidName = ''queue name must be one non-empty path segment''"
| "display_QueueBuildError Q_MissingSchema = ''missing schema identifier''"

datatype ('j, 'e) QueueError =
    Q_Configuration QueueBuildError
  | Q_Store 'e
  | Q_Document 'j
  | Q_Corrupt string
  | Q_NotFound
  | Q_AlreadyExists Version
  | Q_Conflict Version "Version option"  \<comment> \<open>expected, observed\<close>
  | Q_Incompatible string
  | Q_InvalidLeaseDuration
  | Q_AttemptOverflow

fun display_QueueError :: "('j \<Rightarrow> string) \<Rightarrow> ('e \<Rightarrow> string) \<Rightarrow> ('j, 'e) QueueError \<Rightarrow> string" where
  "display_QueueError dj de (Q_Configuration x) = ''invalid configuration: '' @ display_QueueBuildError x"
| "display_QueueError dj de (Q_Store x) = ''object store error: '' @ de x"
| "display_QueueError dj de (Q_Document x) = ''could not process queue JSON: '' @ dj x"
| "display_QueueError dj de (Q_Corrupt reason) = ''persisted queue is corrupt: '' @ reason"
| "display_QueueError dj de Q_NotFound = ''queue does not exist''"
| "display_QueueError dj de (Q_AlreadyExists _) = ''queue already exists''"
| "display_QueueError dj de (Q_Conflict _ _) = ''object version conflict''"
| "display_QueueError dj de (Q_Incompatible reason) = ''incompatible queue: '' @ reason"
| "display_QueueError dj de Q_InvalidLeaseDuration = ''invalid lease duration''"
| "display_QueueError dj de Q_AttemptOverflow = ''message claim count overflowed''"

datatype ('j, 'e) queue_source = QSource_Build QueueBuildError | QSource_Backend 'e | QSource_Json 'j

fun source_QueueError :: "('j, 'e) QueueError \<Rightarrow> ('j, 'e) queue_source option" where
  "source_QueueError (Q_Configuration x) = Some (QSource_Build x)"
| "source_QueueError (Q_Store x) = Some (QSource_Backend x)"
| "source_QueueError (Q_Document x) = Some (QSource_Json x)"
| "source_QueueError _ = None"

section \<open>Documents and handles\<close>

record Lease =
  le_token :: LeaseToken
  le_expires_at_millis :: u64

record 'v Message =
  msg_id :: MessageId
  msg_value :: 'v
  msg_attempts :: u32
  msg_lease :: "Lease option"

record 'v Document =
  qd_format_version :: u32
  qd_kind :: string
  qd_schema :: string
  qd_messages :: "'v Message list"

record ('v, 'j) queue_serde =
  qs_to_vec :: "'v Document \<Rightarrow> 'j + bytes"
  qs_from_slice :: "bytes \<Rightarrow> 'j + 'v Document"

record ('s, 'e, 'c) Queue =
  queue_store :: "('s, 'e) object_store"
  queue_location :: Location
  queue_schema :: string
  queue_clock :: 'c

definition QUEUE_FORMAT_VERSION :: u32 where
  "QUEUE_FORMAT_VERSION = 1"

definition QUEUE_KIND :: string where
  "QUEUE_KIND = ''queue''"

section \<open>Operations\<close>

definition queue_empty_bytes ::
  "('v, 'j) queue_serde \<Rightarrow> ('s, 'e, 'c) Queue \<Rightarrow> ('j, 'e) QueueError + bytes" where
  "queue_empty_bytes C q =
     map_error Q_Document
       (qs_to_vec C
          \<lparr>qd_format_version = QUEUE_FORMAT_VERSION, qd_kind = QUEUE_KIND, qd_schema = queue_schema q,
           qd_messages = []\<rparr>)"

definition queue_read ::
  "('v, 'j) queue_serde \<Rightarrow> ('s, 'e, 'c) Queue
   \<Rightarrow> ('s, ('j, 'e) QueueError, Version \<times> 'v Document) comp" where
  "queue_read C q =
     and_then (map_err Q_Store (os_get (queue_store q) (queue_location q))) (\<lambda>found.
     and_then (lift_result (ok_or Q_NotFound found)) (\<lambda>obj.
     and_then (lift_result (map_error Q_Document (qs_from_slice C (obj_bytes obj)))) (\<lambda>document.
     if qd_format_version document \<noteq> QUEUE_FORMAT_VERSION
     then err (Q_Incompatible (''expected format version '' @ show_word QUEUE_FORMAT_VERSION
            @ '', observed '' @ show_word (qd_format_version document)))
     else if qd_kind document \<noteq> QUEUE_KIND
     then err (Q_Incompatible (''expected kind '' @ QUEUE_KIND @ '', observed '' @ qd_kind document))
     else if qd_schema document \<noteq> queue_schema q
     then err (Q_Incompatible (''expected schema '' @ queue_schema q
            @ '', observed '' @ qd_schema document))
     else if list_ex (\<lambda>(a, b). msg_id b \<le> msg_id a) (windows2 (qd_messages document))
     then err (Q_Corrupt ''message IDs must be strictly increasing'')
     else ok (obj_version obj, document))))"

fun queue_replace_error :: "Version \<Rightarrow> 'e ReplaceError \<Rightarrow> ('j, 'e) QueueError" where
  "queue_replace_error expected (Replace_Conflict observed) = Q_Conflict expected observed"
| "queue_replace_error expected (Replace_Store e) = Q_Store e"

definition queue_write ::
  "('v, 'j) queue_serde \<Rightarrow> ('s, 'e, 'c) Queue \<Rightarrow> Version \<Rightarrow> 'v Document
   \<Rightarrow> ('s, ('j, 'e) QueueError, unit) comp" where
  "queue_write C q expected document =
     and_then (lift_result (map_error Q_Document (qs_to_vec C document))) (\<lambda>b.
     and_then (map_err (queue_replace_error expected)
                (os_replace (queue_store q) (queue_location q) expected b)) (\<lambda>_.
     ok ()))"

definition queue_publish ::
  "('v, 'j) queue_serde \<Rightarrow> ('s, 'e, 'c) Queue \<Rightarrow> uuid \<Rightarrow> 'v
   \<Rightarrow> ('s, ('j, 'e) QueueError, MessageId) comp" where
  "queue_publish C q fresh v =
     and_then (queue_read C q) (\<lambda>(version, document).
     let i = MessageId fresh;
         index = partition_point (\<lambda>m. msg_id m < i) (qd_messages document);
         document' = document\<lparr>qd_messages := vec_insert index
           \<lparr>msg_id = i, msg_value = v, msg_attempts = 0, msg_lease = None\<rparr> (qd_messages document)\<rparr>
     in and_then (queue_write C q version document') (\<lambda>_. ok i))"

definition lease_millis :: "Duration \<Rightarrow> ('j, 'e) QueueError + u64" where
  "lease_millis lease_duration =
     (case u64_try_from (as_millis lease_duration) of
        None \<Rightarrow> Err Q_InvalidLeaseDuration
      | Some millis \<Rightarrow> if millis > 0 then Ok millis else Err Q_InvalidLeaseDuration)"

definition queue_claim ::
  "('v, 'j) queue_serde \<Rightarrow> ('s, 'e, 'c) Queue \<Rightarrow> ('c \<Rightarrow> u64) \<Rightarrow> uuid \<Rightarrow> Duration
   \<Rightarrow> ('s, ('j, 'e) QueueError, 'v Claim option) comp" where
  "queue_claim C q now_millis fresh lease_duration =
     and_then (lift_result (lease_millis lease_duration)) (\<lambda>lease.
     let now = now_millis (queue_clock q) in
     and_then (lift_result (ok_or Q_InvalidLeaseDuration (checked_add now lease))) (\<lambda>expires_at_millis.
     and_then (queue_read C q) (\<lambda>(version, document).
     case position (\<lambda>m. case msg_lease m of None \<Rightarrow> True | Some le \<Rightarrow> le_expires_at_millis le \<le> now)
            (qd_messages document) of
       None \<Rightarrow> ok None
     | Some index \<Rightarrow>
         let token = LeaseToken fresh; m = qd_messages document ! index in
         and_then (lift_result (ok_or Q_AttemptOverflow (checked_add (msg_attempts m) 1))) (\<lambda>attempts.
         let m' = m\<lparr>msg_attempts := attempts,
                    msg_lease := Some \<lparr>le_token = token, le_expires_at_millis = expires_at_millis\<rparr>\<rparr>;
             document' = document\<lparr>qd_messages := (qd_messages document)[index := m']\<rparr>
         in and_then (queue_write C q version document') (\<lambda>_.
            ok (Some \<lparr>cl_id = msg_id m', cl_value = msg_value m', cl_lease_token = token,
                      cl_attempt = msg_attempts m',
                      cl_lease_expires_at_millis = expires_at_millis\<rparr>))))))"

definition queue_ack ::
  "('v, 'j) queue_serde \<Rightarrow> ('s, 'e, 'c) Queue \<Rightarrow> ('c \<Rightarrow> u64) \<Rightarrow> MessageId \<Rightarrow> LeaseToken
   \<Rightarrow> ('s, ('j, 'e) QueueError, Ack) comp" where
  "queue_ack C q now_millis i token =
     (let now = now_millis (queue_clock q) in
     and_then (queue_read C q) (\<lambda>(version, document).
     case binary_search_by_key i msg_id (qd_messages document) of
       Inl _ \<Rightarrow> ok Ack_NotFound
     | Inr index \<Rightarrow>
         (case msg_lease (qd_messages document ! index) of
            None \<Rightarrow> ok LeaseMismatch
          | Some lease \<Rightarrow>
              if le_token lease \<noteq> token then ok LeaseMismatch
              else if le_expires_at_millis lease \<le> now then ok LeaseExpired
              else
                let document' = document\<lparr>qd_messages := vec_remove index (qd_messages document)\<rparr>
                in and_then (queue_write C q version document') (\<lambda>_. ok Acknowledged))))"

definition queue_len ::
  "('v, 'j) queue_serde \<Rightarrow> ('s, 'e, 'c) Queue \<Rightarrow> ('s, ('j, 'e) QueueError, nat) comp" where
  "queue_len C q = and_then (queue_read C q) (\<lambda>(_, document). ok (length (qd_messages document)))"

definition queue_is_empty ::
  "('v, 'j) queue_serde \<Rightarrow> ('s, 'e, 'c) Queue \<Rightarrow> ('s, ('j, 'e) QueueError, bool) comp" where
  "queue_is_empty C q = and_then (queue_len C q) (\<lambda>n. ok (n = 0))"

fun map_create :: "'e CreateError \<Rightarrow> ('j, 'e) QueueError" where
  "map_create (Create_AlreadyExists observed) = Q_AlreadyExists observed"
| "map_create (Create_Store e) = Q_Store e"

section \<open>Builder\<close>

record ('s, 'e, 'c) QueueBuilder =
  qb_store :: "('s, 'e) object_store"
  qb_namespace :: string
  qb_name :: string
  qb_schema :: "string option"
  qb_clock :: 'c

definition QueueBuilder_new ::
  "('s, 'e) object_store \<Rightarrow> string \<Rightarrow> string \<Rightarrow> ('s, 'e, SystemClock) QueueBuilder" where
  "QueueBuilder_new S namespace name =
     \<lparr>qb_store = S, qb_namespace = namespace, qb_name = name, qb_schema = None, qb_clock = SystemClock\<rparr>"

definition QueueBuilder_schema :: "string \<Rightarrow> ('s, 'e, 'c) QueueBuilder \<Rightarrow> ('s, 'e, 'c) QueueBuilder" where
  "QueueBuilder_schema sch b = b\<lparr>qb_schema := Some sch\<rparr>"

definition QueueBuilder_clock :: "'d \<Rightarrow> ('s, 'e, 'c) QueueBuilder \<Rightarrow> ('s, 'e, 'd) QueueBuilder" where
  "QueueBuilder_clock clock b =
     \<lparr>qb_store = qb_store b, qb_namespace = qb_namespace b, qb_name = qb_name b,
      qb_schema = qb_schema b, qb_clock = clock\<rparr>"

definition QueueBuilder_finish :: "('s, 'e, 'c) QueueBuilder \<Rightarrow> QueueBuildError + ('s, 'e, 'c) Queue" where
  "QueueBuilder_finish b =
     (if \<not> is_path_segment (qb_namespace b) then Err Q_InvalidNamespace
      else if \<not> is_path_segment (qb_name b) then Err Q_InvalidName
      else case (case qb_schema b of
                   None \<Rightarrow> None
                 | Some sch \<Rightarrow> if sch \<noteq> [] then Some sch else None) of
             None \<Rightarrow> Err Q_MissingSchema
           | Some sch \<Rightarrow>
               (case Location_structure (qb_namespace b) ''queues'' (qb_name b) of
                  Inl _ \<Rightarrow> Err Q_InvalidName
                | Inr l \<Rightarrow> Ok \<lparr>queue_store = qb_store b, queue_location = l, queue_schema = sch,
                                queue_clock = qb_clock b\<rparr>))"

definition QueueBuilder_create ::
  "('v, 'j) queue_serde \<Rightarrow> ('s, 'e, 'c) QueueBuilder
   \<Rightarrow> ('s, ('j, 'e) QueueError, ('s, 'e, 'c) Queue) comp" where
  "QueueBuilder_create C b =
     and_then (lift_result (map_error Q_Configuration (QueueBuilder_finish b))) (\<lambda>q.
     and_then (lift_result (queue_empty_bytes C q)) (\<lambda>bs.
     and_then (map_err map_create (os_create (queue_store q) (queue_location q) bs)) (\<lambda>_.
     ok q)))"

definition QueueBuilder_open ::
  "('v, 'j) queue_serde \<Rightarrow> ('s, 'e, 'c) QueueBuilder
   \<Rightarrow> ('s, ('j, 'e) QueueError, ('s, 'e, 'c) Queue) comp" where
  "QueueBuilder_open C b =
     and_then (lift_result (map_error Q_Configuration (QueueBuilder_finish b))) (\<lambda>q.
     and_then (queue_read C q) (\<lambda>_.
     ok q))"

definition QueueBuilder_open_or_create ::
  "('v, 'j) queue_serde \<Rightarrow> ('s, 'e, 'c) QueueBuilder
   \<Rightarrow> ('s, ('j, 'e) QueueError, ('s, 'e, 'c) Queue) comp" where
  "QueueBuilder_open_or_create C b =
     and_then (lift_result (map_error Q_Configuration (QueueBuilder_finish b))) (\<lambda>q.
     and_then (map_err Q_Store (os_get (queue_store q) (queue_location q))) (\<lambda>found.
     if found \<noteq> None then and_then (queue_read C q) (\<lambda>_. ok q)
     else
       and_then (lift_result (queue_empty_bytes C q)) (\<lambda>bs s.
       case os_create (queue_store q) (queue_location q) bs s of
         (Inr _, s') \<Rightarrow> (Ok q, s')
       | (Inl (Create_AlreadyExists _), s') \<Rightarrow> and_then (queue_read C q) (\<lambda>_. ok q) s'
       | (Inl (Create_Store e), s') \<Rightarrow> (Err (Q_Store e), s'))))"

end
