(* ===== verification/Queue_Transactions.thy ===== *)
theory Queue_Transactions
  imports Queue_Structure
begin

text \<open>
  The queue's operations as transactions on its document, and the interpretation of the
  structure interface on the queue's \<open>read\<close> and \<open>write\<close>. The pure steps use the positions and
  filters that the searches compute in messages with strictly increasing identifiers.
\<close>

section \<open>Read and write as the interface has them\<close>

definition queue_valid :: "string \<Rightarrow> 'v Document \<Rightarrow> bool" where
  "queue_valid sch d \<longleftrightarrow> qd_format_version d = QUEUE_FORMAT_VERSION \<and> qd_kind d = QUEUE_KIND \<and>
     qd_schema d = sch \<and> keys_increasing msg_id (qd_messages d)"

definition queue_decode :: "('v, 'j) queue_serde \<Rightarrow> string \<Rightarrow> bytes \<Rightarrow> ('j, 'e) QueueError + 'v Document" where
  "queue_decode C sch b =
     (case qs_from_slice C b of
        Inl x \<Rightarrow> Err (Q_Document x)
      | Inr d \<Rightarrow>
          if qd_format_version d \<noteq> QUEUE_FORMAT_VERSION
          then Err (Q_Incompatible (''expected format version '' @ show_word QUEUE_FORMAT_VERSION
                 @ '', observed '' @ show_word (qd_format_version d)))
          else if qd_kind d \<noteq> QUEUE_KIND
          then Err (Q_Incompatible (''expected kind '' @ QUEUE_KIND @ '', observed '' @ qd_kind d))
          else if qd_schema d \<noteq> sch
          then Err (Q_Incompatible (''expected schema '' @ sch @ '', observed '' @ qd_schema d))
          else if keys_increasing msg_id (qd_messages d) then Ok d
          else Err (Q_Corrupt ''message IDs must be strictly increasing''))"

definition queue_encode :: "('v, 'j) queue_serde \<Rightarrow> 'v Document \<Rightarrow> ('j, 'e) QueueError + bytes" where
  "queue_encode C d = map_error Q_Document (qs_to_vec C d)"

text \<open>The write with the version that \<open>write\<close> drops.\<close>

definition queue_swap ::
  "('v, 'j) queue_serde \<Rightarrow> ('s, 'e, 'c) Queue \<Rightarrow> Version \<Rightarrow> 'v Document
   \<Rightarrow> ('s, ('j, 'e) QueueError, Version) comp" where
  "queue_swap C q expected document =
     and_then (lift_result (queue_encode C document)) (\<lambda>b.
     map_err (queue_replace_error expected) (os_replace (queue_store q) (queue_location q) expected b))"

lemma queue_write_swap: "queue_write C q v d = and_then (queue_swap C q v d) (\<lambda>_. ok ())"
  by (simp add: queue_write_def queue_swap_def queue_encode_def and_then_assoc)

lemma queue_write_then:
  "and_then (queue_write C q v d) (\<lambda>_. k) = and_then (queue_swap C q v d) (\<lambda>_. k)"
  by (simp add: queue_write_swap and_then_assoc)

lemma queue_decode_eq_Ok:
  "queue_decode C sch b = Ok d \<longleftrightarrow> qs_from_slice C b = Ok d \<and> queue_valid sch d"
  by (auto simp: queue_decode_def queue_valid_def split: sum.splits if_splits)

lemma queue_decode_valid: "queue_decode C sch b = Ok d \<Longrightarrow> queue_valid sch d"
  by (simp add: queue_decode_eq_Ok)

lemma queue_read_eq:
  "queue_read C \<lparr>queue_store = S, queue_location = l, queue_schema = sch, queue_clock = c\<rparr> s =
     (case os_get S l s of
        (Inl e, t) \<Rightarrow> (Err (Q_Store e), t)
      | (Inr None, t) \<Rightarrow> (Err Q_NotFound, t)
      | (Inr (Some obj), t) \<Rightarrow>
          (case queue_decode C sch (obj_bytes obj) of
             Inl x \<Rightarrow> (Err x, t)
           | Inr d \<Rightarrow> (Ok (obj_version obj, d), t)))"
  by (auto simp: queue_read_def queue_decode_def and_then_def map_err_def map_error_def
      no_decreasing_window split: prod.splits sum.splits option.splits)

lemma queue_swap_eq:
  "queue_swap C \<lparr>queue_store = S, queue_location = l, queue_schema = sch, queue_clock = c\<rparr> v d s =
     (case queue_encode C d of
        Inl x \<Rightarrow> (Err x, s)
      | Inr b \<Rightarrow>
          (case os_replace S l v b s of
             (Inl (Replace_Conflict ob), t) \<Rightarrow> (Err (Q_Conflict v ob), t)
           | (Inl (Replace_Store e), t) \<Rightarrow> (Err (Q_Store e), t)
           | (Inr v', t) \<Rightarrow> (Ok v', t)))"
  by (auto simp: queue_swap_def and_then_def map_err_def
      split: prod.splits sum.splits ReplaceError.splits)

lemma queue_document_structure:
  assumes "object_store_laws S view I locs" "locs l"
  shows "document_structure S view I locs l (queue_decode C sch) (queue_encode C) (queue_valid sch)
    Q_Store Q_NotFound Q_Conflict
    (queue_read C \<lparr>queue_store = S, queue_location = l, queue_schema = sch, queue_clock = c\<rparr>)
    (queue_swap C \<lparr>queue_store = S, queue_location = l, queue_schema = sch, queue_clock = c\<rparr>)"
  by (intro document_structure.intro document_structure_axioms.intro assms)
    (erule queue_decode_valid, rule queue_read_eq, rule queue_swap_eq)

abbreviation memory_queue :: "Location \<Rightarrow> string \<Rightarrow> 'c \<Rightarrow> (State, Infallible, 'c) Queue" where
  "memory_queue l sch c \<equiv>
     \<lparr>queue_store = memory_store, queue_location = l, queue_schema = sch, queue_clock = c\<rparr>"

interpretation queuem: reliable_structure memory_store memory_view "\<lambda>_. True" "\<lambda>_. True" l
    "queue_decode C sch" "queue_encode C" "queue_valid sch" Q_Store Q_NotFound Q_Conflict
    "queue_read C (memory_queue l sch c)" "queue_swap C (memory_queue l sch c)"
  for l sch c C
  by unfold_locales (rule TrueI, erule queue_decode_valid, rule queue_read_eq, rule queue_swap_eq)

section \<open>Steps on messages\<close>

definition available :: "u64 \<Rightarrow> 'v Message \<Rightarrow> bool" where
  "available now m \<longleftrightarrow> (case msg_lease m of None \<Rightarrow> True | Some le \<Rightarrow> le_expires_at_millis le \<le> now)"

definition new_message :: "MessageId \<Rightarrow> 'v \<Rightarrow> 'v Message" where
  "new_message i v = \<lparr>msg_id = i, msg_value = v, msg_attempts = 0, msg_lease = None\<rparr>"

definition leased :: "u32 \<Rightarrow> LeaseToken \<Rightarrow> u64 \<Rightarrow> 'v Message \<Rightarrow> 'v Message" where
  "leased attempts token deadline m =
     m\<lparr>msg_attempts := attempts, msg_lease := Some \<lparr>le_token = token, le_expires_at_millis = deadline\<rparr>\<rparr>"

definition claim_of :: "u32 \<Rightarrow> LeaseToken \<Rightarrow> u64 \<Rightarrow> 'v Message \<Rightarrow> 'v Claim" where
  "claim_of attempts token deadline m =
     \<lparr>cl_id = msg_id m, cl_value = msg_value m, cl_lease_token = token, cl_attempt = attempts,
      cl_lease_expires_at_millis = deadline\<rparr>"

definition lease_deadline :: "u64 \<Rightarrow> Duration \<Rightarrow> ('j, 'e) QueueError + u64" where
  "lease_deadline now lease_duration =
     (case lease_millis lease_duration of
        Inl e \<Rightarrow> Err e
      | Inr millis \<Rightarrow> ok_or Q_InvalidLeaseDuration (checked_add now millis))"

definition with_messages :: "('v Message list \<Rightarrow> 'v Message list) \<Rightarrow> 'v Document \<Rightarrow> 'v Document" where
  "with_messages f d = d\<lparr>qd_messages := f (qd_messages d)\<rparr>"

definition queue_publish_step ::
  "MessageId \<Rightarrow> 'v \<Rightarrow> 'v Document \<Rightarrow> (('j, 'e) QueueError, MessageId, 'v Document) outcome" where
  "queue_publish_step i v d = Commit (with_messages (sorted_insert msg_id (new_message i v)) d) (\<lambda>_. i)"

definition queue_claim_step ::
  "u64 \<Rightarrow> u64 \<Rightarrow> LeaseToken \<Rightarrow> 'v Document \<Rightarrow> (('j, 'e) QueueError, 'v Claim option, 'v Document) outcome" where
  "queue_claim_step now deadline token d =
     (case position (available now) (qd_messages d) of
        None \<Rightarrow> Reply None
      | Some index \<Rightarrow>
          let m = qd_messages d ! index in
          (case checked_add (msg_attempts m) 1 of
             None \<Rightarrow> Reject Q_AttemptOverflow
           | Some a \<Rightarrow>
               Commit (with_messages (\<lambda>ms. ms[index := leased a token deadline m]) d)
                 (\<lambda>_. Some (claim_of a token deadline m))))"

definition queue_ack_step ::
  "u64 \<Rightarrow> MessageId \<Rightarrow> LeaseToken \<Rightarrow> 'v Document \<Rightarrow> (('j, 'e) QueueError, Ack, 'v Document) outcome" where
  "queue_ack_step now i token d =
     (case find (\<lambda>m. msg_id m = i) (qd_messages d) of
        None \<Rightarrow> Reply Ack_NotFound
      | Some m \<Rightarrow>
          (case msg_lease m of
             None \<Rightarrow> Reply LeaseMismatch
           | Some lease \<Rightarrow>
               if le_token lease \<noteq> token then Reply LeaseMismatch
               else if le_expires_at_millis lease \<le> now then Reply LeaseExpired
               else Commit (with_messages (filter (\<lambda>m. msg_id m \<noteq> i)) d) (\<lambda>_. Acknowledged)))"

definition queue_len_step :: "'v Document \<Rightarrow> (('j, 'e) QueueError, nat, 'v Document) outcome" where
  "queue_len_step d = Reply (length (qd_messages d))"

lemma with_messages_sel [simp]:
  "qd_messages (with_messages f d) = f (qd_messages d)"
  "qd_schema (with_messages f d) = qd_schema d"
  "qd_kind (with_messages f d) = qd_kind d"
  "qd_format_version (with_messages f d) = qd_format_version d"
  by (simp_all add: with_messages_def)

lemma leased_sel [simp]:
  "msg_id (leased a t e m) = msg_id m" "msg_value (leased a t e m) = msg_value m"
  "msg_attempts (leased a t e m) = a"
  "msg_lease (leased a t e m) = Some \<lparr>le_token = t, le_expires_at_millis = e\<rparr>"
  by (simp_all add: leased_def)

lemma new_message_sel [simp]:
  "msg_id (new_message i v) = i" "msg_value (new_message i v) = v"
  "msg_attempts (new_message i v) = 0" "msg_lease (new_message i v) = None"
  by (simp_all add: new_message_def)

lemma queue_read_Ok_increasing:
  assumes "queue_read C q s = (Ok (v, d), t)"
  shows "keys_increasing msg_id (qd_messages d)"
proof -
  obtain S l sch c where
    "q = \<lparr>queue_store = S, queue_location = l, queue_schema = sch, queue_clock = c\<rparr>" by (cases q)
  with assms show ?thesis
    by (auto simp: queue_read_eq queue_valid_def split: prod.splits sum.splits option.splits
        dest: queue_decode_valid)
qed

section \<open>The operations are transactions\<close>

lemma queue_publish_transact:
  "queue_publish C q fresh v =
     transact (queue_read C q) (queue_swap C q) (queue_publish_step (MessageId fresh) v)"
proof -
  let ?m = "new_message (MessageId fresh) v"
  have "queue_publish C q fresh v = transact (queue_read C q) (queue_swap C q) (\<lambda>d.
      Commit (with_messages (\<lambda>ms. vec_insert (partition_point (\<lambda>m. msg_id m < msg_id ?m) ms) ?m ms) d)
        (\<lambda>_. MessageId fresh))"
    by (simp add: queue_publish_def transact_def Let_def with_messages_def new_message_def
        queue_write_then)
  also have "\<dots> = transact (queue_read C q) (queue_swap C q) (queue_publish_step (MessageId fresh) v)"
    by (rule transact_cong)
      (simp only: queue_publish_step_def with_messages_def partition_point_insert [OF queue_read_Ok_increasing])
  finally show ?thesis .
qed

lemma available_fun:
  "(\<lambda>m. case msg_lease m of None \<Rightarrow> True | Some le \<Rightarrow> le_expires_at_millis le \<le> now) = available now"
  by (simp add: available_def fun_eq_iff)

lemma queue_claim_transact:
  fixes C :: "('v, 'j) queue_serde" and q :: "('s, 'e, 'c) Queue"
  shows "queue_claim C q now_millis fresh dur =
     and_then (lift_result (lease_deadline (now_millis (queue_clock q)) dur)) (\<lambda>deadline.
     transact (queue_read C q) (queue_swap C q)
       (queue_claim_step (now_millis (queue_clock q)) deadline (LeaseToken fresh)))"
proof -
  have step: "(case position (\<lambda>m. case msg_lease m of None \<Rightarrow> True | Some le \<Rightarrow> le_expires_at_millis le \<le> now)
            (qd_messages d) of
       None \<Rightarrow> ok None
     | Some index \<Rightarrow>
         let token = LeaseToken fresh; m = qd_messages d ! index in
         and_then (lift_result (ok_or Q_AttemptOverflow (checked_add (msg_attempts m) 1))) (\<lambda>attempts.
         let m' = m\<lparr>msg_attempts := attempts,
                    msg_lease := Some \<lparr>le_token = token, le_expires_at_millis = deadline\<rparr>\<rparr>;
             document' = d\<lparr>qd_messages := (qd_messages d)[index := m']\<rparr>
         in and_then (queue_write C q v document') (\<lambda>_.
            ok (Some \<lparr>cl_id = msg_id m', cl_value = msg_value m', cl_lease_token = token,
                      cl_attempt = msg_attempts m', cl_lease_expires_at_millis = deadline\<rparr>))))
    = (case queue_claim_step now deadline (LeaseToken fresh) d of
         Reject x \<Rightarrow> err x
       | Reply r \<Rightarrow> ok r
       | Commit d' k \<Rightarrow> and_then (queue_swap C q v d') (\<lambda>v'. ok (k v')))" for now deadline d v
    unfolding available_fun queue_claim_step_def
    by (cases "position (available now) (qd_messages d)")
      (auto simp: Let_def queue_write_then with_messages_def leased_def claim_of_def
        split: option.splits)
  show ?thesis
    unfolding queue_claim_def transact_def lease_deadline_def Let_def
    by (cases "lease_millis dur :: ('j, 'e) QueueError + u64") (simp_all add: step [unfolded Let_def])
qed

lemma queue_ack_transact:
  fixes C :: "('v, 'j) queue_serde" and q :: "('s, 'e, 'c) Queue"
  shows "queue_ack C q now_millis i token =
     transact (queue_read C q) (queue_swap C q) (queue_ack_step (now_millis (queue_clock q)) i token)"
proof -
  let ?now = "now_millis (queue_clock q)"
  define step :: "'v Document \<Rightarrow> (('j, 'e) QueueError, Ack, 'v Document) outcome"
    where "step d = (case binary_search_by_key i msg_id (qd_messages d) of
       Inl _ \<Rightarrow> Reply Ack_NotFound
     | Inr index \<Rightarrow>
         (case msg_lease (qd_messages d ! index) of
            None \<Rightarrow> Reply LeaseMismatch
          | Some lease \<Rightarrow>
              if le_token lease \<noteq> token then Reply LeaseMismatch
              else if le_expires_at_millis lease \<le> ?now then Reply LeaseExpired
              else Commit (with_messages (vec_remove index) d) (\<lambda>_. Acknowledged)))" for d
  have "queue_ack C q now_millis i token = transact (queue_read C q) (queue_swap C q) step"
    unfolding queue_ack_def transact_def step_def Let_def
    by (rule arg_cong [where f = "and_then _"])
      (auto simp: fun_eq_iff queue_write_then with_messages_def split: sum.splits option.splits)
  also have "\<dots> = transact (queue_read C q) (queue_swap C q) (queue_ack_step ?now i token)"
  proof (rule transact_cong)
    fix v d s t
    assume "queue_read C q s = (Ok (v, d), t)"
    note inc = queue_read_Ok_increasing [OF this]
    show "step d = queue_ack_step ?now i token d"
    proof (cases "position (\<lambda>m. msg_id m = i) (qd_messages d)")
      case None
      then show ?thesis
        by (auto simp: step_def queue_ack_step_def find_position binary_search_by_key_spec [OF inc])
    next
      case (Some k)
      then have k: "k < length (qd_messages d)" "msg_id (qd_messages d ! k) = i"
        by (auto simp: position_eq_Some)
      have "with_messages (vec_remove k) d = with_messages (filter (\<lambda>m. msg_id m \<noteq> i)) d"
        using vec_remove_key [OF inc k(1)] k(2) by (simp add: with_messages_def)
      with Some show ?thesis
        by (auto simp: step_def queue_ack_step_def find_position binary_search_by_key_spec [OF inc]
            split: option.splits)
    qed
  qed
  finally show ?thesis .
qed

lemma queue_len_transact:
  "queue_len C q = transact (queue_read C q) (queue_swap C q) queue_len_step"
  by (simp add: queue_len_def transact_def queue_len_step_def)

section \<open>Steps keep documents well-formed\<close>

lemma queue_publish_step_valid:
  "queue_valid sch d \<Longrightarrow> i \<notin> msg_id ` set (qd_messages d) \<Longrightarrow> queue_publish_step i v d = Commit d' k \<Longrightarrow>
     queue_valid sch d'"
  by (auto simp: queue_publish_step_def queue_valid_def sorted_insert_increasing)

lemma queue_claim_step_valid:
  "queue_valid sch d \<Longrightarrow> queue_claim_step now deadline token d = Commit d' k \<Longrightarrow> queue_valid sch d'"
  by (auto simp: queue_claim_step_def queue_valid_def Let_def position_eq_Some keys_increasing_update
      split: option.splits)

lemma queue_ack_step_valid:
  "queue_valid sch d \<Longrightarrow> queue_ack_step now i token d = Commit d' k \<Longrightarrow> queue_valid sch d'"
  by (auto simp: queue_ack_step_def queue_valid_def keys_increasing_filter
      split: option.splits if_splits)

end
