(* ===== verification/Queue_Model.thy ===== *)
theory Queue_Model
  imports Queue_Transactions
begin

text \<open>
  The queue as a list of messages in identifier order: what every operation does to that list
  and answers, and the facts on sequences of operations that the queue's guarantees rest on.
  Time is the clock reading each operation takes; nothing is assumed of how readings of
  different operations relate.
\<close>

section \<open>Operations on a message list\<close>

datatype 'v queue_op =
    QOp_publish uuid 'v              \<comment> \<open>identifier drawn, payload\<close>
  | QOp_claim u64 uuid Duration      \<comment> \<open>clock reading, token drawn, lease duration\<close>
  | QOp_ack u64 MessageId LeaseToken \<comment> \<open>clock reading, message, token\<close>
  | QOp_len
  | QOp_is_empty

datatype 'v queue_reply =
    QR_published MessageId | QR_claimed "'v Claim option" | QR_ack Ack | QR_len nat | QR_empty bool

definition lease_message :: "MessageId \<Rightarrow> u32 \<Rightarrow> LeaseToken \<Rightarrow> u64 \<Rightarrow> 'v Message list \<Rightarrow> 'v Message list" where
  "lease_message i a token deadline ms =
     map (\<lambda>m. if msg_id m = i then leased a token deadline m else m) ms"

fun message_exec ::
  "'v queue_op \<Rightarrow> 'v Message list \<Rightarrow> (('j, 'e) QueueError + 'v queue_reply) \<times> 'v Message list" where
  "message_exec (QOp_publish u v) ms =
     (Ok (QR_published (MessageId u)), insort_key msg_id (new_message (MessageId u) v) ms)"
| "message_exec (QOp_claim now u dur) ms =
     (case lease_deadline now dur of
        Inl e \<Rightarrow> (Err e, ms)
      | Inr deadline \<Rightarrow>
          (case find (available now) ms of
             None \<Rightarrow> (Ok (QR_claimed None), ms)
           | Some m \<Rightarrow>
               (case checked_add (msg_attempts m) 1 of
                  None \<Rightarrow> (Err Q_AttemptOverflow, ms)
                | Some a \<Rightarrow>
                    (Ok (QR_claimed (Some (claim_of a (LeaseToken u) deadline m))),
                     lease_message (msg_id m) a (LeaseToken u) deadline ms))))"
| "message_exec (QOp_ack now i token) ms =
     (case find (\<lambda>m. msg_id m = i) ms of
        None \<Rightarrow> (Ok (QR_ack Ack_NotFound), ms)
      | Some m \<Rightarrow>
          (case msg_lease m of
             None \<Rightarrow> (Ok (QR_ack LeaseMismatch), ms)
           | Some lease \<Rightarrow>
               if le_token lease \<noteq> token then (Ok (QR_ack LeaseMismatch), ms)
               else if le_expires_at_millis lease \<le> now then (Ok (QR_ack LeaseExpired), ms)
               else (Ok (QR_ack Acknowledged), filter (\<lambda>m. msg_id m \<noteq> i) ms)))"
| "message_exec QOp_len ms = (Ok (QR_len (length ms)), ms)"
| "message_exec QOp_is_empty ms = (Ok (QR_empty (ms = [])), ms)"

fun message_run ::
  "'v queue_op list \<Rightarrow> 'v Message list \<Rightarrow> (('j, 'e) QueueError + 'v queue_reply) list \<times> 'v Message list" where
  "message_run [] ms = ([], ms)"
| "message_run (x # xs) ms =
     (let (r, ms') = message_exec x ms; (rs, ms'') = message_run xs ms' in (r # rs, ms''))"

text \<open>The identifiers a sequence of operations draws, and that they are fresh.\<close>

fun published :: "'v queue_op list \<Rightarrow> MessageId list" where
  "published [] = []"
| "published (QOp_publish u _ # xs) = MessageId u # published xs"
| "published (_ # xs) = published xs"

definition fresh_messages :: "'v queue_op list \<Rightarrow> 'v Message list \<Rightarrow> bool" where
  "fresh_messages xs ms \<longleftrightarrow> distinct (published xs) \<and> set (published xs) \<inter> msg_id ` set ms = {}"

section \<open>One operation\<close>

lemma find_SomeD: "find p xs = Some x \<Longrightarrow> x \<in> set xs \<and> p x"
  by (induction xs) (auto split: if_splits)

lemmas message_splits = option.splits sum.splits if_splits

lemma ids_lease_message [simp]: "map msg_id (lease_message i a t e ms) = map msg_id ms"
  by (simp add: lease_message_def)

lemma ids_set_lease_message [simp]: "msg_id ` set (lease_message i a t e ms) = msg_id ` set ms"
  by (metis ids_lease_message image_set)

lemma keys_increasing_insort:
  "keys_increasing key xs \<Longrightarrow> keys_increasing key (insort_key key y xs) \<longleftrightarrow> key y \<notin> key ` set xs"
  using sorted_insert_increasing [of key xs y] by (simp add: sorted_insert_insort)

lemma message_exec_increasing:
  assumes "keys_increasing msg_id ms" "fresh_messages [x] ms"
  shows "keys_increasing msg_id (snd (message_exec x ms))"
  using assms
  by (cases x) (auto simp: fresh_messages_def keys_increasing_insort keys_increasing_filter
      split: message_splits)

lemma fresh_messages_Cons:
  assumes "fresh_messages (x # xs) ms"
  shows "fresh_messages [x] ms"
    and "fresh_messages xs (snd (message_exec x ms :: (('j, 'e) QueueError + 'v queue_reply) \<times> _))"
proof -
  show "fresh_messages [x] ms" using assms by (cases x) (auto simp: fresh_messages_def)
  show "fresh_messages xs (snd (message_exec x ms :: (('j, 'e) QueueError + 'v queue_reply) \<times> _))"
    using assms by (cases x) (auto simp: fresh_messages_def set_insort_key split: message_splits)
qed

text \<open>
  Facts on the message with one identifier, as predicates on the list: the lease it is under,
  the token that does not hold it, and its payload.
\<close>

definition under_lease :: "MessageId \<Rightarrow> LeaseToken \<Rightarrow> u64 \<Rightarrow> 'v Message list \<Rightarrow> bool" where
  "under_lease i token deadline ms \<longleftrightarrow>
     (\<forall>m\<in>set ms. msg_id m = i \<longrightarrow>
        msg_lease m = Some \<lparr>le_token = token, le_expires_at_millis = deadline\<rparr>)"

definition not_held_by :: "MessageId \<Rightarrow> LeaseToken \<Rightarrow> 'v Message list \<Rightarrow> bool" where
  "not_held_by i token ms \<longleftrightarrow>
     (\<forall>m\<in>set ms. msg_id m = i \<longrightarrow> (\<forall>lease. msg_lease m = Some lease \<longrightarrow> le_token lease \<noteq> token))"

definition holds_value :: "MessageId \<Rightarrow> 'v \<Rightarrow> 'v Message list \<Rightarrow> bool" where
  "holds_value i v ms \<longleftrightarrow> (\<exists>m\<in>set ms. msg_id m = i \<and> msg_value m = v)"

lemma under_lease_lease_message:
  "under_lease i token deadline ms \<Longrightarrow> j \<noteq> i \<Longrightarrow> under_lease i token deadline (lease_message j a t e ms)"
  by (auto simp: under_lease_def lease_message_def)

lemma not_held_by_lease_message:
  "not_held_by i token ms \<Longrightarrow> t \<noteq> token \<Longrightarrow> not_held_by i token (lease_message j a t e ms)"
  by (auto simp: not_held_by_def lease_message_def)

lemma holds_value_lease_message [simp]:
  "holds_value i v (lease_message j a t e ms) = holds_value i v ms"
  by (induction ms) (auto simp: holds_value_def lease_message_def)

text \<open>The operation claims only before a deadline; the operation draws no such token.\<close>

fun claims_before :: "u64 \<Rightarrow> 'v queue_op \<Rightarrow> bool" where
  "claims_before deadline (QOp_claim now _ _) \<longleftrightarrow> now < deadline"
| "claims_before deadline _ \<longleftrightarrow> True"

fun draws_token :: "LeaseToken \<Rightarrow> 'v queue_op \<Rightarrow> bool" where
  "draws_token token (QOp_claim _ u _) \<longleftrightarrow> LeaseToken u = token"
| "draws_token token _ \<longleftrightarrow> False"

fun acknowledges :: "MessageId \<Rightarrow> 'v queue_op \<Rightarrow> 'x + 'v queue_reply \<Rightarrow> bool" where
  "acknowledges i (QOp_ack _ j _) (Inr (QR_ack Acknowledged)) \<longleftrightarrow> i = j"
| "acknowledges i _ _ \<longleftrightarrow> False"

fun claims_message :: "MessageId \<Rightarrow> 'x + 'v queue_reply \<Rightarrow> bool" where
  "claims_message i (Inr (QR_claimed (Some cl))) \<longleftrightarrow> cl_id cl = i"
| "claims_message i _ \<longleftrightarrow> False"

lemma under_lease_step:
  assumes "under_lease i token deadline ms" "claims_before deadline x" "i \<notin> set (published [x])"
    and "message_exec x ms = (r, ms')"
  shows "under_lease i token deadline ms' \<and> \<not> claims_message i r"
proof (cases x)
  case (QOp_claim now u dur)
  show ?thesis
  proof (cases "find (available now) ms")
    case (Some m)
    then have "m \<in> set ms" "available now m" by (auto dest: find_SomeD)
    then have "msg_id m \<noteq> i"
      using assms(1,2) QOp_claim by (auto simp: under_lease_def available_def)
    with Some assms QOp_claim show ?thesis
      by (auto simp: claim_of_def under_lease_lease_message split: message_splits)
  qed (use assms QOp_claim in \<open>auto split: message_splits\<close>)
qed (use assms in \<open>auto simp: under_lease_def set_insort_key split: message_splits\<close>)

lemma not_held_by_step:
  assumes "not_held_by i token ms" "\<not> draws_token token x" "i \<notin> set (published [x])"
    and "message_exec x ms = (r, ms')"
  shows "not_held_by i token ms' \<and>
    (\<forall>now. x = QOp_ack now i token \<longrightarrow> r = Ok (QR_ack Ack_NotFound) \<or> r = Ok (QR_ack LeaseMismatch))"
proof (cases x)
  case (QOp_claim now u dur)
  then show ?thesis
    using assms by (auto simp: not_held_by_lease_message split: message_splits)
next
  case (QOp_ack now j token')
  then show ?thesis
    using assms by (auto simp: not_held_by_def split: message_splits dest!: find_SomeD)
qed (use assms in \<open>auto simp: not_held_by_def set_insort_key\<close>)

lemma holds_value_step:
  assumes "holds_value i v ms" "message_exec x ms = (r, ms')"
  shows "if acknowledges i x r then i \<notin> msg_id ` set ms' else holds_value i v ms'"
proof (cases x)
  case (QOp_claim now u dur)
  then show ?thesis
    using assms by (auto split: message_splits)
qed (use assms in \<open>auto simp: holds_value_def set_insort_key split: message_splits\<close>)

lemma absent_step:
  assumes "i \<notin> msg_id ` set ms" "i \<notin> set (published [x])" "message_exec x ms = (r, ms')"
  shows "i \<notin> msg_id ` set ms' \<and> \<not> claims_message i r \<and> \<not> acknowledges i x r"
proof (cases x)
  case (QOp_claim now u dur)
  then show ?thesis
    using assms
    by (auto simp: claim_of_def split: message_splits dest!: find_SomeD)
      (metis ids_set_lease_message image_eqI)
qed (use assms in \<open>auto simp: set_insort_key split: message_splits dest!: find_SomeD\<close>)

section \<open>Sequences of operations\<close>

lemma not_published_Cons:
  assumes "i \<notin> set (published (x # xs))"
  shows "i \<notin> set (published [x])" "i \<notin> set (published xs)"
  using assms by (cases x; auto)+

lemma message_run_ConsE:
  assumes "message_run (x # xs) ms = (rs, ms')"
  obtains r ms1 rs1 where "message_exec x ms = (r, ms1)" "message_run xs ms1 = (rs1, ms')" "rs = r # rs1"
  using assms by (auto simp: Let_def split: prod.splits)

lemma message_run_increasing:
  assumes "keys_increasing msg_id ms" "fresh_messages xs ms" "message_run xs ms = (rs, ms')"
  shows "keys_increasing msg_id ms'"
  using assms
proof (induction xs arbitrary: ms rs)
  case (Cons x xs)
  from Cons.prems(3) obtain r ms1 rs1 where
    run: "message_exec x ms = (r, ms1)" "message_run xs ms1 = (rs1, ms')" "rs = r # rs1"
    by (rule message_run_ConsE)
  note fresh = fresh_messages_Cons [OF Cons.prems(2)]
  have "keys_increasing msg_id ms1"
    using message_exec_increasing [OF Cons.prems(1) fresh(1)] run(1) by (metis snd_conv)
  with Cons.IH fresh(2) run show ?case by (metis snd_conv)
qed simp

lemma length_message_run: "message_run xs ms = (rs, ms') \<Longrightarrow> length rs = length xs"
  by (induction xs arbitrary: ms rs) (auto simp: Let_def split: prod.splits)

lemma under_lease_run:
  assumes "under_lease i token deadline ms" "\<forall>x\<in>set xs. claims_before deadline x"
    and "i \<notin> set (published xs)" "message_run xs ms = (rs, ms')"
  shows "under_lease i token deadline ms' \<and> (\<forall>r\<in>set rs. \<not> claims_message i r)"
  using assms
proof (induction xs arbitrary: ms rs)
  case (Cons x xs)
  from Cons.prems(4) obtain r ms1 rs1 where run: "message_exec x ms = (r, ms1)"
    "message_run xs ms1 = (rs1, ms')" "rs = r # rs1" by (rule message_run_ConsE)
  note pub = not_published_Cons [OF Cons.prems(3)]
  have "under_lease i token deadline ms1 \<and> \<not> claims_message i r"
    using under_lease_step [OF Cons.prems(1) _ pub(1) run(1)] Cons.prems(2) by simp
  with Cons.IH [OF _ _ pub(2) run(2)] Cons.prems(2) run(3) show ?case by simp
qed simp

lemma not_held_by_run:
  assumes "not_held_by i token ms" "\<forall>x\<in>set xs. \<not> draws_token token x"
    and "i \<notin> set (published xs)" "message_run xs ms = (rs, ms')"
  shows "not_held_by i token ms' \<and>
    list_all2 (\<lambda>x r. \<forall>now. x = QOp_ack now i token \<longrightarrow>
      r = Ok (QR_ack Ack_NotFound) \<or> r = Ok (QR_ack LeaseMismatch)) xs rs"
  using assms
proof (induction xs arbitrary: ms rs)
  case (Cons x xs)
  from Cons.prems(4) obtain r ms1 rs1 where run: "message_exec x ms = (r, ms1)"
    "message_run xs ms1 = (rs1, ms')" "rs = r # rs1" by (rule message_run_ConsE)
  note pub = not_published_Cons [OF Cons.prems(3)]
  note step = not_held_by_step [OF Cons.prems(1) _ pub(1) run(1)]
  show ?case
    using Cons.IH [OF step [THEN conjunct1] _ pub(2) run(2)] step Cons.prems(2) run(3) by simp
qed simp

lemma absent_run:
  assumes "i \<notin> msg_id ` set ms" "i \<notin> set (published xs)" "message_run xs ms = (rs, ms')"
  shows "i \<notin> msg_id ` set ms' \<and> (\<forall>r\<in>set rs. \<not> claims_message i r) \<and>
    \<not> list_ex (\<lambda>(x, r). acknowledges i x r) (zip xs rs)"
  using assms
proof (induction xs arbitrary: ms rs)
  case (Cons x xs)
  from Cons.prems(3) obtain r ms1 rs1 where run: "message_exec x ms = (r, ms1)"
    "message_run xs ms1 = (rs1, ms')" "rs = r # rs1" by (rule message_run_ConsE)
  note pub = not_published_Cons [OF Cons.prems(2)]
  note step = absent_step [OF Cons.prems(1) pub(1) run(1)]
  show ?case
    using Cons.IH [OF step [THEN conjunct1] pub(2) run(2)] step run(3) by simp
qed simp

text \<open>A message leaves the queue exactly by an acknowledgement, and then for good.\<close>

lemma holds_value_run:
  assumes "holds_value i v ms" "i \<notin> set (published xs)" "message_run xs ms = (rs, ms')"
  shows "if list_ex (\<lambda>(x, r). acknowledges i x r) (zip xs rs) then i \<notin> msg_id ` set ms'
    else holds_value i v ms'"
  using assms
proof (induction xs arbitrary: ms rs)
  case (Cons x xs)
  from Cons.prems(3) obtain r ms1 rs1 where run: "message_exec x ms = (r, ms1)"
    "message_run xs ms1 = (rs1, ms')" "rs = r # rs1" by (rule message_run_ConsE)
  note pub = not_published_Cons [OF Cons.prems(2)]
  show ?case
  proof (cases "acknowledges i x r")
    case True
    then have "i \<notin> msg_id ` set ms1" using holds_value_step [OF Cons.prems(1) run(1)] by simp
    with absent_run [OF _ pub(2) run(2)] True run(3) show ?thesis by simp
  next
    case False
    then have "holds_value i v ms1" using holds_value_step [OF Cons.prems(1) run(1)] by simp
    with Cons.IH [OF _ pub(2) run(2)] False run(3) show ?thesis by simp
  qed
qed simp

section \<open>Attempts\<close>

definition has_attempts :: "MessageId \<Rightarrow> nat \<Rightarrow> 'v Message list \<Rightarrow> bool" where
  "has_attempts i n ms \<longleftrightarrow> (\<forall>m\<in>set ms. msg_id m = i \<longrightarrow> unat (msg_attempts m) = n)"

text \<open>The attempt numbers of the claims on one message, in order.\<close>

fun claim_attempts :: "MessageId \<Rightarrow> ('x + 'v queue_reply) list \<Rightarrow> u32 list" where
  "claim_attempts i [] = []"
| "claim_attempts i (Inr (QR_claimed (Some cl)) # rs) =
     (if cl_id cl = i then cl_attempt cl # claim_attempts i rs else claim_attempts i rs)"
| "claim_attempts i (_ # rs) = claim_attempts i rs"

lemma has_attempts_lease_message:
  "has_attempts i (unat a) (lease_message i a t e ms)"
  "has_attempts i n ms \<Longrightarrow> j \<noteq> i \<Longrightarrow> has_attempts i n (lease_message j a t e ms)"
  by (induction ms) (simp_all add: has_attempts_def lease_message_def)

lemma has_attempts_step:
  assumes "has_attempts i n ms" "i \<notin> set (published [x])" "message_exec x ms = (r, ms')"
  shows "if claims_message i r
    then has_attempts i (Suc n) ms' \<and> (\<exists>a. unat a = Suc n \<and> claim_attempts i [r] = [a])
    else has_attempts i n ms' \<and> claim_attempts i [r] = []"
proof (cases x)
  case (QOp_claim now u dur)
  show ?thesis
  proof (cases "find (available now) ms")
    case (Some m)
    then have "m \<in> set ms" by (auto dest: find_SomeD)
    then have n: "msg_id m = i \<Longrightarrow> unat (msg_attempts m) = n"
      using assms(1) by (simp add: has_attempts_def)
    show ?thesis
    proof (cases "checked_add (msg_attempts m) 1")
      case None
      with Some assms QOp_claim show ?thesis by (auto split: sum.splits)
    next
      case add: (Some a)
      then have "unat a = Suc (unat (msg_attempts m))" using unat_checked_add [OF add] by simp
      with Some add n assms QOp_claim show ?thesis
        using has_attempts_lease_message(1) [of i a] has_attempts_lease_message(2) [OF assms(1)]
        by (auto simp: claim_of_def split: sum.splits)
    qed
  qed (use assms QOp_claim in \<open>auto split: message_splits\<close>)
qed (use assms in \<open>auto simp: has_attempts_def set_insort_key split: message_splits\<close>)

lemma claim_attempts_Cons: "claim_attempts i (r # rs) = claim_attempts i [r] @ claim_attempts i rs"
  by (cases "(i, r # rs)" rule: claim_attempts.cases) auto

lemma has_attempts_run:
  assumes "has_attempts i n ms" "i \<notin> set (published xs)" "message_run xs ms = (rs, ms')"
  shows "map unat (claim_attempts i rs) = [Suc n ..< Suc (n + length (claim_attempts i rs))] \<and>
    has_attempts i (n + length (claim_attempts i rs)) ms'"
  using assms
proof (induction xs arbitrary: ms rs n)
  case (Cons x xs)
  from Cons.prems(3) obtain r ms1 rs1 where run: "message_exec x ms = (r, ms1)"
    "message_run xs ms1 = (rs1, ms')" "rs = r # rs1" by (rule message_run_ConsE)
  note pub = not_published_Cons [OF Cons.prems(2)]
  note step = has_attempts_step [OF Cons.prems(1) pub(1) run(1)]
  show ?case
  proof (cases "claims_message i r")
    case True
    then obtain a where "unat a = Suc n" "claim_attempts i [r] = [a]" "has_attempts i (Suc n) ms1"
      using step by auto
    then show ?thesis
      using Cons.IH [OF _ pub(2) run(2), of "Suc n"] run(3)
      by (simp add: claim_attempts_Cons [of i r rs1] upt_conv_Cons del: upt_Suc)
  next
    case False
    then show ?thesis
      using step Cons.IH [OF _ pub(2) run(2), of n] run(3)
      by (simp add: claim_attempts_Cons [of i r rs1])
  qed
qed simp

section \<open>Delivery order\<close>

lemma find_available_append:
  "\<forall>m\<in>set xs. \<not> available now m \<Longrightarrow> available now m \<Longrightarrow> find (available now) (xs @ m # ys) = Some m"
  by (induction xs) auto

lemma lease_message_append:
  fixes xs ys :: "'v Message list"
  assumes "distinct (map msg_id (xs @ m # ys))"
  shows "lease_message (msg_id m) a t e (xs @ m # ys) = (xs @ [leased a t e m]) @ ys"
proof -
  have "map (\<lambda>x. if msg_id x = msg_id m then leased a t e x else x) zs = zs"
    if "msg_id m \<notin> msg_id ` set zs" for zs :: "'v Message list"
    using that by (intro map_idI) (metis imageI)
  with assms show ?thesis by (simp add: lease_message_def)
qed

lemma claims_deliver_in_order:
  assumes "(lease_deadline now dur :: ('j, 'e) QueueError + u64) = Ok deadline" "now < deadline"
    and "distinct (map msg_id (taken @ waiting))" "\<forall>m\<in>set taken. \<not> available now m"
    and "\<forall>m\<in>set waiting. available now m \<and> unat (msg_attempts m) + 1 < 2 ^ 32"
    and "length us = length waiting"
  shows "\<exists>ms'. message_run (map (\<lambda>u. QOp_claim now u dur) us) (taken @ waiting) =
    (map2 (\<lambda>u m. Ok (QR_claimed (Some (claim_of (msg_attempts m + 1) (LeaseToken u) deadline m)))
        :: ('j, 'e) QueueError + 'v queue_reply) us waiting, ms') \<and>
    (\<forall>m\<in>set ms'. \<not> available now m) \<and> map msg_id ms' = map msg_id (taken @ waiting)"
  using assms(3-)
proof (induction us arbitrary: taken waiting)
  case (Cons u us)
  obtain m rest where w: "waiting = m # rest" using Cons.prems(4) by (cases waiting) auto
  let ?m = "leased (msg_attempts m + 1) (LeaseToken u) deadline m"
  have add: "checked_add (msg_attempts m) 1 = Some (msg_attempts m + 1)"
    using Cons.prems(3) w by (simp add: checked_add_def)
  have exec: "message_exec (QOp_claim now u dur) (taken @ waiting) =
      (Ok (QR_claimed (Some (claim_of (msg_attempts m + 1) (LeaseToken u) deadline m)))
        :: ('j, 'e) QueueError + 'v queue_reply, (taken @ [?m]) @ rest)"
    using assms(1) add Cons.prems(1-3) w
    by (simp add: find_available_append lease_message_append del: append_assoc)
  have "\<not> available now ?m" using assms(2) by (simp add: available_def)
  then have "\<exists>ms'. message_run (map (\<lambda>u. QOp_claim now u dur) us) ((taken @ [?m]) @ rest) =
    (map2 (\<lambda>u m. Ok (QR_claimed (Some (claim_of (msg_attempts m + 1) (LeaseToken u) deadline m)))
        :: ('j, 'e) QueueError + 'v queue_reply) us rest, ms') \<and>
    (\<forall>m\<in>set ms'. \<not> available now m) \<and> map msg_id ms' = map msg_id ((taken @ [?m]) @ rest)"
    using Cons.prems w by (intro Cons.IH) auto
  with exec w show ?case by (auto simp del: append_assoc message_exec.simps)
qed simp

end
