(* ===== verification/Queue_Refinement.thy ===== *)
theory Queue_Refinement
  imports Queue_Model
begin

text \<open>
  The queue over the in-memory store refines the message list of \<open>Queue_Model\<close>, operation by
  operation and for every sequence of operations; and a concrete queue for the examples.
\<close>

section \<open>Abstraction\<close>

definition queue_serde_ok :: "('v, 'j) queue_serde \<Rightarrow> bool" where
  "queue_serde_ok C \<longleftrightarrow> (\<forall>d. \<exists>b. qs_to_vec C d = Ok b \<and> qs_from_slice C b = Ok d)"

definition stored_queue ::
  "('v, 'j) queue_serde \<Rightarrow> string \<Rightarrow> Location \<Rightarrow> State \<Rightarrow> 'v Message list option" where
  "stored_queue C sch l st =
     (case fmlookup (st_objects st) l of
        None \<Rightarrow> None
      | Some obj \<Rightarrow>
          (case qs_from_slice C (obj_bytes obj) of
             Inl _ \<Rightarrow> None
           | Inr d \<Rightarrow> if queue_valid sch d then Some (qd_messages d) else None))"

text \<open>One operation on the stored queue; the clock reading and the UUID drawn are those of the
  operation.\<close>

fun queue_exec ::
  "('v, 'j) queue_serde \<Rightarrow> ('s, 'e, 'c) Queue \<Rightarrow> 'v queue_op
   \<Rightarrow> ('s, ('j, 'e) QueueError, 'v queue_reply) comp" where
  "queue_exec C q (QOp_publish u v) = and_then (queue_publish C q u v) (\<lambda>i. ok (QR_published i))"
| "queue_exec C q (QOp_claim now u dur) =
     and_then (queue_claim C q (\<lambda>_. now) u dur) (\<lambda>cl. ok (QR_claimed cl))"
| "queue_exec C q (QOp_ack now i token) = and_then (queue_ack C q (\<lambda>_. now) i token) (\<lambda>a. ok (QR_ack a))"
| "queue_exec C q QOp_len = and_then (queue_len C q) (\<lambda>n. ok (QR_len n))"
| "queue_exec C q QOp_is_empty = and_then (queue_is_empty C q) (\<lambda>b. ok (QR_empty b))"

text \<open>A caller goes on after an error.\<close>

fun queue_run ::
  "('v, 'j) queue_serde \<Rightarrow> ('s, 'e, 'c) Queue \<Rightarrow> 'v queue_op list \<Rightarrow> 's
   \<Rightarrow> (('j, 'e) QueueError + 'v queue_reply) list \<times> 's" where
  "queue_run C q [] s = ([], s)"
| "queue_run C q (x # xs) s =
     (let (r, s') = queue_exec C q x s; (rs, s'') = queue_run C q xs s' in (r # rs, s''))"

section \<open>The library's lemmas at this instance\<close>

abbreviation queue_doc :: "('v, 'j) queue_serde \<Rightarrow> string \<Rightarrow> Location \<Rightarrow> State \<Rightarrow> 'v Document option" where
  "queue_doc C sch l st \<equiv>
     stored_doc (queue_decode C sch :: bytes \<Rightarrow> ('j, Infallible) QueueError + 'v Document)
       (memory_view st l)"

lemma stored_queue_eq_Some:
  "stored_queue C sch l st = Some ms \<longleftrightarrow> (\<exists>d. queue_doc C sch l st = Some d \<and> ms = qd_messages d)"
  by (auto simp: stored_queue_def stored_doc_eq_Some memory_view_def queue_decode_eq_Ok
      split: sum.splits option.splits if_splits)

lemma stored_queueI: "queue_doc C sch l st = Some d \<Longrightarrow> stored_queue C sch l st = Some (qd_messages d)"
  by (auto simp: stored_queue_eq_Some)

lemma queue_doc_valid: "queue_doc C sch l st = Some d \<Longrightarrow> queue_valid sch d"
  by (auto simp: stored_doc_eq_Some queue_decode_eq_Ok)

lemma stored_queue_increasing: "stored_queue C sch l st = Some ms \<Longrightarrow> keys_increasing msg_id ms"
  by (auto simp: stored_queue_eq_Some queue_valid_def dest: queue_doc_valid)

lemma queue_serde_roundtrips:
  "queue_serde_ok C \<Longrightarrow> roundtrips (queue_valid sch) (queue_encode C) (queue_decode C sch)"
  by (auto simp: roundtrips_def queue_serde_ok_def queue_encode_def queue_decode_eq_Ok)
    (metis sum.inject(2))

lemma queue_serde_encodes: "queue_serde_ok C \<Longrightarrow> \<exists>b. queue_encode C d = Ok b"
  by (auto simp: queue_serde_ok_def queue_encode_def)

abbreviation queue_transact ::
  "('v, 'j) queue_serde \<Rightarrow> (State, Infallible, 'c) Queue
   \<Rightarrow> ('v Document \<Rightarrow> (('j, Infallible) QueueError, 'a, 'v Document) outcome)
   \<Rightarrow> (State, ('j, Infallible) QueueError, 'a) comp" where
  "queue_transact C q f \<equiv> transact (queue_read C q) (queue_swap C q) f"

lemma queue_reply:
  assumes "queue_doc C sch l st = Some d" "f d = Reply y"
  shows "\<exists>st'. queue_transact C (memory_queue l sch c) f st = (Ok y, st') \<and>
    stored_queue C sch l st' = Some (qd_messages d)"
  by (rule queuem.transact_Reply [where f = f, OF TrueI assms])
    (use assms(1) in \<open>auto simp: stored_queue_eq_Some\<close>)

lemma queue_reject:
  assumes "queue_doc C sch l st = Some d" "f d = Reject x"
  shows "\<exists>st'. queue_transact C (memory_queue l sch c) f st = (Err x, st') \<and>
    stored_queue C sch l st' = Some (qd_messages d)"
proof -
  obtain obj :: Object and t where
    "queue_read C (memory_queue l sch c) st = (Ok (obj_version obj, d), t)" "memory_view t = memory_view st"
    by (rule queuem.read_contents [OF TrueI assms(1)])
  with assms show ?thesis
    by (intro exI [of _ t]) (auto simp: transact_def and_then_def stored_queue_eq_Some)
qed

lemma queue_commit:
  fixes C :: "('v, 'j) queue_serde"
  assumes "queue_serde_ok C" "queue_doc C sch l st = Some d" "f d = Commit d' k" "queue_valid sch d'"
  shows "\<exists>v st'. queue_transact C (memory_queue l sch c) f st = (Ok (k v), st') \<and>
    stored_queue C sch l st' = Some (qd_messages d')"
proof -
  obtain b where b: "(queue_encode C d' :: ('j, Infallible) QueueError + bytes) = Ok b"
    using queue_serde_encodes [OF assms(1)] by blast
  show ?thesis
    by (rule queuem.transact_Commit_contents
          [where f = f, OF queue_serde_roundtrips [OF assms(1)] TrueI assms(2-4) b])
      (auto dest: stored_queueI)
qed

section \<open>Each operation\<close>

text \<open>Operation \<open>x\<close> on the queue does what it does on the message list.\<close>

definition simulates ::
  "('v, 'j) queue_serde \<Rightarrow> string \<Rightarrow> Location \<Rightarrow> (State, Infallible, 'c) Queue \<Rightarrow> 'v queue_op
   \<Rightarrow> State \<Rightarrow> 'v Message list \<Rightarrow> bool" where
  "simulates C sch l q x st ms \<longleftrightarrow>
     (\<exists>r ms' st'. message_exec x ms = (r, ms') \<and> queue_exec C q x st = (r, st') \<and>
        stored_queue C sch l st' = Some ms')"

lemma simulates_publish:
  assumes C: "queue_serde_ok C" and d: "queue_doc C sch l st = Some d"
    and fresh: "MessageId u \<notin> msg_id ` set (qd_messages d)"
  shows "simulates C sch l (memory_queue l sch c) (QOp_publish u v) st (qd_messages d)"
proof -
  let ?d = "with_messages (sorted_insert msg_id (new_message (MessageId u) v)) d"
  have step: "queue_publish_step (MessageId u) v d = Commit ?d (\<lambda>_. MessageId u)"
    by (simp add: queue_publish_step_def)
  have "queue_valid sch ?d" by (rule queue_publish_step_valid [OF queue_doc_valid [OF d] fresh step])
  from queue_commit [OF C d, of "queue_publish_step (MessageId u) v", OF step this, of c]
  show ?thesis
    by (auto simp: simulates_def queue_publish_transact and_then_Ok sorted_insert_insort)
qed

lemma lease_at_position:
  assumes "keys_increasing msg_id ms" "position p ms = Some k"
  shows "ms[k := leased a t e (ms ! k)] = lease_message (msg_id (ms ! k)) a t e ms"
  using keys_increasing_list_update [OF assms(1), of k "leased a t e"] assms(2)
  by (simp add: lease_message_def position_eq_Some)

lemma simulates_claim:
  fixes C :: "('v, 'j) queue_serde"
  assumes C: "queue_serde_ok C" and d: "queue_doc C sch l st = Some d"
  shows "simulates C sch l (memory_queue l sch c) (QOp_claim now u dur) st (qd_messages d)"
proof (cases "lease_deadline now dur :: ('j, Infallible) QueueError + u64")
  case (Inl e)
  then show ?thesis
    using stored_queueI [OF d] by (simp add: simulates_def queue_claim_transact and_then_def)
next
  case (Inr deadline)
  let ?f = "queue_claim_step now deadline (LeaseToken u)
    :: 'v Document \<Rightarrow> (('j, Infallible) QueueError, _, _) outcome"
  let ?ms = "qd_messages d"
  have claim: "queue_claim C (memory_queue l sch c) (\<lambda>_. now) u dur = queue_transact C (memory_queue l sch c) ?f"
    by (simp add: queue_claim_transact Inr)
  note inc = queue_doc_valid [OF d, unfolded queue_valid_def]
  show ?thesis
  proof (cases "position (available now) ?ms")
    case None
    then have "?f d = Reply None" by (simp add: queue_claim_step_def)
    from queue_reply [OF d, of ?f, OF this, of c] None Inr show ?thesis
      by (auto simp: simulates_def claim and_then_Ok find_position)
  next
    case (Some k)
    show ?thesis
    proof (cases "checked_add (msg_attempts (?ms ! k)) 1")
      case None
      then have "?f d = Reject Q_AttemptOverflow" using Some by (simp add: queue_claim_step_def)
      from queue_reject [OF d, of ?f, OF this, of c] None Some Inr show ?thesis
        by (auto simp: simulates_def claim and_then_Err find_position)
    next
      case add: (Some a)
      let ?d = "with_messages (\<lambda>ms. ms[k := leased a (LeaseToken u) deadline (?ms ! k)]) d"
      have step: "?f d = Commit ?d (\<lambda>_. Some (claim_of a (LeaseToken u) deadline (?ms ! k)))"
        using Some add by (simp add: queue_claim_step_def Let_def)
      have "queue_valid sch ?d" by (rule queue_claim_step_valid [OF queue_doc_valid [OF d] step])
      from queue_commit [OF C d, of ?f, OF step this, of c] Some add Inr inc show ?thesis
        by (auto simp: simulates_def claim and_then_Ok find_position lease_at_position)
    qed
  qed
qed

lemma simulates_ack:
  fixes C :: "('v, 'j) queue_serde"
  assumes C: "queue_serde_ok C" and d: "queue_doc C sch l st = Some d"
  shows "simulates C sch l (memory_queue l sch c) (QOp_ack now i token) st (qd_messages d)"
proof (cases "queue_ack_step now i token d :: (('j, Infallible) QueueError, _, _) outcome")
  case (Reject x)
  then show ?thesis by (auto simp: queue_ack_step_def split: option.splits if_splits)
next
  case (Reply y)
  from queue_reply [OF d, of "queue_ack_step now i token", OF Reply, of c] Reply show ?thesis
    by (auto simp: simulates_def queue_ack_transact and_then_Ok queue_ack_step_def
        split: option.splits if_splits)
next
  case (Commit d' k)
  from queue_commit [OF C d, of "queue_ack_step now i token", OF Commit
      queue_ack_step_valid [OF queue_doc_valid [OF d] Commit], of c] Commit show ?thesis
    by (auto simp: simulates_def queue_ack_transact and_then_Ok queue_ack_step_def
        split: option.splits if_splits)
qed

lemma simulates_len:
  assumes d: "queue_doc C sch l st = Some d"
  shows "simulates C sch l (memory_queue l sch c) QOp_len st (qd_messages d)"
    "simulates C sch l (memory_queue l sch c) QOp_is_empty st (qd_messages d)"
  using queue_reply [OF d, of queue_len_step "length (qd_messages d)" c]
  by (auto simp: simulates_def queue_len_transact queue_is_empty_def and_then_Ok queue_len_step_def
      and_then_assoc)

lemma queue_exec_simulates:
  assumes "queue_serde_ok C" "stored_queue C sch l st = Some ms" "fresh_messages [x] ms"
  shows "simulates C sch l (memory_queue l sch c) x st ms"
proof -
  obtain d where d: "queue_doc C sch l st = Some d" and ms: "ms = qd_messages d"
    using assms(2) by (auto simp: stored_queue_eq_Some)
  show ?thesis unfolding ms
  proof (cases x)
    case (QOp_publish u v)
    with assms(3) show "simulates C sch l (memory_queue l sch c) x st (qd_messages d)"
      using simulates_publish [OF assms(1) d] by (simp add: fresh_messages_def ms)
  qed (use simulates_claim [OF assms(1) d] simulates_ack [OF assms(1) d] simulates_len [OF d] in simp_all)
qed

lemma queue_run_refines:
  assumes "queue_serde_ok C" "stored_queue C sch l st = Some ms" "fresh_messages xs ms"
  shows "\<exists>rs ms' st'. message_run xs ms = (rs, ms') \<and>
    queue_run C (memory_queue l sch c) xs st = (rs, st') \<and> stored_queue C sch l st' = Some ms'"
  using assms(2,3)
proof (induction xs arbitrary: st ms)
  case Nil
  then show ?case by simp
next
  case (Cons x xs)
  obtain r ms1 st1 where 1: "message_exec x ms = (r, ms1)"
      "queue_exec C (memory_queue l sch c) x st = (r, st1)" "stored_queue C sch l st1 = Some ms1"
    using queue_exec_simulates [OF assms(1) Cons.prems(1) fresh_messages_Cons(1) [OF Cons.prems(2)], of c]
    unfolding simulates_def by (elim exE conjE)
  have "fresh_messages xs ms1" using fresh_messages_Cons(2) [OF Cons.prems(2)] 1(1) by (metis snd_conv)
  from Cons.IH [OF 1(3) this] obtain rs ms2 st2 where "message_run xs ms1 = (rs, ms2)"
      "queue_run C (memory_queue l sch c) xs st1 = (rs, st2)" "stored_queue C sch l st2 = Some ms2"
    by (elim exE conjE)
  with 1 show ?case by simp
qed

end
