(* ===== verification/Queue_Properties.thy ===== *)
theory Queue_Properties
  imports Queue_Refinement
begin

text \<open>
  The guarantees of the queue over the in-memory store, for every sequence of operations by any
  number of callers, whatever their clocks read: delivery in identifier order, one lease at a
  time, stale tokens refused, no message lost before its acknowledgement, attempt numbers that
  count, and what every branch of \<open>claim\<close> and \<open>ack\<close> answers.
\<close>

section \<open>A concrete queue\<close>

fun put_messages :: "string Message list \<Rightarrow> string list" where
  "put_messages [] = []"
| "put_messages (m # ms) =
     show_word (message_uuid (msg_id m)) # msg_value m # show_word (msg_attempts m) #
     (case msg_lease m of
        None \<Rightarrow> ''none'' # put_messages ms
      | Some le \<Rightarrow> ''lease'' # show_word (token_uuid (le_token le)) #
          show_word (le_expires_at_millis le) # put_messages ms)"

fun get_messages :: "string list \<Rightarrow> string Message list option" where
  "get_messages [] = Some []"
| "get_messages (i # v # a # f # rest) =
     (if f = ''none''
      then map_option (Cons \<lparr>msg_id = MessageId (of_nat (read_nat i)), msg_value = v,
             msg_attempts = of_nat (read_nat a), msg_lease = None\<rparr>) (get_messages rest)
      else (case rest of
              t # e # rest' \<Rightarrow>
                map_option (Cons \<lparr>msg_id = MessageId (of_nat (read_nat i)), msg_value = v,
                  msg_attempts = of_nat (read_nat a),
                  msg_lease = Some \<lparr>le_token = LeaseToken (of_nat (read_nat t)),
                    le_expires_at_millis = of_nat (read_nat e)\<rparr>\<rparr>) (get_messages rest')
            | _ \<Rightarrow> None))"
| "get_messages _ = None"

lemma get_put_messages [simp]: "get_messages (put_messages ms) = Some ms"
  by (induction ms) (auto split: option.splits)

definition sample_queue_serde :: "(string, unit) queue_serde" where
  "sample_queue_serde =
     \<lparr>qs_to_vec = (\<lambda>d. Ok (put_fields (show_word (qd_format_version d) # qd_kind d # qd_schema d
        # put_messages (qd_messages d)))),
      qs_from_slice = (\<lambda>b.
        case get_fields [] b of
          Some (fv # k # sch # rest) \<Rightarrow>
            (case get_messages rest of
               Some ms \<Rightarrow> Ok \<lparr>qd_format_version = of_nat (read_nat fv), qd_kind = k, qd_schema = sch,
                                qd_messages = ms\<rparr>
             | None \<Rightarrow> Err ())
        | _ \<Rightarrow> Err ())\<rparr>"

lemma sample_queue_serde_ok: "queue_serde_ok sample_queue_serde"
  by (simp add: queue_serde_ok_def sample_queue_serde_def)

abbreviation sample_message :: "uuid \<Rightarrow> string \<Rightarrow> string Message" where
  "sample_message u v \<equiv> \<lparr>msg_id = MessageId u, msg_value = v, msg_attempts = 0, msg_lease = None\<rparr>"

abbreviation jobs :: Location where
  "jobs \<equiv> Location ''prod/queues/jobs.json''"

definition sample_queue_state :: State where
  "sample_queue_state =
     \<lparr>st_objects = fmupd jobs
        \<lparr>obj_bytes = put_fields [''1'', ''queue'', ''job-v1'', ''10'', ''a'', ''0'', ''none'',
            ''20'', ''b'', ''0'', ''none''],
         obj_version = Version ''3''\<rparr> fmempty,
      st_next_version = 3\<rparr>"

abbreviation sample_queue :: "(State, Infallible, unit) Queue" where
  "sample_queue \<equiv> memory_queue jobs ''job-v1'' ()"

abbreviation one_second :: Duration where
  "one_second \<equiv> \<lparr>dur_secs = 1, dur_nanos = 0\<rparr>"

lemma sample_queue_stored:
  "stored_queue sample_queue_serde ''job-v1'' jobs sample_queue_state
     = Some [sample_message 10 ''a'', sample_message 20 ''b'']"
  by (simp add: stored_queue_def sample_queue_state_def sample_queue_serde_def queue_valid_def
      QUEUE_FORMAT_VERSION_def QUEUE_KIND_def read_nat_def less_MessageId_def)

lemma lease_deadline_eq:
  "lease_deadline now dur =
     (if as_millis dur = 0 \<or> 2 ^ 64 \<le> unat now + as_millis dur then Err Q_InvalidLeaseDuration
      else Ok (now + of_nat (as_millis dur)))"
proof (cases "as_millis dur < 2 ^ 64")
  case True
  then have "unat (of_nat (as_millis dur) :: u64) = as_millis dur"
    by (simp add: unat_of_nat)
  with True show ?thesis
    by (auto simp: lease_deadline_def lease_millis_def u64_try_from_def checked_add_def
        word_greater_zero_iff simp flip: unat_eq_zero split: if_splits)
next
  case False
  then show ?thesis
    by (auto simp: lease_deadline_def lease_millis_def u64_try_from_def)
qed

section \<open>Refinement\<close>

text \<open>
  C1: over the in-memory store the queue is a list of messages kept in identifier order: for every
  sequence of \<open>publish\<close>, \<open>claim\<close>, \<open>ack\<close>, \<open>len\<close> and \<open>is_empty\<close> calls with fresh identifiers, each
  call answers, or fails, exactly as the same call on that list, whatever the clocks read, and
  the stored messages at the end are the list's.
\<close>

theorem queue_refines_messages:
  assumes "queue_serde_ok C" "stored_queue C sch l st = Some ms" "fresh_messages xs ms"
  shows "\<exists>rs ms' st'. message_run xs ms = (rs, ms') \<and>
    queue_run C (memory_queue l sch c) xs st = (rs, st') \<and> stored_queue C sch l st' = Some ms'"
  using assms by (rule queue_run_refines)

theorem queue_refines_messages_witness:
  "\<exists>ms' st'. queue_run sample_queue_serde sample_queue
      [QOp_publish 15 ''c'', QOp_claim 1000 7 one_second, QOp_claim 1500 8 one_second,
       QOp_ack 1999 (MessageId 10) (LeaseToken 7), QOp_ack 2500 (MessageId 15) (LeaseToken 8), QOp_len]
      sample_queue_state =
    ([Ok (QR_published (MessageId 15)),
      Ok (QR_claimed (Some \<lparr>cl_id = MessageId 10, cl_value = ''a'', cl_lease_token = LeaseToken 7,
        cl_attempt = 1, cl_lease_expires_at_millis = 2000\<rparr>)),
      Ok (QR_claimed (Some \<lparr>cl_id = MessageId 15, cl_value = ''c'', cl_lease_token = LeaseToken 8,
        cl_attempt = 1, cl_lease_expires_at_millis = 2500\<rparr>)),
      Ok (QR_ack Acknowledged), Ok (QR_ack LeaseExpired), Ok (QR_len 2)], st') \<and>
    stored_queue sample_queue_serde ''job-v1'' jobs st' = Some ms'"
proof -
  let ?xs = "[QOp_publish 15 ''c'', QOp_claim 1000 7 one_second, QOp_claim 1500 8 one_second,
       QOp_ack 1999 (MessageId 10) (LeaseToken 7), QOp_ack 2500 (MessageId 15) (LeaseToken 8), QOp_len]"
  let ?ms = "[sample_message 10 ''a'', sample_message 20 ''b'']"
  have "fresh_messages ?xs ?ms" by (simp add: fresh_messages_def)
  from queue_refines_messages [OF sample_queue_serde_ok sample_queue_stored this, of "()"]
  show ?thesis
    by (auto simp: lease_deadline_eq as_millis_def less_eq_MessageId_def new_message_def available_def
        claim_of_def checked_add_def lease_message_def leased_def)
qed

section \<open>Claims\<close>

lemma find_first_key:
  assumes "keys_increasing key ms" "find p ms = Some m" "m' \<in> set ms" "p m'"
  shows "key m \<le> key m'"
  using assms by (induction ms) (auto split: if_splits intro: less_imp_le)

lemma queue_claim_exec:
  "queue_exec C q (QOp_claim now u dur) st = (r, st') \<Longrightarrow>
     queue_claim C q (\<lambda>_. now) u dur st =
       (case r of Inl e \<Rightarrow> Err e | Inr y \<Rightarrow> Ok (case y of QR_claimed cl \<Rightarrow> cl | _ \<Rightarrow> None), st')"
  by (auto simp: and_then_def split: prod.splits sum.splits)

text \<open>
  C8: every branch of \<open>claim\<close>. A lease of less than a millisecond, or whose deadline does not fit
  64 bits, is refused before the store is read; with no message available the answer is
  \<open>None\<close>; otherwise the available message with the smallest identifier is claimed: its attempt
  count goes up by one (or the claim fails, changing nothing, when that would overflow), it is
  leased until exactly the clock reading plus the duration, and every other message is
  unchanged.
\<close>

theorem queue_claim_spec:
  assumes C: "queue_serde_ok C" and st: "stored_queue C sch l st = Some ms"
  shows "if as_millis dur = 0 \<or> 2 ^ 64 \<le> unat now + as_millis dur
    then queue_claim C (memory_queue l sch c) (\<lambda>_. now) u dur st = (Err Q_InvalidLeaseDuration, st)
    else if \<forall>m\<in>set ms. \<not> available now m
    then \<exists>st'. queue_claim C (memory_queue l sch c) (\<lambda>_. now) u dur st = (Ok None, st') \<and>
           stored_queue C sch l st' = Some ms
    else \<exists>m\<in>set ms. available now m \<and>
      (\<forall>m'\<in>set ms. available now m' \<longrightarrow> msg_id m \<le> msg_id m') \<and>
      (\<exists>st'. if unat (msg_attempts m) + 1 = 2 ^ 32
        then queue_claim C (memory_queue l sch c) (\<lambda>_. now) u dur st = (Err Q_AttemptOverflow, st') \<and>
          stored_queue C sch l st' = Some ms
        else queue_claim C (memory_queue l sch c) (\<lambda>_. now) u dur st =
            (Ok (Some \<lparr>cl_id = msg_id m, cl_value = msg_value m, cl_lease_token = LeaseToken u,
               cl_attempt = msg_attempts m + 1,
               cl_lease_expires_at_millis = now + of_nat (as_millis dur)\<rparr>), st') \<and>
          stored_queue C sch l st' =
            Some (map (\<lambda>x. if msg_id x = msg_id m
              then x\<lparr>msg_attempts := msg_attempts m + 1,
                     msg_lease := Some \<lparr>le_token = LeaseToken u,
                       le_expires_at_millis = now + of_nat (as_millis dur)\<rparr>\<rparr>
              else x) ms))"
proof (cases "as_millis dur = 0 \<or> 2 ^ 64 \<le> unat now + as_millis dur")
  case True
  then show ?thesis by (simp add: queue_claim_transact lease_deadline_eq)
next
  case valid: False
  have "fresh_messages [QOp_claim now u dur] ms" by (simp add: fresh_messages_def)
  from queue_exec_simulates [OF C st this, of c] obtain r ms' st' where
    exec: "message_exec (QOp_claim now u dur) ms = (r, ms')"
      "queue_exec C (memory_queue l sch c) (QOp_claim now u dur) st = (r, st')"
      "stored_queue C sch l st' = Some ms'" unfolding simulates_def by (elim exE conjE)
  note claim = queue_claim_exec [OF exec(2)]
  show ?thesis
  proof (cases "find (available now) ms")
    case None
    then have "\<forall>m\<in>set ms. \<not> available now m" by (auto simp: find_None_iff)
    with valid None exec claim show ?thesis by (auto simp: lease_deadline_eq)
  next
    case (Some m)
    note m = find_SomeD [OF Some] find_first_key [OF stored_queue_increasing [OF st] Some]
    have bound: "unat (msg_attempts m) < 2 ^ 32" using unsigned_less [of "msg_attempts m"] by simp
    have "if unat (msg_attempts m) + 1 = 2 ^ 32 then r = Err Q_AttemptOverflow \<and> ms' = ms
      else r = Ok (QR_claimed (Some (claim_of (msg_attempts m + 1) (LeaseToken u)
          (now + of_nat (as_millis dur)) m))) \<and>
        ms' = lease_message (msg_id m) (msg_attempts m + 1) (LeaseToken u) (now + of_nat (as_millis dur)) ms"
      using exec(1) Some valid bound by (auto simp: lease_deadline_eq checked_add_def)
    with valid m claim exec(3) show ?thesis
      by (auto simp: claim_of_def lease_message_def leased_def intro!: bexI [of _ m] split: if_splits)
  qed
qed

theorem queue_claim_spec_witness:
  "\<exists>st'. queue_claim sample_queue_serde sample_queue (\<lambda>_. 1000) 7 one_second sample_queue_state =
    (Ok (Some \<lparr>cl_id = MessageId 10, cl_value = ''a'', cl_lease_token = LeaseToken 7, cl_attempt = 1,
      cl_lease_expires_at_millis = 2000\<rparr>), st')"
  using queue_claim_spec [OF sample_queue_serde_ok sample_queue_stored, of one_second 1000 "()" 7]
  by (auto simp: as_millis_def available_def less_eq_MessageId_def)

section \<open>Acknowledgements\<close>

lemma queue_ack_exec:
  "queue_exec C q (QOp_ack now i token) st = (Ok (QR_ack a), st') \<Longrightarrow>
     queue_ack C q (\<lambda>_. now) i token st = (Ok a, st')"
  by (auto simp: comp_eqs)

lemma find_key_increasing:
  assumes "keys_increasing key ms" "m \<in> set ms"
  shows "find (\<lambda>x. key x = key m) ms = Some m"
  using assms by (induction ms) auto

lemma queue_ack_simulates:
  assumes C: "queue_serde_ok C" and st: "stored_queue C sch l st = Some ms"
    and "message_exec (QOp_ack now i token) ms
      = (Ok (QR_ack a) :: ('j, Infallible) QueueError + 'v queue_reply, ms')"
  shows "\<exists>st'. queue_ack (C :: ('v, 'j) queue_serde) (memory_queue l sch c) (\<lambda>_. now) i token st = (Ok a, st') \<and>
    stored_queue C sch l st' = Some ms'"
proof -
  have "fresh_messages [QOp_ack now i token] ms" by (simp add: fresh_messages_def)
  from queue_exec_simulates [OF C st this, of c] obtain r ms1 st' where
    exec: "message_exec (QOp_ack now i token) ms = (r, ms1)"
      "queue_exec C (memory_queue l sch c) (QOp_ack now i token) st = (r, st')"
      "stored_queue C sch l st' = Some ms1" unfolding simulates_def by (elim exE conjE)
  then have "r = Ok (QR_ack a)" "ms1 = ms'" using assms(3) by simp_all
  with exec queue_ack_exec [of C "memory_queue l sch c" now i token st a st'] show ?thesis by auto
qed

text \<open>
  C9: every branch of \<open>ack\<close>. The message is removed, and every other message kept, exactly when it
  is leased under the given token and the lease has not expired; an unknown identifier, a missing
  or foreign lease, and an expired one are told apart, and change nothing.
\<close>

theorem queue_ack_spec:
  assumes C: "queue_serde_ok C" and st: "stored_queue C sch l st = Some ms"
  shows "\<exists>a st'. queue_ack C (memory_queue l sch c) (\<lambda>_. now) i token st = (Ok a, st') \<and>
    stored_queue C sch l st' = Some (if a = Acknowledged then filter (\<lambda>m. msg_id m \<noteq> i) ms else ms) \<and>
    (a = Ack_NotFound \<longleftrightarrow> i \<notin> msg_id ` set ms) \<and>
    (a = LeaseExpired \<longleftrightarrow> (\<exists>m\<in>set ms. \<exists>e. msg_id m = i \<and> e \<le> now \<and>
       msg_lease m = Some \<lparr>le_token = token, le_expires_at_millis = e\<rparr>)) \<and>
    (a = Acknowledged \<longleftrightarrow> (\<exists>m\<in>set ms. \<exists>e. msg_id m = i \<and> now < e \<and>
       msg_lease m = Some \<lparr>le_token = token, le_expires_at_millis = e\<rparr>))"
proof (cases "i \<in> msg_id ` set ms")
  case False
  then have "find (\<lambda>m. msg_id m = i) ms = None" by (auto simp: find_None_iff)
  with queue_ack_simulates [OF C st, of now i token Ack_NotFound ms c] False show ?thesis
    by (intro exI [of _ Ack_NotFound]) auto
next
  case True
  then obtain m where m: "m \<in> set ms" "msg_id m = i" by auto
  note inc = stored_queue_increasing [OF st]
  have only: "\<And>x. x \<in> set ms \<Longrightarrow> msg_id x = i \<Longrightarrow> x = m"
    using keys_increasing_inj [OF inc] m by metis
  have find: "find (\<lambda>m. msg_id m = i) ms = Some m" using find_key_increasing [OF inc m(1)] m(2) by simp
  define a where "a = (case msg_lease m of None \<Rightarrow> LeaseMismatch | Some lease \<Rightarrow>
    if le_token lease \<noteq> token then LeaseMismatch
    else if le_expires_at_millis lease \<le> now then LeaseExpired else Acknowledged)"
  have "\<exists>st'. queue_ack C (memory_queue l sch c) (\<lambda>_. now) i token st = (Ok a, st') \<and>
    stored_queue C sch l st' = Some (if a = Acknowledged then filter (\<lambda>m. msg_id m \<noteq> i) ms else ms)"
    by (rule queue_ack_simulates [OF C st]) (simp add: find a_def split: option.splits)
  moreover have at: "(\<exists>x\<in>set ms. \<exists>e. msg_id x = i \<and> P e \<and> msg_lease x = Some (f e)) \<longleftrightarrow>
      (\<exists>e. P e \<and> msg_lease m = Some (f e))" for P f
    using m only by blast
  have "(a = Ack_NotFound \<longleftrightarrow> i \<notin> msg_id ` set ms) \<and>
    (a = LeaseExpired \<longleftrightarrow> (\<exists>e. e \<le> now \<and> msg_lease m = Some \<lparr>le_token = token, le_expires_at_millis = e\<rparr>)) \<and>
    (a = Acknowledged \<longleftrightarrow> (\<exists>e. now < e \<and> msg_lease m = Some \<lparr>le_token = token, le_expires_at_millis = e\<rparr>))"
  proof (cases "msg_lease m")
    case (Some lease)
    with True show ?thesis by (cases lease) (auto simp: a_def)
  qed (use True in \<open>simp add: a_def\<close>)
  ultimately show ?thesis unfolding at by blast
qed

theorem queue_ack_spec_witness:
  "\<exists>st'. queue_ack sample_queue_serde sample_queue (\<lambda>_. 1000) (MessageId 10) (LeaseToken 7)
      sample_queue_state = (Ok LeaseMismatch, st')"
proof -
  from queue_ack_spec [OF sample_queue_serde_ok sample_queue_stored, of "()" 1000 "MessageId 10" "LeaseToken 7"]
  obtain a st' where a: "queue_ack sample_queue_serde sample_queue (\<lambda>_. 1000) (MessageId 10) (LeaseToken 7)
      sample_queue_state = (Ok a, st')" "a \<noteq> Ack_NotFound" "a \<noteq> LeaseExpired" "a \<noteq> Acknowledged"
    by (elim exE conjE) simp
  then have "a = LeaseMismatch" by (cases a) simp_all
  with a(1) show ?thesis by blast
qed

section \<open>Leases\<close>

text \<open>What a successful claim leaves behind.\<close>

lemma under_lease_claimed: "under_lease i t e (lease_message i a t e ms)"
  by (induction ms) (simp_all add: under_lease_def lease_message_def)

lemma message_claimed:
  assumes "message_exec (QOp_claim now u dur) ms = (Ok (QR_claimed (Some cl)), ms')"
  shows "cl_id cl \<in> msg_id ` set ms" "msg_id ` set ms' = msg_id ` set ms" "cl_lease_token cl = LeaseToken u"
    "under_lease (cl_id cl) (cl_lease_token cl) (cl_lease_expires_at_millis cl) ms'"
    "holds_value (cl_id cl) (cl_value cl) ms'"
proof -
  obtain deadline m a where d: "find (available now) ms = Some m"
      "cl = claim_of a (LeaseToken u) deadline m" "ms' = lease_message (msg_id m) a (LeaseToken u) deadline ms"
    using assms by (auto split: message_splits)
  then show "cl_id cl \<in> msg_id ` set ms" "msg_id ` set ms' = msg_id ` set ms" "cl_lease_token cl = LeaseToken u"
    "under_lease (cl_id cl) (cl_lease_token cl) (cl_lease_expires_at_millis cl) ms'"
    "holds_value (cl_id cl) (cl_value cl) ms'"
    using find_SomeD [OF d(1)] by (simp_all add: claim_of_def under_lease_claimed) (auto simp: holds_value_def)
qed

lemma queue_claimed:
  fixes C :: "('v, 'j) queue_serde"
  assumes C: "queue_serde_ok C" and st: "stored_queue C sch l st = Some ms"
    and "queue_claim C (memory_queue l sch c) (\<lambda>_. now) u dur st = (Ok (Some cl), st')"
  obtains ms' where "message_exec (QOp_claim now u dur) ms
      = (Ok (QR_claimed (Some cl)) :: ('j, Infallible) QueueError + 'v queue_reply, ms')"
    "stored_queue C sch l st' = Some ms'"
proof -
  have "fresh_messages [QOp_claim now u dur] ms" by (simp add: fresh_messages_def)
  from queue_exec_simulates [OF C st this, of c] obtain r ms1 st1 where
    exec: "message_exec (QOp_claim now u dur) ms = (r, ms1)"
      "queue_exec C (memory_queue l sch c) (QOp_claim now u dur) st = (r, st1)"
      "stored_queue C sch l st1 = Some ms1" unfolding simulates_def by (elim exE conjE)
  then have "r = Ok (QR_claimed (Some cl))" "st1 = st'" using assms(3) by (auto simp: and_then_Ok)
  with exec show thesis by (intro that [of ms1]) simp_all
qed

lemma acknowledged_under_lease:
  assumes "under_lease i token deadline ms" "holds_value i v ms" "now < deadline"
  shows "\<exists>ms'. message_exec (QOp_ack now i token) ms = (Ok (QR_ack Acknowledged), ms')"
proof (cases "find (\<lambda>m. msg_id m = i) ms")
  case None
  then show ?thesis using assms(2) by (auto simp: holds_value_def find_None_iff)
next
  case (Some m)
  then show ?thesis using assms(1,3) find_SomeD [OF Some] by (auto simp: under_lease_def)
qed

text \<open>
  C5: a lease is exclusive. From a successful claim on, in every later sequence of operations by
  any callers whose claims read clocks before the lease's deadline, no claim returns the
  leased message again; and unless one of those operations acknowledged it, the holder's token
  acknowledges it at every time before the deadline.
\<close>

theorem queue_lease_exclusive:
  fixes C :: "('v, 'j) queue_serde"
  assumes C: "queue_serde_ok C" and st: "stored_queue C sch l st = Some ms"
    and claim: "queue_claim C (memory_queue l sch c) (\<lambda>_. now) u dur st = (Ok (Some cl), st1)"
    and "fresh_messages xs ms" "\<forall>x\<in>set xs. claims_before (cl_lease_expires_at_millis cl) x"
    and run: "queue_run C (memory_queue l sch c) xs st1 = (rs, st2)"
  shows "(\<forall>r\<in>set rs. \<not> claims_message (cl_id cl) r) \<and>
    (\<not> list_ex (\<lambda>(x, r). acknowledges (cl_id cl) x r) (zip xs rs) \<longrightarrow>
      (\<forall>now' < cl_lease_expires_at_millis cl. \<exists>st3.
        queue_ack C (memory_queue l sch c) (\<lambda>_. now') (cl_id cl) (cl_lease_token cl) st2
          = (Ok Acknowledged, st3)))"
proof -
  from queue_claimed [OF C st claim] obtain ms1 where
    ms1: "message_exec (QOp_claim now u dur) ms
      = (Ok (QR_claimed (Some cl)) :: ('j, Infallible) QueueError + 'v queue_reply, ms1)"
      "stored_queue C sch l st1 = Some ms1" .
  note cl = message_claimed [OF ms1(1)]
  have fresh: "fresh_messages xs ms1" "cl_id cl \<notin> set (published xs)"
    using assms(4) cl(1,2) by (auto simp: fresh_messages_def)
  from queue_run_refines [OF C ms1(2) fresh(1), of c] obtain ms2 where
    ms2: "message_run xs ms1 = (rs, ms2)" "stored_queue C sch l st2 = Some ms2"
    unfolding run by auto
  note lease = under_lease_run [OF cl(4) assms(5) fresh(2) ms2(1)]
  note kept = holds_value_run [OF cl(5) fresh(2) ms2(1)]
  have "\<exists>st3. queue_ack C (memory_queue l sch c) (\<lambda>_. now') (cl_id cl) (cl_lease_token cl) st2
      = (Ok Acknowledged, st3)"
    if "\<not> list_ex (\<lambda>(x, r). acknowledges (cl_id cl) x r) (zip xs rs)"
      "now' < cl_lease_expires_at_millis cl" for now'
  proof -
    have "holds_value (cl_id cl) (cl_value cl) ms2" using kept that(1) by simp
    from acknowledged_under_lease [OF lease [THEN conjunct1] this that(2)]
    obtain ms3 where "message_exec (QOp_ack now' (cl_id cl) (cl_lease_token cl)) ms2
      = (Ok (QR_ack Acknowledged) :: ('j, Infallible) QueueError + 'v queue_reply, ms3)" by blast
    from queue_ack_simulates [OF C ms2(2) this, of c] show ?thesis by blast
  qed
  with lease show ?thesis by blast
qed

theorem queue_lease_exclusive_witness:
  "\<exists>cl st1 rs st2. queue_claim sample_queue_serde sample_queue (\<lambda>_. 1000) 7 one_second sample_queue_state
      = (Ok (Some cl), st1) \<and>
    queue_run sample_queue_serde sample_queue [QOp_claim 1999 8 one_second] st1 = (rs, st2) \<and>
    cl_id cl = MessageId 10 \<and> (\<forall>r\<in>set rs. \<not> claims_message (MessageId 10) r)"
proof -
  let ?ms = "[sample_message 10 ''a'', sample_message 20 ''b'']"
  let ?cl = "\<lparr>cl_id = MessageId 10, cl_value = ''a'', cl_lease_token = LeaseToken 7, cl_attempt = 1,
    cl_lease_expires_at_millis = 2000\<rparr>"
  have "fresh_messages [QOp_claim 1000 7 one_second] ?ms" by (simp add: fresh_messages_def)
  from queue_exec_simulates [OF sample_queue_serde_ok sample_queue_stored this, of "()"]
  obtain st1 where claim: "queue_claim sample_queue_serde sample_queue (\<lambda>_. 1000) 7 one_second
      sample_queue_state = (Ok (Some ?cl), st1)"
    by (auto simp: simulates_def lease_deadline_eq as_millis_def available_def claim_of_def
        checked_add_def comp_eqs)
  have fresh: "fresh_messages [QOp_claim 1999 8 one_second] ?ms" by (simp add: fresh_messages_def)
  have before: "\<forall>x\<in>set [QOp_claim 1999 8 one_second]. claims_before (cl_lease_expires_at_millis ?cl) x"
    by simp
  obtain rs st2 where run: "queue_run sample_queue_serde sample_queue [QOp_claim 1999 8 one_second] st1
      = (rs, st2)" by fastforce
  from queue_lease_exclusive [OF sample_queue_serde_ok sample_queue_stored claim fresh before run] claim run
  show ?thesis by fastforce
qed

end
