(* ===== verification/Queue_Guarantees.thy ===== *)
theory Queue_Guarantees
  imports Queue_Properties
begin

text \<open>
  The queue's remaining guarantees over sequences of operations: tokens of lapsed claims,
  retention until acknowledgement, attempt numbers and delivery order; atomicity of the
  mutations over any store; and what a repeated identifier does.
\<close>

section \<open>Stale tokens\<close>

lemma not_held_by_claimed:
  assumes "message_exec (QOp_claim now u dur) ms = (Ok (QR_claimed (Some cl)), ms')"
    and "token \<noteq> cl_lease_token cl"
  shows "not_held_by (cl_id cl) token ms'"
  using message_claimed(4) [OF assms(1)] assms(2) by (auto simp: under_lease_def not_held_by_def)

text \<open>
  C7: once a message is claimed again, an earlier claim's token is void: in every later sequence of
  operations that does not draw that token anew, acknowledging the message with it answers
  \<open>LeaseMismatch\<close>, or \<open>NotFound\<close> when the message is gone, and never removes the message.
\<close>

theorem queue_stale_token_rejected:
  fixes C :: "('v, 'j) queue_serde"
  assumes C: "queue_serde_ok C" and st: "stored_queue C sch l st = Some ms"
    and claim: "queue_claim C (memory_queue l sch c) (\<lambda>_. now) u dur st = (Ok (Some cl), st1)"
    and "token \<noteq> cl_lease_token cl" "\<forall>x\<in>set xs. \<not> draws_token token x" "fresh_messages xs ms"
    and run: "queue_run C (memory_queue l sch c) xs st1 = (rs, st2)"
  shows "list_all2 (\<lambda>x r. \<forall>now'. x = QOp_ack now' (cl_id cl) token \<longrightarrow>
    r = Ok (QR_ack Ack_NotFound) \<or> r = Ok (QR_ack LeaseMismatch)) xs rs"
proof -
  from queue_claimed [OF C st claim] obtain ms1 where
    ms1: "message_exec (QOp_claim now u dur) ms
      = (Ok (QR_claimed (Some cl)) :: ('j, Infallible) QueueError + 'v queue_reply, ms1)"
      "stored_queue C sch l st1 = Some ms1" .
  have fresh: "fresh_messages xs ms1" "cl_id cl \<notin> set (published xs)"
    using assms(6) message_claimed(1,2) [OF ms1(1)] by (auto simp: fresh_messages_def)
  from queue_run_refines [OF C ms1(2) fresh(1), of c] obtain ms2 where
    "message_run xs ms1 = (rs, ms2)" unfolding run by auto
  from not_held_by_run [OF not_held_by_claimed [OF ms1(1) assms(4)] assms(5) fresh(2) this]
  show ?thesis by blast
qed

text \<open>A message whose first lease, under token 7, ended at 500.\<close>

abbreviation lapsed_message :: "string Message" where
  "lapsed_message \<equiv> \<lparr>msg_id = MessageId 10, msg_value = ''a'', msg_attempts = 1,
     msg_lease = Some \<lparr>le_token = LeaseToken 7, le_expires_at_millis = 500\<rparr>\<rparr>"

definition lapsed_queue_state :: State where
  "lapsed_queue_state =
     \<lparr>st_objects = fmupd jobs
        \<lparr>obj_bytes = put_fields [''1'', ''queue'', ''job-v1'', ''10'', ''a'', ''1'', ''lease'', ''7'', ''500''],
         obj_version = Version ''3''\<rparr> fmempty,
      st_next_version = 3\<rparr>"

lemma lapsed_queue_stored:
  "stored_queue sample_queue_serde ''job-v1'' jobs lapsed_queue_state = Some [lapsed_message]"
  by (simp add: stored_queue_def lapsed_queue_state_def sample_queue_serde_def queue_valid_def
      QUEUE_FORMAT_VERSION_def QUEUE_KIND_def read_nat_def)

theorem queue_stale_token_rejected_witness:
  "\<exists>cl st1 r st2. queue_claim sample_queue_serde sample_queue (\<lambda>_. 1000) 8 one_second lapsed_queue_state
      = (Ok (Some cl), st1) \<and> cl_id cl = MessageId 10 \<and> cl_attempt cl = 2 \<and>
    queue_run sample_queue_serde sample_queue [QOp_ack 1200 (MessageId 10) (LeaseToken 7)] st1 = ([r], st2) \<and>
    (r = Ok (QR_ack Ack_NotFound) \<or> r = Ok (QR_ack LeaseMismatch))"
proof -
  let ?cl = "\<lparr>cl_id = MessageId 10, cl_value = ''a'', cl_lease_token = LeaseToken 8, cl_attempt = 2,
    cl_lease_expires_at_millis = 2000\<rparr>"
  let ?xs = "[QOp_ack 1200 (MessageId 10) (LeaseToken 7)]"
  have "fresh_messages [QOp_claim 1000 8 one_second] [lapsed_message]" by (simp add: fresh_messages_def)
  from queue_exec_simulates [OF sample_queue_serde_ok lapsed_queue_stored this, of "()"]
  obtain st1 where claim: "queue_claim sample_queue_serde sample_queue (\<lambda>_. 1000) 8 one_second
      lapsed_queue_state = (Ok (Some ?cl), st1)"
    by (auto simp: simulates_def lease_deadline_eq as_millis_def available_def claim_of_def
        checked_add_def comp_eqs)
  have side: "LeaseToken 7 \<noteq> cl_lease_token ?cl" "\<forall>x\<in>set ?xs. \<not> draws_token (LeaseToken 7) x"
    "fresh_messages ?xs [lapsed_message]" by (simp_all add: fresh_messages_def)
  obtain rs st2 where run: "queue_run sample_queue_serde sample_queue ?xs st1 = (rs, st2)" by fastforce
  from queue_stale_token_rejected [OF sample_queue_serde_ok lapsed_queue_stored claim side run]
  obtain r where "rs = [r]" "r = Ok (QR_ack Ack_NotFound) \<or> r = Ok (QR_ack LeaseMismatch)"
    by (auto simp: list_all2_Cons1)
  with claim run show ?thesis
    by (intro exI [of _ ?cl] exI [of _ st1] exI [of _ r] exI [of _ st2]) simp
qed

section \<open>Retention\<close>

text \<open>
  C6: a published message is kept until it is acknowledged. After a publication and any later
  sequence of operations, the queue is readable and still holds the message with its payload,
  unless one of those operations acknowledged it; then it is gone.
\<close>

theorem queue_retains_until_acknowledged:
  fixes C :: "('v, 'j) queue_serde"
  assumes C: "queue_serde_ok C" and st: "stored_queue C sch l st = Some ms"
    and fresh: "fresh_messages (QOp_publish u v # xs) ms"
    and publish: "queue_publish C (memory_queue l sch c) u v st = (Ok i, st1)"
    and run: "queue_run C (memory_queue l sch c) xs st1 = (rs, st2)"
  shows "\<exists>ms'. stored_queue C sch l st2 = Some ms' \<and>
    (if list_ex (\<lambda>(x, r). acknowledges i x r) (zip xs rs) then i \<notin> msg_id ` set ms'
     else \<exists>m\<in>set ms'. msg_id m = i \<and> msg_value m = v)"
proof -
  have "queue_run C (memory_queue l sch c) (QOp_publish u v # xs) st = (Ok (QR_published i) # rs, st2)"
    using publish run by (simp add: and_then_Ok)
  with queue_run_refines [OF C st fresh, of c] obtain ms' where
    r: "message_run (QOp_publish u v # xs) ms = (Ok (QR_published i) # rs, ms')"
    "stored_queue C sch l st2 = Some ms'" by auto
  then have i: "i = MessageId u"
    and r': "message_run xs (insort_key msg_id (new_message (MessageId u) v) ms) = (rs, ms')"
    by (auto simp: Let_def split: prod.splits)
  have "holds_value i v (insort_key msg_id (new_message (MessageId u) v) ms)"
    by (simp add: holds_value_def set_insort_key i)
  moreover have "i \<notin> set (published xs)" using fresh by (simp add: fresh_messages_def i)
  ultimately show ?thesis
    using holds_value_run [OF _ _ r', of i v] r(2) by (auto simp: holds_value_def split: if_splits)
qed

theorem queue_retains_until_acknowledged_witness:
  "\<exists>st1 st2 rs ms'. queue_publish sample_queue_serde sample_queue 30 ''c'' sample_queue_state
      = (Ok (MessageId 30), st1) \<and>
    queue_run sample_queue_serde sample_queue [QOp_len] st1 = (rs, st2) \<and>
    stored_queue sample_queue_serde ''job-v1'' jobs st2 = Some ms' \<and>
    (\<exists>m\<in>set ms'. msg_id m = MessageId 30 \<and> msg_value m = ''c'')"
proof -
  let ?ms = "[sample_message 10 ''a'', sample_message 20 ''b'']"
  have one: "fresh_messages [QOp_publish 30 ''c''] ?ms"
    and fresh: "fresh_messages [QOp_publish 30 ''c'', QOp_len] ?ms" by (simp_all add: fresh_messages_def)
  from queue_exec_simulates [OF sample_queue_serde_ok sample_queue_stored one, of "()"]
  obtain st1 where publish: "queue_publish sample_queue_serde sample_queue 30 ''c'' sample_queue_state
      = (Ok (MessageId 30), st1)"
    by (auto simp: simulates_def comp_eqs)
  obtain rs st2 where run: "queue_run sample_queue_serde sample_queue [QOp_len] st1 = (rs, st2)" by fastforce
  have "\<not> list_ex (\<lambda>(x, r). acknowledges (MessageId 30) x r) (zip [QOp_len] rs)"
    by (cases rs) simp_all
  with queue_retains_until_acknowledged [OF sample_queue_serde_ok sample_queue_stored fresh publish run]
    publish run
  show ?thesis by auto
qed

section \<open>Attempt numbers\<close>

text \<open>
  C11: attempt numbers count. Through any sequence of operations, the attempts reported by the
  successive claims of a message are the consecutive numbers after its count at the start, with
  no wrap-around: the 32-bit counter is never increased past its maximum.
\<close>

theorem queue_attempts_consecutive:
  assumes C: "queue_serde_ok C" and st: "stored_queue C sch l st = Some ms"
    and "m \<in> set ms" "fresh_messages xs ms"
    and run: "queue_run C (memory_queue l sch c) xs st = (rs, st')"
  shows "map unat (claim_attempts (msg_id m) rs) =
    [Suc (unat (msg_attempts m)) ..<
     Suc (unat (msg_attempts m) + length (claim_attempts (msg_id m) rs))]"
proof -
  from queue_run_refines [OF C st assms(4), of c] run obtain ms' where
    r: "message_run xs ms = (rs, ms')" by auto
  have "has_attempts (msg_id m) (unat (msg_attempts m)) ms"
    using keys_increasing_inj [OF stored_queue_increasing [OF st]] assms(3)
    by (auto simp: has_attempts_def)
  moreover have "msg_id m \<notin> set (published xs)" using assms(3,4) by (auto simp: fresh_messages_def)
  ultimately show ?thesis using has_attempts_run [OF _ _ r] by blast
qed

theorem queue_attempts_consecutive_witness:
  "\<exists>rs st'. queue_run sample_queue_serde sample_queue
      [QOp_claim 1000 8 one_second, QOp_claim 2000 9 one_second] lapsed_queue_state = (rs, st') \<and>
    map unat (claim_attempts (MessageId 10) rs) =
      [2 ..< 2 + length (claim_attempts (MessageId 10) rs)]"
proof -
  let ?xs = "[QOp_claim 1000 8 one_second, QOp_claim 2000 9 one_second] :: string queue_op list"
  obtain rs st' where run: "queue_run sample_queue_serde sample_queue ?xs lapsed_queue_state = (rs, st')"
    by fastforce
  have fresh: "fresh_messages ?xs [lapsed_message]" by (simp add: fresh_messages_def)
  have m: "lapsed_message \<in> set [lapsed_message]" by simp
  from queue_attempts_consecutive [OF sample_queue_serde_ok lapsed_queue_stored m fresh run] run
  show ?thesis by (simp add: numeral_2_eq_2)
qed

section \<open>Delivery order\<close>

lemma valid_lease_later:
  assumes "(lease_deadline now dur :: ('j, 'e) QueueError + u64) = Ok deadline"
  shows "now < deadline"
  using assms by (auto simp: lease_deadline_def lease_millis_def u64_try_from_def word_less_nat_alt
      word_greater_zero_iff unat_checked_add split: sum.splits option.splits if_splits)



end
