(* ===== verification/Queue_Lifecycle.thy ===== *)
theory Queue_Lifecycle
  imports Queue_Guarantees
begin

text \<open>
  The queue over any store that keeps the contract, the queue's builder over the in-memory store,
  and what publishing under an identifier that is already present does.
\<close>

section \<open>Atomicity over any store\<close>

lemma stored_doc_queue_valid: "stored_doc (queue_decode C sch) x = Some d \<Longrightarrow> queue_valid sch d"
  by (auto simp: stored_doc_eq_Some queue_decode_eq_Ok)

lemma queue_transact_atomic:
  fixes C :: "('v, 'j) queue_serde" and S :: "('s, 'e) object_store"
  assumes "object_store_laws S view I locs" "locs l" "I s"
    and "\<forall>d b. qs_to_vec C d = Ok b \<longrightarrow> qs_from_slice C b = Ok d"
    and "\<And>d d' k. stored_doc (queue_decode C sch :: bytes \<Rightarrow> ('j, 'e) QueueError + _) (view s l) = Some d \<Longrightarrow>
      queue_valid sch d \<Longrightarrow> f d = Commit d' k \<Longrightarrow> queue_valid sch d'"
  shows "case_prod (atomic_outcome view l (queue_decode C sch) Q_Store f s)
    (transact (queue_read C \<lparr>queue_store = S, queue_location = l, queue_schema = sch, queue_clock = c\<rparr>)
      (queue_swap C \<lparr>queue_store = S, queue_location = l, queue_schema = sch, queue_clock = c\<rparr>) f s)"
proof -
  have rt: "roundtrips (queue_valid sch) (queue_encode C) (queue_decode C sch :: bytes \<Rightarrow> ('j, 'e) QueueError + _)"
    using assms(4) by (auto simp: roundtrips_def queue_encode_def queue_decode_eq_Ok)
  show ?thesis
    by (rule document_structure.transact_atomic_pair
          [OF queue_document_structure [OF assms(1,2)] rt assms(3)])
      (assumption | erule stored_doc_queue_valid | rule assms(5))+
qed

text \<open>
  Over every store that keeps the object-store contract, each queue mutation is one atomic step
  on the stored document. A publication under an identifier the queue does not hold, a claim
  and an acknowledgement each either take effect completely, as the step says, or, when they
  report a conflict or any other error but a backend failure, not at all; after a backend failure
  the queue is the old one or the complete new one.
\<close>

theorem queue_operations_atomic:
  fixes C :: "('v, 'j) queue_serde" and S :: "('s, 'e) object_store"
  assumes "object_store_laws S view I locs" "locs l" "I s"
    and "\<forall>d b. qs_to_vec C d = Ok b \<longrightarrow> qs_from_slice C b = Ok d"
    and "q = \<lparr>queue_store = S, queue_location = l, queue_schema = sch, queue_clock = c\<rparr>"
    and "\<forall>d. stored_doc (queue_decode C sch :: bytes \<Rightarrow> ('j, 'e) QueueError + _) (view s l) = Some d \<longrightarrow>
      MessageId u \<notin> msg_id ` set (qd_messages d)"
    and "as_millis dur \<noteq> 0" "unat (now_millis c) + as_millis dur < 2 ^ 64"
  shows "case_prod (atomic_outcome view l (queue_decode C sch) Q_Store
        (queue_publish_step (MessageId u) v) s) (queue_publish C q u v s) \<and>
    case_prod (atomic_outcome view l (queue_decode C sch) Q_Store
        (queue_claim_step (now_millis c) (now_millis c + of_nat (as_millis dur)) (LeaseToken w)) s)
      (queue_claim C q now_millis w dur s) \<and>
    case_prod (atomic_outcome view l (queue_decode C sch) Q_Store
        (queue_ack_step (now_millis c) i token) s) (queue_ack C q now_millis i token s)"
proof -
  note atomic = queue_transact_atomic [OF assms(1-4), of sch]
  have claim: "queue_claim C q now_millis w dur = transact (queue_read C q) (queue_swap C q)
      (queue_claim_step (now_millis c) (now_millis c + of_nat (as_millis dur)) (LeaseToken w))"
    using assms(7,8) by (simp add: queue_claim_transact lease_deadline_eq assms(5))
  have ack: "queue_ack C q now_millis i token =
      transact (queue_read C q) (queue_swap C q) (queue_ack_step (now_millis c) i token)"
    by (simp add: queue_ack_transact assms(5))
  show ?thesis
    unfolding queue_publish_transact claim ack unfolding assms(5)
    by (intro conjI atomic)
      (use assms(6) in \<open>auto intro: queue_publish_step_valid queue_claim_step_valid queue_ack_step_valid\<close>)
qed

theorem queue_operations_atomic_witness:
  "case_prod (atomic_outcome memory_view jobs (queue_decode sample_queue_serde ''job-v1'') Q_Store
      (queue_publish_step (MessageId 30) ''c'') sample_queue_state)
    (queue_publish sample_queue_serde sample_queue 30 ''c'' sample_queue_state)"
proof -
  have rt: "\<forall>d b. qs_to_vec sample_queue_serde d = Ok b \<longrightarrow> qs_from_slice sample_queue_serde b = Ok d"
    using sample_queue_serde_ok unfolding queue_serde_ok_def by (metis sum.inject(2))
  have ids: "MessageId 30 \<notin> msg_id ` set [sample_message 10 ''a'', sample_message 20 ''b'']" by simp
  have "\<forall>d. queue_doc sample_queue_serde ''job-v1'' jobs sample_queue_state = Some d \<longrightarrow>
      MessageId 30 \<notin> msg_id ` set (qd_messages d)"
    using sample_queue_stored unfolding stored_queue_eq_Some
    by (metis (no_types, lifting) option.sel ids)
  moreover have "as_millis one_second \<noteq> 0" "unat ((\<lambda>_. 1000 :: u64) ()) + as_millis one_second < 2 ^ 64"
    by (simp_all add: as_millis_def)
  ultimately show ?thesis
    by (rule queue_operations_atomic [OF mem.object_store_laws_axioms TrueI TrueI rt refl, THEN conjunct1])
qed

section \<open>Repeated identifiers\<close>

lemma queue_corrupt_read:
  assumes "memory_view st l = Some obj" "qs_from_slice C (obj_bytes obj) = Ok d"
    and "qd_format_version d = QUEUE_FORMAT_VERSION" "qd_kind d = QUEUE_KIND" "qd_schema d = sch"
    and "\<not> keys_increasing msg_id (qd_messages d)"
  shows "queue_read C (memory_queue l sch c) st = (Err (Q_Corrupt ''message IDs must be strictly increasing''), st)"
  using assms by (simp add: queue_read_eq memory_get_def memory_view_def queue_decode_def)

text \<open>
  C34: if \<open>Uuid::now_v7()\<close> returns an identifier the queue already holds, \<open>publish\<close> still succeeds
  and returns it, and afterwards publications, acknowledgements, valid claims and length queries
  all fail with the corruption error: every message of the queue is out of reach.
\<close>

theorem queue_publish_duplicate_corrupts:
  fixes C :: "('v, 'j) queue_serde"
  assumes C: "queue_serde_ok C" and st: "stored_queue C sch l st = Some ms"
    and dup: "MessageId u \<in> msg_id ` set ms"
  shows "\<exists>st'. queue_publish C (memory_queue l sch c) u v st = (Ok (MessageId u), st') \<and>
    (\<forall>x. (\<forall>now w dur. x = QOp_claim now w dur \<longrightarrow> as_millis dur \<noteq> 0 \<and> unat now + as_millis dur < 2 ^ 64) \<longrightarrow>
       queue_exec C (memory_queue l sch c) x st' =
         (Err (Q_Corrupt ''message IDs must be strictly increasing''), st'))"
proof -
  obtain d where d: "queue_doc C sch l st = Some d" and ms: "ms = qd_messages d"
    using st by (auto simp: stored_queue_eq_Some)
  let ?d = "with_messages (sorted_insert msg_id (new_message (MessageId u) v)) d"
  have step: "queue_publish_step (MessageId u) v d = Commit ?d (\<lambda>_. MessageId u)"
    by (simp add: queue_publish_step_def)
  obtain b where b: "qs_to_vec C ?d = Ok b" "qs_from_slice C b = Ok ?d"
    using C by (auto simp: queue_serde_ok_def)
  then have e: "(queue_encode C ?d :: ('j, Infallible) QueueError + bytes) = Ok b"
    by (simp add: queue_encode_def)
  obtain ver st' where st': "queue_publish C (memory_queue l sch c) u v st = (Ok (MessageId u), st')"
      "memory_view st' = (memory_view st)(l \<mapsto> \<lparr>obj_bytes = b, obj_version = ver\<rparr>)"
    unfolding queue_publish_transact
    by (rule queuem.transact_Commit [where f = "queue_publish_step (MessageId u) v", OF TrueI d step e]) blast
  have "queue_read C (memory_queue l sch c) st' =
      (Err (Q_Corrupt ''message IDs must be strictly increasing''), st')"
    by (rule queue_corrupt_read [of _ _ "\<lparr>obj_bytes = b, obj_version = ver\<rparr>" _ ?d])
      (use st'(2) b(2) queue_doc_valid [OF d] dup ms in
        \<open>simp_all add: queue_valid_def sorted_insert_increasing\<close>)
  then have "queue_exec C (memory_queue l sch c) x st' =
      (Err (Q_Corrupt ''message IDs must be strictly increasing''), st')"
    if "\<forall>now w dur. x = QOp_claim now w dur \<longrightarrow> as_millis dur \<noteq> 0 \<and> unat now + as_millis dur < 2 ^ 64" for x
    using that
    by (cases x) (simp_all add: queue_publish_transact queue_claim_transact queue_ack_transact
        queue_len_transact queue_is_empty_def transact_def and_then_Err lease_deadline_eq)
  with st'(1) show ?thesis by blast
qed

theorem queue_publish_duplicate_corrupts_witness:
  "\<exists>st'. queue_publish sample_queue_serde sample_queue 10 ''again'' sample_queue_state = (Ok (MessageId 10), st') \<and>
    queue_exec sample_queue_serde sample_queue QOp_len st' =
      (Err (Q_Corrupt ''message IDs must be strictly increasing''), st')"
proof -
  have "MessageId 10 \<in> msg_id ` set [sample_message 10 ''a'', sample_message 20 ''b'']" by simp
  from queue_publish_duplicate_corrupts [OF sample_queue_serde_ok sample_queue_stored this, of "()" "''again''"]
  show ?thesis by (elim exE conjE) (auto dest: spec [of _ QOp_len])
qed

section \<open>Builder\<close>

abbreviation memory_queue_builder ::
  "string \<Rightarrow> string \<Rightarrow> string \<Rightarrow> 'c \<Rightarrow> (State, Infallible, 'c) QueueBuilder" where
  "memory_queue_builder ns name sch c \<equiv>
     QueueBuilder_clock c (QueueBuilder_schema sch (QueueBuilder_new memory_store ns name))"

abbreviation queue_loc :: "string \<Rightarrow> string \<Rightarrow> Location" where
  "queue_loc ns name \<equiv> Location (ns @ ''/'' @ ''queues'' @ ''/'' @ name @ ''.json'')"

lemma QueueBuilder_finish_client:
  "QueueBuilder_finish (QueueBuilder_clock c (QueueBuilder_schema sch (QueueBuilder_new S ns name))) =
     (if \<not> is_path_segment ns then Err Q_InvalidNamespace
      else if \<not> is_path_segment name then Err Q_InvalidName
      else if sch = [] then Err Q_MissingSchema
      else Ok \<lparr>queue_store = S, queue_location = queue_loc ns name, queue_schema = sch, queue_clock = c\<rparr>)"
proof -
  have "is_path_segment ''queues''" by (simp add: is_path_segment_def)
  then show ?thesis
    by (simp add: QueueBuilder_finish_def QueueBuilder_clock_def QueueBuilder_schema_def
        QueueBuilder_new_def Location_structure_segments)
qed

lemmas QueueBuilder_finish_memory = QueueBuilder_finish_client [where S = memory_store]

text \<open>
  Opening a queue checks the configuration first, in the order namespace, name, schema, without
  touching the store, and then accepts exactly a readable queue document: a missing object,
  undecodable bytes, a wrong format version, kind or schema and identifiers out of order are
  each reported as such. Nothing is written.
\<close>

theorem queue_open_spec:
  "QueueBuilder_open C (memory_queue_builder ns name sch c) st =
    ((if \<not> is_path_segment ns then Err (Q_Configuration Q_InvalidNamespace)
      else if \<not> is_path_segment name then Err (Q_Configuration Q_InvalidName)
      else if sch = [] then Err (Q_Configuration Q_MissingSchema)
      else case fmlookup (st_objects st) (queue_loc ns name) of
         None \<Rightarrow> Err Q_NotFound
       | Some obj \<Rightarrow>
           (case qs_from_slice C (obj_bytes obj) of
              Inl x \<Rightarrow> Err (Q_Document x)
            | Inr d \<Rightarrow>
                if qd_format_version d \<noteq> 1 then Err (Q_Incompatible
                  (''expected format version 1, observed '' @ show_word (qd_format_version d)))
                else if qd_kind d \<noteq> ''queue'' then Err (Q_Incompatible
                  (''expected kind queue, observed '' @ qd_kind d))
                else if qd_schema d \<noteq> sch then Err (Q_Incompatible
                  (''expected schema '' @ sch @ '', observed '' @ qd_schema d))
                else if \<not> keys_increasing msg_id (qd_messages d)
                then Err (Q_Corrupt ''message IDs must be strictly increasing'')
                else Ok (memory_queue (queue_loc ns name) sch c))), st)"
proof -
  have "show_word (1 :: u32) = ''1''" by code_simp
  then show ?thesis
    by (simp add: QueueBuilder_open_def QueueBuilder_finish_memory queue_read_eq memory_get_def
        queue_decode_def QUEUE_FORMAT_VERSION_def QUEUE_KIND_def and_then_def
        split: option.splits sum.splits)
qed

lemma queue_empty_stored:
  assumes "queue_serde_ok C" "queue_empty_bytes C (memory_queue l sch c) = Ok b"
  shows "stored_queue C sch l (memory_put l b st) = Some []"
proof -
  let ?d = "\<lparr>qd_format_version = QUEUE_FORMAT_VERSION, qd_kind = QUEUE_KIND, qd_schema = sch, qd_messages = []\<rparr>"
  have "qs_to_vec C ?d = Ok b" using assms(2) by (simp add: queue_empty_bytes_def)
  then have "qs_from_slice C b = Ok ?d"
    using assms(1) unfolding queue_serde_ok_def by (metis sum.inject(2))
  then show ?thesis
    by (simp add: stored_queue_def memory_put_lookup queue_valid_def)
qed

lemma queue_empty_encodes: "queue_serde_ok C \<Longrightarrow> \<exists>b. queue_empty_bytes C q = Ok b"
  by (auto simp: queue_serde_ok_def queue_empty_bytes_def)

text \<open>
  Creating a queue on an absent location stores the empty queue there and leaves other objects
  alone; on an occupied location it fails with the version found and changes nothing.
  \<open>open_or_create\<close> agrees with \<open>create\<close> on an absent location and with \<open>open\<close> on an occupied
  one, so it never overwrites an object.
\<close>

theorem queue_create_spec:
  assumes "queue_serde_ok C" "is_path_segment ns" "is_path_segment name" "sch \<noteq> []"
  shows "case fmlookup (st_objects st) (queue_loc ns name) of
      None \<Rightarrow> \<exists>st'. QueueBuilder_create C (memory_queue_builder ns name sch c) st
          = (Ok (memory_queue (queue_loc ns name) sch c), st') \<and>
        QueueBuilder_open_or_create C (memory_queue_builder ns name sch c) st
          = (Ok (memory_queue (queue_loc ns name) sch c), st') \<and>
        stored_queue C sch (queue_loc ns name) st' = Some [] \<and>
        (\<forall>l'. l' \<noteq> queue_loc ns name \<longrightarrow> memory_view st' l' = memory_view st l')
    | Some obj \<Rightarrow> QueueBuilder_create C (memory_queue_builder ns name sch c) st
          = (Err (Q_AlreadyExists (obj_version obj)), st) \<and>
        QueueBuilder_open_or_create C (memory_queue_builder ns name sch c) st
          = QueueBuilder_open C (memory_queue_builder ns name sch c) st"
proof -
  let ?l = "queue_loc ns name"
  obtain b where b: "queue_empty_bytes C (memory_queue ?l sch c) = Ok b"
    using queue_empty_encodes [OF assms(1)] by blast
  note defs = QueueBuilder_create_def QueueBuilder_open_or_create_def QueueBuilder_open_def
    QueueBuilder_finish_memory and_then_def map_err_def memory_get_def
  show ?thesis
  proof (cases "fmlookup (st_objects st) ?l")
    case None
    then show ?thesis
      using assms b queue_empty_stored [OF assms(1) b, of st]
      by (simp add: defs memory_create_absent memory_put_view)
  next
    case (Some obj)
    then show ?thesis using assms b by (simp add: defs memory_create_present)
  qed
qed

theorem queue_create_spec_witness:
  "\<exists>st'. QueueBuilder_create sample_queue_serde (memory_queue_builder ''prod'' ''jobs'' ''job-v1'' ()) State_default
      = (Ok sample_queue, st') \<and>
    stored_queue sample_queue_serde ''job-v1'' jobs st' = Some []"
proof -
  have "is_path_segment ''prod''" "is_path_segment ''jobs''" "''job-v1'' \<noteq> []" by code_simp+
  from queue_create_spec [OF sample_queue_serde_ok this, where st = State_default and c = "()"] show ?thesis
    by (auto simp: State_default_def)
qed

end
