(* ===== verification/Lifecycle_Race.thy ===== *)
theory Lifecycle_Race
  imports Map_Lifecycle Queue_Lifecycle
begin

text \<open>
  \<open>open_or_create\<close> under contention. Between two requests of one call other clients act: \<open>contended\<close>
  is the store whose every operation is preceded by what the others do next. The race both
  implementations (\<open>lifecycle.rs\<close> and the queue's own) handle is that another client creates the
  structure after it was found missing.
\<close>

section \<open>A store other clients use\<close>

fun others :: "'s \<times> ('s \<Rightarrow> 's) list \<Rightarrow> 's \<times> ('s \<Rightarrow> 's) list" where
  "others (s, []) = (s, [])"
| "others (s, e # es) = (e s, es)"

definition after_others :: "('s, 'e, 'a) comp \<Rightarrow> ('s \<times> ('s \<Rightarrow> 's) list, 'e, 'a) comp" where
  "after_others c p = (case others p of (s, es) \<Rightarrow> (case c s of (r, t) \<Rightarrow> (r, (t, es))))"

definition contended :: "('s, 'e) object_store \<Rightarrow> ('s \<times> ('s \<Rightarrow> 's) list, 'e) object_store" where
  "contended S =
     \<lparr>os_get = (\<lambda>l. after_others (os_get S l)), os_create = (\<lambda>l b. after_others (os_create S l b)),
      os_replace = (\<lambda>l v b. after_others (os_replace S l v b))\<rparr>"

text \<open>
  What the others may do at a location: create a good structure where there is none, and keep a
  good one good; elsewhere they do as they like.
\<close>

definition fair :: "Location \<Rightarrow> (State \<Rightarrow> bool) \<Rightarrow> (State \<Rightarrow> State) \<Rightarrow> bool" where
  "fair l good e \<longleftrightarrow>
     (\<forall>s. (memory_view s l = None \<longrightarrow> memory_view (e s) l = None \<or> good (e s)) \<and> (good s \<longrightarrow> good (e s)))"

lemma fair_step: "fair l good e \<Longrightarrow> memory_view s l = None \<or> good s \<Longrightarrow> memory_view (e s) l = None \<or> good (e s)"
  unfolding fair_def by blast

lemma contended_get:
  "os_get (contended memory_store) l (s, e # es) = (Ok (memory_view (e s) l), (e s, es))"
  by (simp add: contended_def after_others_def memory_get_def memory_view_def)

lemma contended_create:
  "os_create (contended memory_store) l b (s, e # es) =
     (case memory_view (e s) l of
        None \<Rightarrow> (Ok (Version (show_word (st_next_version (e s) + 1))), (memory_put l b (e s), es))
      | Some obj \<Rightarrow> (Err (Create_AlreadyExists (obj_version obj)), (e s, es)))"
  by (simp add: contended_def after_others_def memory_view_def memory_create_absent memory_create_present
      split: option.splits)

text \<open>Where the others can strike: before the \<open>get\<close>, between it and the \<open>create\<close>, or not at all.\<close>

lemma race_cases:
  assumes "list_all (fair l good) [e1, e2, e3]" "memory_view s l = None \<or> good s"
  obtains (found) obj where "memory_view (e1 s) l = Some obj" "good (e2 (e1 s))"
  | (race) obj where "memory_view (e1 s) l = None" "memory_view (e2 (e1 s)) l = Some obj" "good (e3 (e2 (e1 s)))"
  | (absent) "memory_view (e1 s) l = None" "memory_view (e2 (e1 s)) l = None"
proof -
  have fair: "fair l good e1" "fair l good e2" "fair l good e3" using assms(1) by simp_all
  note g1 = fair_step [OF fair(1) assms(2)]
  note g2 = fair_step [OF fair(2) g1]
  show ?thesis
    using that g1 g2 fair(2,3) unfolding fair_def
    by (cases "memory_view (e1 s) l"; cases "memory_view (e2 (e1 s)) l") force+
qed

section \<open>Maps\<close>

abbreviation contended_map :: "Location \<Rightarrow> string \<Rightarrow> (State \<times> (State \<Rightarrow> State) list, Infallible) Map" where
  "contended_map l sch \<equiv> \<lparr>map_store = contended memory_store, map_location = l, map_schema = sch\<rparr>"

lemma contended_map_read:
  assumes "stored_map C sch l (e s) = Some M"
  shows "\<exists>v d. map_read C (contended_map l sch) (s, e # es) = (Ok (v, d), (e s, es))"
proof -
  obtain obj d where obj: "memory_view (e s) l = Some obj" "ms_from_slice C (obj_bytes obj) = Ok d" "map_valid sch d"
    using assms by (auto simp: stored_map_eq_Some stored_doc_eq_Some map_decode_eq_Ok)
  from obj(2,3) have "(map_decode C sch (obj_bytes obj) :: (_, Infallible) Error + _) = Ok d" by (simp add: map_decode_eq_Ok)
  then show ?thesis using obj(1) by (simp add: map_read_eq contended_get)
qed

lemma contended_open_or_create:
  assumes b: "map_empty_bytes C (contended_map l sch) = Ok b"
    and good: "memory_view s l = None \<or> stored_map C sch l s \<noteq> None"
    and fair: "list_all (fair l (\<lambda>s. stored_map C sch l s \<noteq> None)) [e1, e2, e3]"
  shows "\<exists>t es. open_or_create_structure (contended memory_store) l (map_empty_bytes C (contended_map l sch))
      (map_read C (contended_map l sch)) (s, [e1, e2, e3]) = (Ok (), (t, es)) \<and>
    (t = e2 (e1 s) \<and> stored_map C sch l t \<noteq> None \<or> t = e3 (e2 (e1 s)) \<and> stored_map C sch l t \<noteq> None \<or>
     memory_view (e2 (e1 s)) l = None \<and> t = memory_put l b (e2 (e1 s)))"
proof -
  let ?s1 = "e1 s" and ?s2 = "e2 (e1 s)" and ?s3 = "e3 (e2 (e1 s))"
  let ?rd = "map_read C (contended_map l sch)"
  note defs = open_or_create_structure_def open_structure_def lifecycle_create_def and_then_def map_err_def
    contended_get contended_create b
  from fair good consider
      (found) obj where "memory_view ?s1 l = Some obj" "stored_map C sch l ?s2 \<noteq> None"
    | (race) obj where "memory_view ?s1 l = None" "memory_view ?s2 l = Some obj" "stored_map C sch l ?s3 \<noteq> None"
    | (absent) "memory_view ?s1 l = None" "memory_view ?s2 l = None"
    by (rule race_cases)
  then show ?thesis
  proof cases
    case found
    then obtain v d where "?rd (?s1, [e2, e3]) = (Ok (v, d), (?s2, [e3]))" using contended_map_read by blast
    with found show ?thesis by (simp add: defs)
  next
    case race
    then obtain v d where "?rd (?s2, [e3]) = (Ok (v, d), (?s3, []))" using contended_map_read by blast
    with race show ?thesis by (simp add: defs)
  next
    case absent
    then show ?thesis by (simp add: defs)
  qed
qed


text \<open>Another client that wins the race: it creates the map just before this client's \<open>create\<close>.\<close>

definition race_winner :: "State \<Rightarrow> State" where
  "race_winner s =
     (case memory_view s (map_loc ''prod'' ''users'') of
        Some _ \<Rightarrow> s
      | None \<Rightarrow> snd (MapBuilder_create sample_map_serde (memory_map_builder ''prod'' ''users'' ''user-v1'') s))"

lemma stored_map_present: "stored_map C sch l s \<noteq> None \<Longrightarrow> \<exists>obj. memory_view s l = Some obj"
  by (auto simp: stored_map_def memory_view_def split: option.splits)

lemma race_winner_fair:
  "fair (map_loc ''prod'' ''users'') (\<lambda>s. stored_map sample_map_serde ''user-v1'' (map_loc ''prod'' ''users'') s \<noteq> None) race_winner"
  unfolding fair_def
proof (intro allI conjI impI)
  fix s
  let ?l = "map_loc ''prod'' ''users''"
  assume none: "memory_view s ?l = None"
  have "is_path_segment ''prod''" "is_path_segment ''users''" "''user-v1'' \<noteq> []" by code_simp+
  from map_create_spec [OF sample_map_serde_ok this, of s] none
  show "memory_view (race_winner s) ?l = None \<or> stored_map sample_map_serde ''user-v1'' ?l (race_winner s) \<noteq> None"
    unfolding race_winner_def memory_view_def by (auto split: option.splits)
next
  fix s
  let ?l = "map_loc ''prod'' ''users''"
  assume "stored_map sample_map_serde ''user-v1'' ?l s \<noteq> None"
  with stored_map_present [OF this]
  show "stored_map sample_map_serde ''user-v1'' ?l (race_winner s) \<noteq> None" by (auto simp: race_winner_def)
qed

lemma fair_id: "fair l good id"
  by (simp add: fair_def)


section \<open>Queues\<close>

abbreviation contended_queue :: "Location \<Rightarrow> string \<Rightarrow> 'c \<Rightarrow> (State \<times> (State \<Rightarrow> State) list, Infallible, 'c) Queue" where
  "contended_queue l sch c \<equiv>
     \<lparr>queue_store = contended memory_store, queue_location = l, queue_schema = sch, queue_clock = c\<rparr>"

lemma contended_queue_read:
  assumes "stored_queue C sch l (e s) \<noteq> None"
  shows "\<exists>v d. queue_read C (contended_queue l sch c) (s, e # es) = (Ok (v, d), (e s, es))"
proof -
  obtain obj d where obj: "memory_view (e s) l = Some obj" "qs_from_slice C (obj_bytes obj) = Ok d" "queue_valid sch d"
    using assms by (auto simp: stored_queue_eq_Some stored_doc_eq_Some queue_decode_eq_Ok)
  from obj(2,3) have "(queue_decode C sch (obj_bytes obj) :: (_, Infallible) QueueError + _) = Ok d"
    by (simp add: queue_decode_eq_Ok)
  then show ?thesis using obj(1) by (simp add: queue_read_eq contended_get)
qed


definition queue_race_winner :: "State \<Rightarrow> State" where
  "queue_race_winner s =
     (case (memory_view s (queue_loc ''prod'' ''jobs''),
            queue_empty_bytes sample_queue_serde (memory_queue (queue_loc ''prod'' ''jobs'') ''job-v1'' ())) of
        (None, Ok b) \<Rightarrow> memory_put (queue_loc ''prod'' ''jobs'') b s
      | _ \<Rightarrow> s)"

lemma stored_queue_present: "stored_queue C sch l s \<noteq> None \<Longrightarrow> \<exists>obj. memory_view s l = Some obj"
  by (auto simp: stored_queue_def memory_view_def split: option.splits)

lemma queue_race_winner_fair:
  "fair (queue_loc ''prod'' ''jobs'') (\<lambda>s. stored_queue sample_queue_serde ''job-v1'' (queue_loc ''prod'' ''jobs'') s \<noteq> None)
     queue_race_winner"
proof -
  define l where "l = queue_loc ''prod'' ''jobs''"
  obtain b where b: "queue_empty_bytes sample_queue_serde (memory_queue l ''job-v1'' ()) = Ok b"
    using queue_empty_encodes [OF sample_queue_serde_ok] by blast
  have w: "queue_race_winner s = (case memory_view s l of None \<Rightarrow> memory_put l b s | Some _ \<Rightarrow> s)" for s
    unfolding queue_race_winner_def l_def [symmetric] b by (simp split: option.splits)
  show ?thesis
    unfolding fair_def w l_def [symmetric]
    using queue_empty_stored [OF sample_queue_serde_ok b] by (auto dest: stored_queue_present split: option.splits)
qed


end
