(* ===== verification/Retry.thy ===== *)
theory Retry
  imports Lifecycle_Race
begin

text \<open>
  The bounded retry that the documentation of the crate \<open>objsds\<close> gives its callers
  (\<open>insert_with_limit\<close>), while other clients act before every request. Each attempt reads a new
  snapshot, so an attempt fails only if others changed the map between its read and its write.
\<close>

section \<open>The loop\<close>

text \<open>A failed assertion or \<open>expect\<close> is a panic.\<close>

datatype 'x failure = Panicked string | Failed 'x

fun insert_attempts ::
  "('v, 'j) map_serde \<Rightarrow> ('s, 'e) Map \<Rightarrow> string \<Rightarrow> 'v \<Rightarrow> nat \<Rightarrow> ConflictError option
   \<Rightarrow> ('s, ('j, 'e) Error failure, Version) comp" where
  "insert_attempts C m key value 0 last_conflict s =
     (case last_conflict of
        Some conflict \<Rightarrow> (Err (Failed (Error_Conflict conflict)), s)
      | None \<Rightarrow> (Err (Panicked ''at least one attempt was made''), s))"
| "insert_attempts C m key value (Suc n) last_conflict s =
     (case map_insert C m key value s of
        (Ok version, t) \<Rightarrow> (Ok version, t)
      | (Err (Error_Conflict conflict), t) \<Rightarrow> insert_attempts C m key value n (Some conflict) t
      | (Err error, t) \<Rightarrow> (Err (Failed error), t))"

definition insert_with_limit ::
  "('v, 'j) map_serde \<Rightarrow> ('s, 'e) Map \<Rightarrow> string \<Rightarrow> 'v \<Rightarrow> nat \<Rightarrow> ('s, ('j, 'e) Error failure, Version) comp" where
  "insert_with_limit C m key value max_attempts =
     (if max_attempts > 0 then insert_attempts C m key value max_attempts None
      else err (Panicked ''assertion failed: max_attempts > 0''))"

section \<open>Other clients\<close>

fun acts :: "('s \<Rightarrow> 's) list \<Rightarrow> 's \<Rightarrow> 's" where
  "acts [] s = s"
| "acts (e # es) s = acts es (e s)"

lemma acts_append: "acts (xs @ ys) s = acts ys (acts xs s)"
  by (induction xs arbitrary: s) auto

lemma others_acts: "others (s, es) = (acts (take 1 es) s, drop 1 es)"
  by (cases es) auto

text \<open>An action that leaves the object at \<open>l\<close> as it is.\<close>

definition leaves :: "Location \<Rightarrow> (State \<Rightarrow> State) \<Rightarrow> bool" where
  "leaves l e \<longleftrightarrow> (\<forall>s. memory_view (e s) l = memory_view s l)"

text \<open>The others keep a map at \<open>l\<close> and, as clients of the store, never give a version twice.\<close>

definition honest :: "('v, 'j) map_serde \<Rightarrow> string \<Rightarrow> Location \<Rightarrow> (State \<Rightarrow> State) \<Rightarrow> bool" where
  "honest C sch l e \<longleftrightarrow> (\<forall>s. memory_vinv s \<longrightarrow> memory_vinv (e s) \<and>
     (\<forall>obj. memory_snap s l obj \<longrightarrow> memory_snap (e s) l obj) \<and>
     (stored_map C sch l s \<noteq> None \<longrightarrow> stored_map C sch l (e s) \<noteq> None))"

lemma honest_acts:
  assumes "list_all (honest C sch l) es" "memory_vinv s"
  shows "memory_vinv (acts es s)" "memory_snap s l obj \<Longrightarrow> memory_snap (acts es s) l obj"
    "stored_map C sch l s \<noteq> None \<Longrightarrow> stored_map C sch l (acts es s) \<noteq> None"
proof -
  have "memory_vinv (acts es s) \<and> (memory_snap s l obj \<longrightarrow> memory_snap (acts es s) l obj) \<and>
      (stored_map C sch l s \<noteq> None \<longrightarrow> stored_map C sch l (acts es s) \<noteq> None)"
    using assms by (induction es arbitrary: s) (auto simp: honest_def)
  then show "memory_vinv (acts es s)" "memory_snap s l obj \<Longrightarrow> memory_snap (acts es s) l obj"
    "stored_map C sch l s \<noteq> None \<Longrightarrow> stored_map C sch l (acts es s) \<noteq> None" by blast+
qed

lemma leaves_acts: "list_all (leaves l) es \<Longrightarrow> memory_view (acts es s) l = memory_view s l"
  by (induction es arbitrary: s) (auto simp: leaves_def)

lemma honest_part: "list_all P es \<Longrightarrow> list_all P (take n es)" "list_all P es \<Longrightarrow> list_all P (drop n es)"
  by (auto simp: list_all_iff dest: in_set_takeD in_set_dropD)

section \<open>One attempt\<close>

text \<open>The two requests of an attempt, each after what the others do next.\<close>

lemma contended_requests:
  "os_get (contended memory_store) l (s, es) = (Ok (memory_view (acts (take 1 es) s) l), (acts (take 1 es) s, drop 1 es))"
  "os_replace (contended memory_store) l v b (s, es) =
     (case memory_replace l v b (acts (take 1 es) s) of (r, t) \<Rightarrow> (r, (t, drop 1 es)))"
  by (simp_all add: contended_def after_others_def others_acts memory_get_def memory_view_def)

lemma memory_replace_cases:
  obtains obj where "memory_view s l = Some obj" "obj_version obj = v"
    "memory_replace l v b s = (Ok (Version (show_word (st_next_version s + 1))), memory_put l b s)"
  | "memory_replace l v b s = (Err (Replace_Conflict (map_option obj_version (memory_view s l))), s)"
    "map_option obj_version (memory_view s l) \<noteq> Some v"
  by (cases "memory_view s l")
    (auto simp: memory_replace_def memory_view_def memory_put_def State_version_def Let_def split: if_splits)

lemma contended_insert:
  assumes C: "map_serde_ok C" and s: "memory_vinv s" "stored_map C sch l s \<noteq> None"
    and es: "list_all (honest C sch l) es" and u: "u = acts (take 2 es) s"
  shows "memory_vinv u \<and> stored_map C sch l u \<noteq> None \<and>
    ((\<exists>v M b. map_insert C (contended_map l sch) key x (s, es) = (Ok v, (memory_put l b u, drop 2 es)) \<and>
        stored_map C sch l u = Some M \<and> stored_map C sch l (memory_put l b u) = Some (fmupd key x M)) \<or>
     (\<exists>c. map_insert C (contended_map l sch) key x (s, es) = (Err (Error_Conflict c), (u, drop 2 es)) \<and>
        \<not> list_all (leaves l) (take 2 es)))"
proof -
  let ?s1 = "acts (take 1 es) s" and ?es1 = "drop 1 es"
  have two: "take 2 es = take 1 es @ take 1 ?es1" "drop 2 es = drop 1 ?es1"
    by (simp_all add: numeral_2_eq_2 take_Suc drop_Suc split: list.splits) (cases es; simp)+
  have u1: "u = acts (take 1 ?es1) ?s1" unfolding u two(1) acts_append ..
  note h1 = honest_acts [OF honest_part(1) [OF es, of 1] s(1)]
  note h2 = honest_acts [OF honest_part(1) [OF honest_part(2) [OF es, of 1], of 1] h1(1)]
  obtain obj d where obj: "memory_view ?s1 l = Some obj" "ms_from_slice C (obj_bytes obj) = Ok d" "map_valid sch d"
    using h1(3) [OF s(2)] by (auto simp: stored_map_eq_Some stored_doc_eq_Some map_decode_eq_Ok)
  let ?d = "d\<lparr>md_entries := fmupd key x (md_entries d)\<rparr>"
  obtain b where b: "ms_to_vec C ?d = Ok b" "ms_from_slice C b = Ok ?d"
    using C by (auto simp: map_serde_ok_def)
  have run: "map_insert C (contended_map l sch) key x (s, es) =
      (case memory_replace l (obj_version obj) b u of
         (Err (Replace_Conflict ob), t) \<Rightarrow> (Err (map_conflict (obj_version obj) ob), (t, drop 2 es))
       | (Err (Replace_Store e), t) \<Rightarrow> (Err (Error_Store \<lparr>se_source = e\<rparr>), (t, drop 2 es))
       | (Ok v, t) \<Rightarrow> (Ok v, (t, drop 2 es)))"
  proof -
    have "map_read C (contended_map l sch) (s, es) = (Ok (obj_version obj, d), (?s1, ?es1))"
      by (simp only: map_read_eq contended_requests obj(1)) (simp add: map_decode_eq_Ok [THEN iffD2, OF conjI, OF obj(2,3)])
    moreover have "map_write C (contended_map l sch) (obj_version obj) ?d (?s1, ?es1) =
      (case memory_replace l (obj_version obj) b u of
         (Err (Replace_Conflict ob), t) \<Rightarrow> (Err (map_conflict (obj_version obj) ob), (t, drop 2 es))
       | (Err (Replace_Store e), t) \<Rightarrow> (Err (Error_Store \<lparr>se_source = e\<rparr>), (t, drop 2 es))
       | (Ok v, t) \<Rightarrow> (Ok v, (t, drop 2 es)))"
      by (simp only: map_write_eq contended_requests two(2) u1 [symmetric])
        (simp add: map_encode_def b(1) map_error_def split: prod.splits sum.splits ReplaceError.splits)
    ultimately show ?thesis unfolding map_insert_def and_then_def by simp
  qed
  have inv: "memory_vinv u" "stored_map C sch l u \<noteq> None" "memory_snap u l obj"
    using h2(1) h2(3) [OF h1(3) [OF s(2)]] h2(2) [OF memv.snap_view [OF h1(1) obj(1)]] unfolding u1 by blast+
  show ?thesis
  proof (rule memory_replace_cases [of u l "obj_version obj" b])
    fix obj'
    assume r: "memory_view u l = Some obj'" "obj_version obj' = obj_version obj"
      "memory_replace l (obj_version obj) b u = (Ok (Version (show_word (st_next_version u + 1))), memory_put l b u)"
    have "obj' = obj" using memory_snap_agree [OF inv(3) r(1,2)] .
    then have "stored_map C sch l u = Some (md_entries d)"
      using r(1) obj by (simp add: stored_map_def memory_view_def)
    moreover have "stored_map C sch l (memory_put l b u) = Some (fmupd key x (md_entries d))"
      using b(2) obj(3) by (simp add: stored_map_def memory_put_lookup map_valid_def)
    ultimately show ?thesis using inv run r(3) by auto
  next
    assume r: "memory_replace l (obj_version obj) b u = (Err (Replace_Conflict (map_option obj_version (memory_view u l))), u)"
      "map_option obj_version (memory_view u l) \<noteq> Some (obj_version obj)"
    then have "memory_view u l \<noteq> memory_view ?s1 l" using obj(1) by auto
    then have "\<not> list_all (leaves l) (take 2 es)"
      using leaves_acts [of l "take 1 ?es1" ?s1] u1 unfolding two(1) by auto
    with inv run r(1) show ?thesis by auto
  qed
qed

section \<open>The loop under contention\<close>

lemma insert_attempts_contended:
  assumes C: "map_serde_ok C"
  shows "memory_vinv s \<Longrightarrow> stored_map C sch l s \<noteq> None \<Longrightarrow> list_all (honest C sch l) es \<Longrightarrow> 0 < n \<or> lc \<noteq> None \<Longrightarrow>
    \<exists>k \<le> 2 * n.
      (\<exists>v M b. insert_attempts C (contended_map l sch) key x n lc (s, es) =
          (Ok v, (memory_put l b (acts (take k es) s), drop k es)) \<and>
        stored_map C sch l (acts (take k es) s) = Some M \<and>
        stored_map C sch l (memory_put l b (acts (take k es) s)) = Some (fmupd key x M)) \<or>
      (\<exists>c. insert_attempts C (contended_map l sch) key x n lc (s, es) =
          (Err (Failed (Error_Conflict c)), (acts (take k es) s, drop k es)) \<and>
        n \<le> length (filter (\<lambda>e. \<not> leaves l e) (take k es)))"
proof (induction n arbitrary: s es lc)
  case 0
  then show ?case by (auto split: option.splits)
next
  case (Suc n)
  define u where "u = acts (take 2 es) s"
  note attempt = contended_insert [OF C Suc.prems(1-3) u_def, where key = key and x = x]
  from attempt consider
      (ok) v M b where "map_insert C (contended_map l sch) key x (s, es) = (Ok v, (memory_put l b u, drop 2 es))"
        "stored_map C sch l u = Some M" "stored_map C sch l (memory_put l b u) = Some (fmupd key x M)"
    | (conflict) c where "map_insert C (contended_map l sch) key x (s, es) = (Err (Error_Conflict c), (u, drop 2 es))"
        "\<not> list_all (leaves l) (take 2 es)"
    by blast
  then show ?case
  proof cases
    case ok
    then show ?thesis unfolding u_def by (intro exI [of _ 2]) auto
  next
    case conflict
    let ?run = "insert_attempts C (contended_map l sch) key x n (Some c) (u, drop 2 es)"
    have run: "insert_attempts C (contended_map l sch) key x (Suc n) lc (s, es) = ?run" using conflict(1) by simp
    have part: "acts (take k (drop 2 es)) u = acts (take (2 + k) es) s" "drop k (drop 2 es) = drop (2 + k) es" for k
      unfolding u_def take_add acts_append by (simp_all add: ac_simps)
    have count: "Suc m \<le> length (filter (\<lambda>e. \<not> leaves l e) (take (2 + k) es))"
      if "m \<le> length (filter (\<lambda>e. \<not> leaves l e) (take k (drop 2 es)))" for m k
    proof -
      have "filter (\<lambda>e. \<not> leaves l e) (take 2 es) \<noteq> []"
        using conflict(2) by (auto simp: filter_empty_conv list_all_iff)
      then have "1 \<le> length (filter (\<lambda>e. \<not> leaves l e) (take 2 es))" by (simp add: Suc_le_eq)
      then show ?thesis unfolding take_add filter_append length_append using that by simp
    qed
    have u: "memory_vinv u" "stored_map C sch l u \<noteq> None" using attempt by blast+
    from Suc.IH [OF u honest_part(2) [OF Suc.prems(3), of 2] disjI2 [OF option.distinct(2) [of c]]]
    obtain k where k: "k \<le> 2 * n" "(\<exists>v M b. ?run = (Ok v, (memory_put l b (acts (take (2 + k) es) s), drop (2 + k) es)) \<and>
        stored_map C sch l (acts (take (2 + k) es) s) = Some M \<and>
        stored_map C sch l (memory_put l b (acts (take (2 + k) es) s)) = Some (fmupd key x M)) \<or>
      (\<exists>c. ?run = (Err (Failed (Error_Conflict c)), (acts (take (2 + k) es) s, drop (2 + k) es)) \<and>
        n \<le> length (filter (\<lambda>e. \<not> leaves l e) (take k (drop 2 es))))"
      unfolding part by blast
    then show ?thesis unfolding run using count [of n k] by (intro exI [of _ "2 + k"]) auto
  qed
qed


text \<open>Another client that inserts an entry of its own.\<close>

definition rival :: "Location \<Rightarrow> State \<Rightarrow> State" where
  "rival l s =
     (if memory_mintable s
      then snd (map_insert sample_map_serde (memory_map l ''user-v1'') ''rival'' ''r'' s) else s)"

lemma memory_insert_state:
  assumes "map_insert C (memory_map l sch) k x s = (r, t)"
  shows "t = s \<or> (\<exists>b. t = memory_put l b s)"
  using assms unfolding map_insert_def
  by (auto simp: and_then_def map_read_eq map_write_eq memory_get_def
      split: prod.splits sum.splits option.splits ReplaceError.splits dest!: memory_replace_state)

lemma rival_honest: "honest sample_map_serde ''user-v1'' l (rival l)"
  unfolding honest_def
proof (intro allI impI conjI)
  fix s obj
  assume s: "memory_vinv s"
  have st: "rival l s = s \<or> memory_mintable s \<and> (\<exists>b. rival l s = memory_put l b s)"
    using memory_insert_state [of sample_map_serde l "''user-v1''" "''rival''" "''r''" s "fst (map_insert sample_map_serde (memory_map l ''user-v1'') ''rival'' ''r'' s)" "rival l s"]
    by (auto simp: rival_def)
  then show "memory_vinv (rival l s)" "memory_snap s l obj \<Longrightarrow> memory_snap (rival l s) l obj"
    using s memory_vinv_put memory_snap_put by metis+
  assume "stored_map sample_map_serde ''user-v1'' l s \<noteq> None"
  then obtain d where d: "map_doc sample_map_serde ''user-v1'' l s = Some d" by (auto simp: stored_map_eq_Some)
  from map_commit [OF sample_map_serde_ok d, of "map_insert_step ''rival'' ''r''" "fmupd ''rival'' ''r''" id]
  show "stored_map sample_map_serde ''user-v1'' l (rival l s) \<noteq> None"
    using d by (auto simp: rival_def map_insert_transact map_insert_step_def stored_map_eq_Some)
qed


end
