(* ===== verification/Test_Harness.thy ===== *)
theory Test_Harness
  imports Store_Interface
begin

text \<open>
  What the tests of the repository use of the standard library: panics as errors, \<open>expect\<close>,
  \<open>expect_err\<close>, \<open>assert!\<close> and \<open>matches!\<close>. A panic of \<open>expect\<close> keeps its message; the error text that
  Rust appends to it is left out.
\<close>

datatype panic = Expect string | Assertion

definition expect :: "string \<Rightarrow> ('s, 'e, 'a) comp \<Rightarrow> ('s, panic, 'a) comp" where
  "expect msg = map_err (\<lambda>_. Expect msg)"

definition expect_some :: "string \<Rightarrow> 'a option \<Rightarrow> ('s, panic, 'a) comp" where
  "expect_some msg x = lift_result (ok_or (Expect msg) x)"

definition assert_that :: "bool \<Rightarrow> ('s, panic, unit) comp" where
  "assert_that b = (if b then ok () else err Assertion)"

text \<open>The result of an operation as a value, for \<open>matches!\<close>.\<close>

definition attempt :: "('s, 'e, 'a) comp \<Rightarrow> ('s, panic, 'e + 'a) comp" where
  "attempt c s = (case c s of (r, t) \<Rightarrow> (Ok r, t))"

definition expect_err :: "string \<Rightarrow> ('s, 'e, 'a) comp \<Rightarrow> ('s, panic, 'e) comp" where
  "expect_err msg c = and_then (attempt c) (\<lambda>r. case r of Ok _ \<Rightarrow> err (Expect msg) | Err e \<Rightarrow> ok e)"

text \<open>A byte string literal.\<close>

definition byte_str :: "string \<Rightarrow> bytes" where
  "byte_str cs = map of_char cs"

lemma test_rules:
  "c s = (Ok x, t) \<Longrightarrow> expect msg c s = (Ok x, t)"
  "c s = (r, t) \<Longrightarrow> attempt c s = (Ok r, t)"
  "c s = (Err e, t) \<Longrightarrow> expect_err msg c s = (Ok e, t)"
  by (simp_all add: expect_def attempt_def expect_err_def map_err_def and_then_def ok_def)

lemma test_simps [simp]: "expect_some msg (Some x) s = (Ok x, s)" "assert_that True s = (Ok (), s)"
  by (simp_all add: expect_some_def assert_that_def ok_def lift_result_def ok_or_def)

end
