(* ===== verification/Queue_Tests.thy ===== *)
theory Queue_Tests
  imports Test_Harness Queue_Lifecycle
begin

text \<open>
  The unit tests of \<open>objsds-queue\<close> (\<open>mod tests\<close> of \<open>lib.rs\<close>) as programs over the model. A test is its
  result: \<open>Ok ()\<close>, or the panic it ends with. \<open>u n\<close> is the n-th identifier that \<open>Uuid::now_v7()\<close> returns in
  the test. A \<open>ManualClock\<close> and its clones share one cell, which is the second part of the state of a
  test. The tests are shown to pass for every encoding that round-trips and for every increasing
  sequence of identifiers.
\<close>

section \<open>Clock, durations, and the queue under test\<close>

datatype ManualClock = ManualClock

definition ManualClock_now_millis :: "u64 \<Rightarrow> ManualClock \<Rightarrow> u64" where
  "ManualClock_now_millis cell _ = cell"

definition ManualClock_set :: "u64 \<Rightarrow> ('s \<times> u64, panic, unit) comp" where
  "ManualClock_set now s = (Ok (), (fst s, now))"

definition Duration_from_millis :: "nat \<Rightarrow> Duration" where
  "Duration_from_millis n = \<lparr>dur_secs = of_nat (n div 1000), dur_nanos = of_nat (n mod 1000 * 1000000)\<rparr>"

definition Duration_from_secs :: "u64 \<Rightarrow> Duration" where
  "Duration_from_secs n = \<lparr>dur_secs = n, dur_nanos = 0\<rparr>"

definition Duration_from_nanos :: "nat \<Rightarrow> Duration" where
  "Duration_from_nanos n = \<lparr>dur_secs = of_nat (n div 1000000000), dur_nanos = of_nat (n mod 1000000000)\<rparr>"

text \<open>An operation on the store, and one that reads the clock, in a test with a clock.\<close>

definition on_store :: "('s, 'e, 'a) comp \<Rightarrow> ('s \<times> u64, 'e, 'a) comp" where
  "on_store c s = (case c (fst s) of (r, t) \<Rightarrow> (r, (t, snd s)))"

definition on_clock :: "((ManualClock \<Rightarrow> u64) \<Rightarrow> ('s, 'e, 'a) comp) \<Rightarrow> ('s \<times> u64, 'e, 'a) comp" where
  "on_clock f s = on_store (f (ManualClock_now_millis (snd s))) s"

text \<open>\<open>MemoryStore::default()\<close> is the initial state, \<open>State_default\<close>; the test queue is created in it.\<close>

definition test_queue ::
  "(string, 'j) queue_serde \<Rightarrow> ManualClock \<Rightarrow> (State, panic, (State, Infallible, ManualClock) Queue) comp" where
  "test_queue C clock =
     expect ''queue should be created''
       (QueueBuilder_create C
         (QueueBuilder_clock clock (QueueBuilder_schema ''job-v1'' (QueueBuilder_new memory_store ''tests'' ''jobs''))))"

section \<open>The tests\<close>

definition publish_claim_and_ack_removes_message :: "(string, 'j) queue_serde \<Rightarrow> (nat \<Rightarrow> uuid) \<Rightarrow> panic + unit" where
  "publish_claim_and_ack_removes_message C u =
     fst (and_then (on_store (test_queue C ManualClock)) (\<lambda>q.
     and_then (expect ''publish should succeed'' (on_store (queue_publish C q (u 0) ''work''))) (\<lambda>i.
     and_then (expect ''claim should succeed'' (on_clock (\<lambda>now. queue_claim C q now (u 1) (Duration_from_millis 100)))) (\<lambda>found.
     and_then (expect_some ''message should be available'' found) (\<lambda>claim.
     and_then (assert_that (cl_id claim = i)) (\<lambda>_.
     and_then (assert_that (cl_value claim = ''work'')) (\<lambda>_.
     and_then (assert_that (cl_attempt claim = 1)) (\<lambda>_.
     and_then (expect ''ack should succeed'' (on_clock (\<lambda>now. queue_ack C q now i (cl_lease_token claim)))) (\<lambda>a.
     and_then (assert_that (a = Acknowledged)) (\<lambda>_.
     and_then (expect ''read should succeed'' (on_store (queue_is_empty C q))) (\<lambda>e.
     assert_that e)))))))))) (State_default, 1000))"

text \<open>The claim that finds no message draws no token; its argument is not used.\<close>

definition lease_expiry_reclaims_with_new_token_and_attempt :: "(string, 'j) queue_serde \<Rightarrow> (nat \<Rightarrow> uuid) \<Rightarrow> panic + unit" where
  "lease_expiry_reclaims_with_new_token_and_attempt C u =
     fst (and_then (on_store (test_queue C ManualClock)) (\<lambda>q.
     and_then (expect ''publish should succeed'' (on_store (queue_publish C q (u 0) ''work''))) (\<lambda>i.
     and_then (expect ''claim should succeed'' (on_clock (\<lambda>now. queue_claim C q now (u 1) (Duration_from_millis 100)))) (\<lambda>found.
     and_then (expect_some ''message should be available'' found) (\<lambda>first.
     and_then (expect ''claim should succeed'' (on_clock (\<lambda>now. queue_claim C q now (u 2) (Duration_from_millis 100)))) (\<lambda>found.
     and_then (assert_that (found = None)) (\<lambda>_.
     and_then (ManualClock_set 1100) (\<lambda>_.
     and_then (expect ''ack should be classified'' (on_clock (\<lambda>now. queue_ack C q now i (cl_lease_token first)))) (\<lambda>a.
     and_then (assert_that (a = LeaseExpired)) (\<lambda>_.
     and_then (expect ''reclaim should succeed'' (on_clock (\<lambda>now. queue_claim C q now (u 2) (Duration_from_millis 100)))) (\<lambda>found.
     and_then (expect_some ''expired message should be available'' found) (\<lambda>second.
     and_then (assert_that (cl_id second = i)) (\<lambda>_.
     and_then (assert_that (cl_attempt second = 2)) (\<lambda>_.
     and_then (assert_that (cl_lease_token second \<noteq> cl_lease_token first)) (\<lambda>_.
     and_then (expect ''stale ack should be classified'' (on_clock (\<lambda>now. queue_ack C q now i (cl_lease_token first)))) (\<lambda>a.
     and_then (assert_that (a = LeaseMismatch)) (\<lambda>_.
     and_then (expect ''ack should succeed'' (on_clock (\<lambda>now. queue_ack C q now i (cl_lease_token second)))) (\<lambda>a.
     assert_that (a = Acknowledged)))))))))))))))))) (State_default, 1000))"

definition claims_available_messages_in_publish_order :: "(string, 'j) queue_serde \<Rightarrow> (nat \<Rightarrow> uuid) \<Rightarrow> panic + unit" where
  "claims_available_messages_in_publish_order C u =
     fst (and_then (on_store (test_queue C ManualClock)) (\<lambda>q.
     and_then (expect ''publish should succeed'' (on_store (queue_publish C q (u 0) ''first''))) (\<lambda>first.
     and_then (expect ''publish should succeed'' (on_store (queue_publish C q (u 1) ''second''))) (\<lambda>second.
     and_then (expect ''claim should succeed'' (on_clock (\<lambda>now. queue_claim C q now (u 2) (Duration_from_secs 1)))) (\<lambda>found.
     and_then (expect_some ''first message should exist'' found) (\<lambda>first_claim.
     and_then (expect ''claim should succeed'' (on_clock (\<lambda>now. queue_claim C q now (u 3) (Duration_from_secs 1)))) (\<lambda>found.
     and_then (expect_some ''second message should exist'' found) (\<lambda>second_claim.
     assert_that ((cl_id first_claim, cl_id second_claim) = (first, second))))))))) (State_default, 1000))"

definition rejects_zero_and_sub_millisecond_leases :: "(string, 'j) queue_serde \<Rightarrow> (nat \<Rightarrow> uuid) \<Rightarrow> panic + unit" where
  "rejects_zero_and_sub_millisecond_leases C u =
     fst (and_then (on_store (test_queue C ManualClock)) (\<lambda>q.
     and_then (attempt (on_clock (\<lambda>now. queue_claim C q now (u 0) Duration_default))) (\<lambda>r.
     and_then (assert_that (r = Err Q_InvalidLeaseDuration)) (\<lambda>_.
     and_then (attempt (on_clock (\<lambda>now. queue_claim C q now (u 0) (Duration_from_nanos 1)))) (\<lambda>r.
     assert_that (r = Err Q_InvalidLeaseDuration))))) (State_default, 1000))"

definition ack_classifies_missing_and_unclaimed_messages :: "(string, 'j) queue_serde \<Rightarrow> (nat \<Rightarrow> uuid) \<Rightarrow> panic + unit" where
  "ack_classifies_missing_and_unclaimed_messages C u =
     fst (and_then (on_store (test_queue C ManualClock)) (\<lambda>q.
     let token = LeaseToken 0 in
     and_then (expect ''ack should be classified'' (on_clock (\<lambda>now. queue_ack C q now (MessageId 0) token))) (\<lambda>a.
     and_then (assert_that (a = Ack_NotFound)) (\<lambda>_.
     and_then (expect ''publish should succeed'' (on_store (queue_publish C q (u 0) ''work''))) (\<lambda>i.
     and_then (expect ''ack should be classified'' (on_clock (\<lambda>now. queue_ack C q now i token))) (\<lambda>a.
     assert_that (a = LeaseMismatch)))))) (State_default, 1000))"

text \<open>\<open>FailReplaceOnce\<close>: a store whose next replacement is refused when the flag is set.\<close>

definition fail_replace_once :: "(State \<times> bool, Infallible) object_store" where
  "fail_replace_once =
     \<lparr>os_get = (\<lambda>l (s, fail_next). case memory_get l s of (r, t) \<Rightarrow> (r, (t, fail_next))),
      os_create = (\<lambda>l b (s, fail_next). case memory_create l b s of (r, t) \<Rightarrow> (r, (t, fail_next))),
      os_replace = (\<lambda>l x b (s, fail_next).
        if fail_next
        then (case memory_get l s of
            (Ok found, t) \<Rightarrow> (Err (Replace_Conflict (map_option obj_version found)), (t, False))
          | (Err e, t) \<Rightarrow> (Err (Replace_Store e), (t, False)))
        else (case memory_replace l x b s of (r, t) \<Rightarrow> (r, (t, False))))\<rparr>"

definition publish_conflict_leaves_queue_unchanged :: "(string, 'j) queue_serde \<Rightarrow> (nat \<Rightarrow> uuid) \<Rightarrow> panic + unit" where
  "publish_conflict_leaves_queue_unchanged C u =
     fst (and_then (expect ''queue should be created'' (QueueBuilder_create C
       (QueueBuilder_schema ''job-v1'' (QueueBuilder_new fail_replace_once ''tests'' ''jobs'')))) (\<lambda>q.
     and_then (\<lambda>(s, _). (Ok (), (s, True))) (\<lambda>_.
     and_then (attempt (queue_publish C q (u 0) ''work'')) (\<lambda>r.
     and_then (assert_that (case r of Err (Q_Conflict _ _) \<Rightarrow> True | _ \<Rightarrow> False)) (\<lambda>_.
     and_then (expect ''read should succeed'' (queue_is_empty C q)) (\<lambda>e.
     assert_that e))))) (State_default, False))"

definition open_validates_existing_queue_and_schema :: "(string, 'j) queue_serde \<Rightarrow> panic + unit" where
  "open_validates_existing_queue_and_schema C =
     fst (and_then (expect ''queue should be created'' (QueueBuilder_create C
       (QueueBuilder_schema ''job-v1'' (QueueBuilder_new memory_store ''tests'' ''jobs'')))) (\<lambda>_.
     and_then (expect ''existing queue should open'' (QueueBuilder_open C
       (QueueBuilder_schema ''job-v1'' (QueueBuilder_new memory_store ''tests'' ''jobs'')))) (\<lambda>_.
     and_then (attempt (QueueBuilder_open C
       (QueueBuilder_schema ''job-v2'' (QueueBuilder_new memory_store ''tests'' ''jobs'')))) (\<lambda>r.
     and_then (assert_that (case r of Err (Q_Incompatible _) \<Rightarrow> True | _ \<Rightarrow> False)) (\<lambda>_.
     and_then (attempt (QueueBuilder_open C
       (QueueBuilder_schema ''job-v1'' (QueueBuilder_new memory_store ''tests'' ''missing'')))) (\<lambda>r.
     assert_that (case r of Err Q_NotFound \<Rightarrow> True | _ \<Rightarrow> False)))))) State_default)"

definition open_or_create_is_idempotent :: "(string, 'j) queue_serde \<Rightarrow> (nat \<Rightarrow> uuid) \<Rightarrow> panic + unit" where
  "open_or_create_is_idempotent C u =
     fst (and_then (expect ''queue should be created'' (QueueBuilder_open_or_create C
       (QueueBuilder_schema ''job-v1'' (QueueBuilder_new memory_store ''tests'' ''jobs'')))) (\<lambda>created.
     and_then (expect ''publish should succeed'' (queue_publish C created (u 0) ''work'')) (\<lambda>_.
     and_then (expect ''existing queue should open'' (QueueBuilder_open_or_create C
       (QueueBuilder_schema ''job-v1'' (QueueBuilder_new memory_store ''tests'' ''jobs'')))) (\<lambda>opened.
     and_then (expect ''read should succeed'' (queue_len C opened)) (\<lambda>n.
     assert_that (n = 1))))) State_default)"

section \<open>They pass\<close>

definition increasing :: "(nat \<Rightarrow> uuid) \<Rightarrow> bool" where
  "increasing u \<longleftrightarrow> u 0 < u 1 \<and> u 1 < u 2 \<and> u 2 < u 3"

lemma increasing_distinct: "increasing u \<Longrightarrow> u 2 \<noteq> u (Suc 0)" "increasing u \<Longrightarrow> \<not> u (Suc 0) \<le> u 0" "increasing u \<Longrightarrow> u 0 \<noteq> u (Suc 0)"
    "increasing u \<Longrightarrow> u (Suc 0) \<noteq> u 0"
  by (auto simp: increasing_def)

definition tests_loc :: Location where
  "tests_loc = queue_loc ''tests'' ''jobs''"

lemma tests_loc_eq: "Location ''tests/queues/jobs.json'' = tests_loc"
  by (simp add: tests_loc_def)

lemma on_rules:
  "c s = (r, t) \<Longrightarrow> on_store c (s, now) = (r, (t, now))"
  "f (\<lambda>_. now) s = (r, t) \<Longrightarrow> on_clock f (s, now) = (r, (t, now))"
  by (simp_all add: on_store_def on_clock_def ManualClock_now_millis_def [abs_def])

lemma tests_finish:
  "QueueBuilder_finish (QueueBuilder_schema ''job-v1'' (QueueBuilder_new S ''tests'' ''jobs'')) =
     Ok \<lparr>queue_store = S, queue_location = tests_loc, queue_schema = ''job-v1'', queue_clock = SystemClock\<rparr>"
  "QueueBuilder_finish (QueueBuilder_schema ''job-v2'' (QueueBuilder_new S ''tests'' ''jobs'')) =
     Ok \<lparr>queue_store = S, queue_location = tests_loc, queue_schema = ''job-v2'', queue_clock = SystemClock\<rparr>"
  "QueueBuilder_finish (QueueBuilder_schema ''job-v1'' (QueueBuilder_new S ''tests'' ''missing'')) =
     Ok \<lparr>queue_store = S, queue_location = queue_loc ''tests'' ''missing'', queue_schema = ''job-v1'', queue_clock = SystemClock\<rparr>"
  by (simp_all add: QueueBuilder_finish_def QueueBuilder_schema_def QueueBuilder_new_def is_path_segment_def Location_structure_segments tests_loc_def)

lemma test_queue_created:
  fixes C :: "(string, 'j) queue_serde"
  assumes "queue_serde_ok C"
  shows "\<exists>st. test_queue C clock State_default = (Ok (memory_queue tests_loc ''job-v1'' clock), st) \<and>
    stored_queue C ''job-v1'' tests_loc st = Some []"
proof -
  have seg: "is_path_segment ''tests''" "is_path_segment ''jobs''" by (simp_all add: is_path_segment_def)
  obtain b where b: "(queue_empty_bytes C (memory_queue tests_loc ''job-v1'' clock) :: ('j, Infallible) QueueError + _) = Ok b"
    using queue_empty_encodes [OF assms] by blast
  have "test_queue C clock State_default = (Ok (memory_queue tests_loc ''job-v1'' clock), memory_put tests_loc b State_default)"
    using seg b
    by (simp add: test_queue_def expect_def QueueBuilder_create_def QueueBuilder_finish_memory and_then_def
        memory_create_absent State_default_def map_err_def tests_loc_eq)
  with queue_empty_stored [OF assms b] show ?thesis by blast
qed

lemma durations [simp]:
  "lease_deadline 1000 (Duration_from_millis 100) = Ok 1100" "lease_deadline 1100 (Duration_from_millis 100) = Ok 1200"
  "lease_deadline 1000 (Duration_from_secs 1) = Ok 2000"
  "lease_deadline now Duration_default = Err Q_InvalidLeaseDuration"
  "lease_deadline now (Duration_from_nanos 1) = Err Q_InvalidLeaseDuration"
  by (simp_all add: lease_deadline_def lease_millis_def as_millis_def u64_try_from_def Duration_from_millis_def Duration_from_secs_def
      Duration_from_nanos_def Duration_default_def checked_add_def ok_or_def)

lemma exec_ops:
  "queue_exec C q (QOp_publish w v) s = (Ok (QR_published i), t) \<longleftrightarrow> queue_publish C q w v s = (Ok i, t)"
  "queue_exec C q (QOp_claim now w dur) s = (Ok (QR_claimed c), t) \<longleftrightarrow> queue_claim C q (\<lambda>_. now) w dur s = (Ok c, t)"
  "queue_exec C q (QOp_ack now j token) s = (Ok (QR_ack a), t) \<longleftrightarrow> queue_ack C q (\<lambda>_. now) j token s = (Ok a, t)"
  "queue_exec C q QOp_len s = (Ok (QR_len n), t) \<longleftrightarrow> queue_len C q s = (Ok n, t)"
  "queue_exec C q QOp_is_empty s = (Ok (QR_empty e), t) \<longleftrightarrow> queue_is_empty C q s = (Ok e, t)"
  by (auto simp: and_then_def split: prod.splits sum.splits)

text \<open>
  A test passes if its next operation answers as the abstract queue does and the rest passes from
  a state that stores the new messages.
\<close>

abbreviation stores :: "(string, 'j) queue_serde \<Rightarrow> State \<Rightarrow> string Message list \<Rightarrow> bool" where
  "stores C s ms \<equiv> stored_queue C ''job-v1'' tests_loc s = Some ms"

abbreviation tests_queue :: "'c \<Rightarrow> (State, Infallible, 'c) Queue" where
  "tests_queue c \<equiv> memory_queue tests_loc ''job-v1'' c"

lemma test_step:
  fixes C :: "(string, 'j) queue_serde"
  assumes "queue_serde_ok C" "stores C s ms" "fresh_messages [x] ms"
    and "message_exec x ms = (r :: ('j, Infallible) QueueError + string queue_reply, ms')"
  shows "\<exists>t. queue_exec C (tests_queue c) x s = (r, t) \<and> stores C t ms'"
  using queue_exec_simulates [OF assms(1-3), of c] assms(4) unfolding simulates_def by auto

lemma then_Ok: "m s = (Ok x, t) \<Longrightarrow> fst (k x t) = r \<Longrightarrow> fst (and_then m k s) = r"
  by (simp add: and_then_def)

lemma start:
  assumes "queue_serde_ok C" "\<And>s. stores C s [] \<Longrightarrow> fst (k (tests_queue ManualClock) (s, 1000)) = Ok ()"
  shows "fst (and_then (on_store (test_queue C ManualClock)) k (State_default, 1000)) = Ok ()"
proof -
  from test_queue_created [OF assms(1), of ManualClock] obtain s
    where s: "test_queue C ManualClock State_default = (Ok (tests_queue ManualClock), s)" "stores C s []" by (elim exE conjE)
  show ?thesis by (rule then_Ok) (rule on_rules(1), rule s(1), rule assms(2) [OF s(2)])
qed

lemma step_publish:
  fixes C :: "(string, 'j) queue_serde"
  assumes "stores C s ms" "queue_serde_ok C" "MessageId w \<notin> msg_id ` set ms"
    and "\<And>t. stores C t (insort_key msg_id (new_message (MessageId w) v) ms) \<Longrightarrow> fst (k (MessageId w) (t, now)) = Ok ()"
  shows "fst (and_then (expect msg (on_store (queue_publish C (tests_queue c) w v))) k (s, now)) = Ok ()"
proof -
  have "fresh_messages [QOp_publish w v] ms" using assms(3) by (simp add: fresh_messages_def)
  from test_step [OF assms(2,1) this message_exec.simps(1), of c] obtain t
    where t: "queue_exec C (tests_queue c) (QOp_publish w v) s = (Ok (QR_published (MessageId w)), t)"
      "stores C t (insort_key msg_id (new_message (MessageId w) v) ms)" by (elim exE conjE)
  show ?thesis
    by (rule then_Ok) (rule test_rules(1), rule on_rules(1), rule t(1) [unfolded exec_ops], rule assms(4) [OF t(2)])
qed

lemma step_claim:
  fixes C :: "(string, 'j) queue_serde"
  assumes "stores C s ms" "queue_serde_ok C"
    and "message_exec (QOp_claim now w dur) ms = (Ok (QR_claimed x) :: ('j, Infallible) QueueError + _, ms')"
    and "\<And>t. stores C t ms' \<Longrightarrow> fst (k x (t, now)) = Ok ()"
  shows "fst (and_then (expect msg (on_clock (\<lambda>n. queue_claim C (tests_queue ManualClock) n w dur))) k (s, now)) = Ok ()"
proof -
  have "fresh_messages [QOp_claim now w dur] ms" by (simp add: fresh_messages_def)
  from test_step [OF assms(2,1) this assms(3), of ManualClock] obtain t
    where t: "queue_exec C (tests_queue ManualClock) (QOp_claim now w dur) s = (Ok (QR_claimed x), t)" "stores C t ms'" by (elim exE conjE)
  show ?thesis
    by (rule then_Ok) (rule test_rules(1), rule on_rules(2), rule t(1) [unfolded exec_ops], rule assms(4) [OF t(2)])
qed

lemma step_ack:
  fixes C :: "(string, 'j) queue_serde"
  assumes "stores C s ms" "queue_serde_ok C"
    and "message_exec (QOp_ack now i token) ms = (Ok (QR_ack a) :: ('j, Infallible) QueueError + _, ms')"
    and "\<And>t. stores C t ms' \<Longrightarrow> fst (k a (t, now)) = Ok ()"
  shows "fst (and_then (expect msg (on_clock (\<lambda>n. queue_ack C (tests_queue ManualClock) n i token))) k (s, now)) = Ok ()"
proof -
  have "fresh_messages [QOp_ack now i token] ms" by (simp add: fresh_messages_def)
  from test_step [OF assms(2,1) this assms(3), of ManualClock] obtain t
    where t: "queue_exec C (tests_queue ManualClock) (QOp_ack now i token) s = (Ok (QR_ack a), t)" "stores C t ms'" by (elim exE conjE)
  show ?thesis
    by (rule then_Ok) (rule test_rules(1), rule on_rules(2), rule t(1) [unfolded exec_ops], rule assms(4) [OF t(2)])
qed

lemma step_is_empty:
  fixes C :: "(string, 'j) queue_serde"
  assumes "stores C s ms" "queue_serde_ok C" "\<And>t. fst (k (ms = []) (t, now)) = Ok ()"
  shows "fst (and_then (expect msg (on_store (queue_is_empty C (tests_queue c)))) k (s, now)) = Ok ()"
proof -
  have "fresh_messages [QOp_is_empty] ms" by (simp add: fresh_messages_def)
  from test_step [OF assms(2,1) this message_exec.simps(5), of c] obtain t
    where t: "queue_exec C (tests_queue c) QOp_is_empty s = (Ok (QR_empty (ms = [])), t)" "stores C t ms" by (elim exE conjE)
  show ?thesis
    by (rule then_Ok) (rule test_rules(1), rule on_rules(1), rule t(1) [unfolded exec_ops], rule assms(3))
qed

lemma step_assert: "b \<Longrightarrow> fst (k () s) = Ok () \<Longrightarrow> fst (and_then (assert_that b) k s) = Ok ()"
  by (simp add: and_then_def)

lemma step_some: "fst (k x s) = Ok () \<Longrightarrow> fst (and_then (expect_some msg (Some x)) k s) = Ok ()"
  by (simp add: and_then_def)

lemma step_set: "fst (k () (s, now')) = Ok () \<Longrightarrow> fst (and_then (ManualClock_set now') k (s, now)) = Ok ()"
  by (simp add: and_then_def ManualClock_set_def)

lemma step_last: "b \<Longrightarrow> fst (assert_that b s) = Ok ()"
  by simp

lemmas message_run_simps = available_def checked_add_def lease_message_def claim_of_def

lemma publish_claim_and_ack_passes:
  assumes C: "queue_serde_ok C"
  shows "publish_claim_and_ack_removes_message C u = Ok ()"
  unfolding publish_claim_and_ack_removes_message_def
  apply (rule start [OF C])
  apply (erule step_publish [OF _ C], simp)
  apply (erule step_claim [OF _ C], simp add: message_run_simps)
  apply (intro step_some step_assert; simp)
  apply (erule step_ack [OF _ C], simp)
  apply (rule step_assert, simp)
  apply (erule step_is_empty [OF _ C])
  apply (rule step_last, simp)
  done

lemma lease_expiry_passes:
  assumes C: "queue_serde_ok C" and u: "increasing u"
  shows "lease_expiry_reclaims_with_new_token_and_attempt C u = Ok ()"
  unfolding lease_expiry_reclaims_with_new_token_and_attempt_def
  apply (rule start [OF C])
  apply (erule step_publish [OF _ C], simp)
  apply (erule step_claim [OF _ C], simp add: message_run_simps)
  apply (rule step_some)
  apply (erule step_claim [OF _ C], simp add: message_run_simps)
  apply (rule step_assert, simp)
  apply (rule step_set)
  apply (erule step_ack [OF _ C], simp)
  apply (rule step_assert, simp)
  apply (erule step_claim [OF _ C], simp add: message_run_simps)
  apply (rule step_some)
  apply (rule step_assert, simp)
  apply (rule step_assert, simp)
  apply (rule step_assert, simp add: increasing_distinct [OF u])
  apply (erule step_ack [OF _ C], simp add: increasing_distinct [OF u])
  apply (rule step_assert, simp)
  apply (erule step_ack [OF _ C], simp)
  apply (rule step_last, simp)
  done

lemma publish_order_passes:
  assumes C: "queue_serde_ok C" and u: "increasing u"
  shows "claims_available_messages_in_publish_order C u = Ok ()"
  unfolding claims_available_messages_in_publish_order_def
  apply (rule start [OF C])
  apply (erule step_publish [OF _ C], simp)
  apply (erule step_publish [OF _ C], use increasing_distinct [OF u] in simp)
  apply (erule step_claim [OF _ C], simp add: message_run_simps less_eq_MessageId_def increasing_distinct [OF u])
  apply (rule step_some)
  apply (erule step_claim [OF _ C], simp add: message_run_simps increasing_distinct [OF u])
  apply (rule step_some)
  apply (rule step_last, simp)
  done

lemma ack_classifies_passes:
  assumes C: "queue_serde_ok C"
  shows "ack_classifies_missing_and_unclaimed_messages C u = Ok ()"
  unfolding ack_classifies_missing_and_unclaimed_messages_def Let_def
  apply (rule start [OF C])
  apply (erule step_ack [OF _ C], simp)
  apply (rule step_assert, simp)
  apply (erule step_publish [OF _ C], simp)
  apply (erule step_ack [OF _ C], simp)
  apply (rule step_last, simp)
  done

lemma rejects_leases_passes:
  assumes C: "queue_serde_ok C"
  shows "rejects_zero_and_sub_millisecond_leases C u = Ok ()"
proof -
  have claim: "queue_claim C q (\<lambda>_. now) w dur s = (Err Q_InvalidLeaseDuration, s)"
    if "\<And>now. lease_deadline now dur = (Err Q_InvalidLeaseDuration :: ('a, Infallible) QueueError + u64)"
    for q :: "(State, Infallible, ManualClock) Queue" and now w dur s
    using that by (simp add: queue_claim_transact and_then_def)
  have step: "fst (k (Err Q_InvalidLeaseDuration) (s, now)) = Ok () \<Longrightarrow>
      fst (and_then (attempt (on_clock (\<lambda>n. queue_claim C q n w dur))) k (s, now)) = Ok ()"
    if "\<And>now. lease_deadline now dur = (Err Q_InvalidLeaseDuration :: ('a, Infallible) QueueError + u64)"
    for q :: "(State, Infallible, ManualClock) Queue" and k s now w dur
    by (rule then_Ok, rule test_rules(2), rule on_rules(2), rule claim [OF that])
  show ?thesis
    unfolding rejects_zero_and_sub_millisecond_leases_def
    by (rule start [OF C], rule step [OF durations(4)], rule step_assert, simp, rule step [OF durations(5)], rule step_last, simp)
qed

section \<open>The tests of the builder and of conflicts\<close>

lemma empty_document:
  fixes C :: "(string, 'j) queue_serde"
  assumes "queue_serde_ok C"
  obtains b where "\<And>q :: ('s, 'e, 'c) Queue. queue_schema q = ''job-v1'' \<Longrightarrow> queue_empty_bytes C q = Ok b"
    "qs_from_slice C b = Ok \<lparr>qd_format_version = QUEUE_FORMAT_VERSION, qd_kind = QUEUE_KIND, qd_schema = ''job-v1'', qd_messages = []\<rparr>"
  using assms unfolding queue_serde_ok_def queue_empty_bytes_def by (metis map_error_simps)

lemma lookup_put_default:
  "fmlookup (st_objects (memory_put l b State_default)) l' =
     (if l' = l then Some \<lparr>obj_bytes = b, obj_version = Version (show_word (1 :: u64))\<rparr> else None)"
  using memory_put_view [of l b State_default] by (simp add: memory_view_def State_default_def)

lemma missing_loc: "queue_loc ''tests'' ''missing'' \<noteq> tests_loc"
  by (simp add: tests_loc_def)

lemmas builder_steps = QueueBuilder_create_def QueueBuilder_open_def QueueBuilder_open_or_create_def tests_finish and_then_def
  map_err_def queue_read_eq queue_decode_def memory_get_def lookup_put_default

lemma open_validates_passes:
  fixes C :: "(string, 'j) queue_serde"
  assumes C: "queue_serde_ok C"
  shows "open_validates_existing_queue_and_schema C = Ok ()"
proof -
  obtain b where b: "\<And>q :: (State, Infallible, SystemClock) Queue. queue_schema q = ''job-v1'' \<Longrightarrow> queue_empty_bytes C q = Ok b"
    "qs_from_slice C b = Ok \<lparr>qd_format_version = QUEUE_FORMAT_VERSION, qd_kind = QUEUE_KIND, qd_schema = ''job-v1'', qd_messages = []\<rparr>"
    using empty_document [OF C] by metis
  let ?s = "memory_put tests_loc b State_default"
  have absent: "fmlookup (st_objects State_default) tests_loc = None" by (simp add: State_default_def)
  show ?thesis
    unfolding open_validates_existing_queue_and_schema_def
    apply (rule then_Ok [where t = ?s], rule test_rules(1))
     apply (simp add: builder_steps b(1) memory_create_absent [OF absent])
    apply (rule then_Ok [where t = ?s], rule test_rules(1))
     apply (simp add: builder_steps b(2))
    apply (rule then_Ok [where t = ?s], rule test_rules(2))
     apply (simp add: builder_steps b(2))
    apply (rule step_assert, simp)
    apply (rule then_Ok [where t = ?s], rule test_rules(2))
     apply (simp add: builder_steps missing_loc [simplified])
    apply (rule step_last, simp)
    done
qed

lemma open_or_create_passes:
  fixes C :: "(string, 'j) queue_serde"
  assumes C: "queue_serde_ok C"
  shows "open_or_create_is_idempotent C u = Ok ()"
proof -
  obtain b where b: "\<And>q :: (State, Infallible, SystemClock) Queue. queue_schema q = ''job-v1'' \<Longrightarrow> queue_empty_bytes C q = Ok b"
    "qs_from_slice C b = Ok \<lparr>qd_format_version = QUEUE_FORMAT_VERSION, qd_kind = QUEUE_KIND, qd_schema = ''job-v1'', qd_messages = []\<rparr>"
    using empty_document [OF C] by metis
  let ?s = "memory_put tests_loc b State_default" and ?q = "tests_queue SystemClock"
  have absent: "fmlookup (st_objects State_default) tests_loc = None" by (simp add: State_default_def)
  have "stores C ?s []" using b(2) by (simp add: stored_queue_def lookup_put_default queue_valid_def)
  moreover have "fresh_messages [QOp_publish (u 0) ''work''] []" by (simp add: fresh_messages_def)
  ultimately obtain s1 where s1: "queue_exec C ?q (QOp_publish (u 0) ''work'') ?s = (Ok (QR_published (MessageId (u 0))), s1)"
      "stores C s1 (insort_key msg_id (new_message (MessageId (u 0)) ''work'') [])"
    using test_step [OF C _ _ message_exec.simps(1), of ?s "[]" "u 0" "''work''" SystemClock] by (elim meta_impE exE conjE)
  then obtain obj d where obj: "fmlookup (st_objects s1) tests_loc = Some obj" "qs_from_slice C (obj_bytes obj) = Ok d"
      "queue_valid ''job-v1'' d" "qd_messages d = [new_message (MessageId (u 0)) ''work'']"
    by (auto simp: stored_queue_def split: option.splits sum.splits if_splits)
  have "(queue_decode C ''job-v1'' (obj_bytes obj) :: ('j, Infallible) QueueError + _) = Ok d"
    using obj(2,3) by (simp add: queue_decode_eq_Ok)
  with obj(1) have read: "queue_read C ?q s1 = (Ok (obj_version obj, d), s1)" by (simp add: queue_read_eq memory_get_def)
  show ?thesis
    unfolding open_or_create_is_idempotent_def
    apply (rule then_Ok [where t = ?s and x = ?q], rule test_rules(1))
     apply (simp add: builder_steps b(1) absent memory_create_absent [OF absent])
    apply (rule then_Ok, rule test_rules(1), rule s1(1) [unfolded exec_ops])
    apply (rule then_Ok [where t = s1 and x = ?q], rule test_rules(1))
     apply (simp add: QueueBuilder_open_or_create_def tests_finish and_then_def map_err_def memory_get_def obj(1) read)
    apply (rule then_Ok [where t = s1 and x = 1], rule test_rules(1))
     apply (simp add: queue_len_def and_then_def read obj(4))
    apply (rule step_last, simp)
    done
qed

lemma publish_conflict_passes:
  fixes C :: "(string, 'j) queue_serde"
  assumes C: "queue_serde_ok C"
  shows "publish_conflict_leaves_queue_unchanged C u = Ok ()"
proof -
  obtain b where b: "\<And>q :: (State \<times> bool, Infallible, SystemClock) Queue. queue_schema q = ''job-v1'' \<Longrightarrow> queue_empty_bytes C q = Ok b"
    "qs_from_slice C b = Ok \<lparr>qd_format_version = QUEUE_FORMAT_VERSION, qd_kind = QUEUE_KIND, qd_schema = ''job-v1'', qd_messages = []\<rparr>"
    using empty_document [OF C] by metis
  obtain b' where b': "qs_to_vec C \<lparr>qd_format_version = QUEUE_FORMAT_VERSION, qd_kind = QUEUE_KIND, qd_schema = ''job-v1'',
      qd_messages = [new_message (MessageId (u 0)) ''work'']\<rparr> = Ok b'"
    using C by (auto simp: queue_serde_ok_def)
  let ?s = "memory_put tests_loc b State_default"
  let ?q = "\<lparr>queue_store = fail_replace_once, queue_location = tests_loc, queue_schema = ''job-v1'', queue_clock = SystemClock\<rparr>"
  have absent: "fmlookup (st_objects State_default) tests_loc = None" by (simp add: State_default_def)
  have read: "queue_read C ?q (?s, f) = (Ok (Version (show_word (1 :: u64)), \<lparr>qd_format_version = QUEUE_FORMAT_VERSION,
      qd_kind = QUEUE_KIND, qd_schema = ''job-v1'', qd_messages = []\<rparr>), (?s, f))" for f
    by (simp add: queue_read_eq fail_replace_once_def memory_get_def lookup_put_default queue_decode_def b(2))
  have refused: "os_replace fail_replace_once tests_loc v x (?s, True) =
      (Err (Replace_Conflict (Some (Version (show_word (1 :: u64))))), (?s, False))" for v x
    by (simp add: fail_replace_once_def memory_get_def lookup_put_default)
  show ?thesis
    unfolding publish_conflict_leaves_queue_unchanged_def
    apply (rule then_Ok [where t = "(?s, False)" and x = ?q], rule test_rules(1))
     apply (simp add: QueueBuilder_create_def tests_finish and_then_def map_err_def b(1) fail_replace_once_def memory_create_absent [OF absent])
    apply (rule then_Ok [where t = "(?s, True)" and x = "()"], simp)
    apply (rule then_Ok [where t = "(?s, False)"], rule test_rules(2))
     apply (simp add: queue_publish_transact transact_def and_then_def read queue_publish_step_def with_messages_def sorted_insert_def
        queue_swap_eq queue_encode_def b' refused)
    apply (rule step_assert, simp)
    apply (rule then_Ok [where x = True], rule test_rules(1))
     apply (simp add: queue_is_empty_def queue_len_def and_then_def read)
    apply (rule step_last, simp)
    done
qed

text \<open>
  C28: the unit tests of the queue pass, with every encoding of documents that round-trips and all
  increasing sequences of identifiers: publication, claim and acknowledgement empty the queue;
  an expired lease is claimed again under a new token and the next attempt number while the old token
  is refused; claims come in publication order; a refused write leaves the queue as it was; opening
  checks schema and existence; opening or creating twice keeps the messages; leases below one
  millisecond are rejected; acknowledgements of missing and unclaimed messages are classified.
\<close>

theorem queue_unit_tests_pass:
  assumes "queue_serde_ok C" "increasing u"
  shows "publish_claim_and_ack_removes_message C u = Ok () \<and>
    lease_expiry_reclaims_with_new_token_and_attempt C u = Ok () \<and>
    claims_available_messages_in_publish_order C u = Ok () \<and>
    publish_conflict_leaves_queue_unchanged C u = Ok () \<and>
    open_validates_existing_queue_and_schema C = Ok () \<and>
    open_or_create_is_idempotent C u = Ok () \<and>
    rejects_zero_and_sub_millisecond_leases C u = Ok () \<and>
    ack_classifies_missing_and_unclaimed_messages C u = Ok ()"
  using publish_claim_and_ack_passes lease_expiry_passes publish_order_passes publish_conflict_passes open_validates_passes
    open_or_create_passes rejects_leases_passes ack_classifies_passes assms by (intro conjI)

theorem queue_unit_tests_pass_witness:
  "lease_expiry_reclaims_with_new_token_and_attempt sample_queue_serde (\<lambda>n. of_nat n) = Ok () \<and>
   claims_available_messages_in_publish_order sample_queue_serde (\<lambda>n. of_nat n) = Ok ()"
proof -
  have "increasing (\<lambda>n. of_nat n)" by (simp add: increasing_def)
  from queue_unit_tests_pass [OF sample_queue_serde_ok this] show ?thesis by (intro conjI) blast+
qed

end
