(* ===== verification/S3_Store.thy ===== *)
theory S3_Store
  imports Document_Structure
begin

text \<open>
  The crate \<open>objsds-store-s3\<close>: configuration, credentials, errors, the builder and the store's
  three operations. The crate \<open>s3_client\<close> and the service behind it are parameters: \<open>s3_setup\<close>
  is what the builder calls to make a client, \<open>s3_requests\<close> the requests of a client, over the
  state \<open>'s\<close> of the service. \<open>s3_service_ok\<close> states what S3 documents of conditional writes;
  it leaves other clients free to act before a read is answered. \<open>s3_undisturbed\<close> adds that
  nobody acts in the middle of one operation.
\<close>

section \<open>Configuration and credentials\<close>

datatype Credentials =
    Default
  | Static (access_key_id: string) (secret_access_key: string) (session_token: "string option")

record S3Config =
  cfg_bucket :: string
  cfg_region :: string
  cfg_endpoint :: "string option"
  cfg_credentials :: Credentials
  cfg_path_style :: bool

definition Credentials_new :: "string \<Rightarrow> string \<Rightarrow> Credentials" where
  "Credentials_new k s = Static k s None"

definition Credentials_with_session_token :: "Credentials \<Rightarrow> string \<Rightarrow> Credentials" where
  "Credentials_with_session_token c token =
     (case c of Static k s _ \<Rightarrow> Static k s (Some token) | Default \<Rightarrow> Default)"

text \<open>
  The derived and the hand-written \<open>Debug\<close> output. \<open>debug_str\<close> is \<open>Debug for str\<close>: quotes around the
  text with the standard escapes; characters beyond ASCII are printed as they are.
\<close>

definition hex_lower :: "nat \<Rightarrow> string" where
  "hex_lower n = (let d = (\<lambda>k. if k < 10 then char_of (48 + k) else char_of (87 + k))
     in if n < 16 then [d n] else [d (n div 16), d (n mod 16)])"

definition debug_char :: "char \<Rightarrow> string" where
  "debug_char c =
     (let n = of_char c :: nat; backslash = char_of (92 :: nat)
      in if n = 34 \<or> n = 92 then [backslash, c]
         else if n = 9 then [backslash, CHR ''t'']
         else if n = 10 then [backslash, CHR ''n'']
         else if n = 13 then [backslash, CHR ''r'']
         else if n = 0 then [backslash, CHR ''0'']
         else if n < 32 \<or> n = 127 then backslash # ''u{'' @ hex_lower n @ ''}''
         else [c])"

definition debug_str :: "string \<Rightarrow> string" where
  "debug_str s = [char_of (34 :: nat)] @ concat (map debug_char s) @ [char_of (34 :: nat)]"

definition debug_option :: "('a \<Rightarrow> string) \<Rightarrow> 'a option \<Rightarrow> string" where
  "debug_option d x = (case x of None \<Rightarrow> ''None'' | Some y \<Rightarrow> ''Some('' @ d y @ '')'')"

definition debug_Credentials :: "Credentials \<Rightarrow> string" where
  "debug_Credentials c =
     (case c of
        Default \<Rightarrow> ''Default''
      | Static key secret token \<Rightarrow>
          ''Static { access_key_id: '' @ debug_str key @
          '', secret_access_key: '' @ debug_str ''[REDACTED]'' @
          '', session_token: '' @ debug_option debug_str (map_option (\<lambda>_. ''[REDACTED]'') token) @ '' }'')"

definition debug_S3Config :: "S3Config \<Rightarrow> string" where
  "debug_S3Config c =
     ''S3Config { bucket: '' @ debug_str (cfg_bucket c) @ '', region: '' @ debug_str (cfg_region c) @
     '', endpoint: '' @ debug_option debug_str (cfg_endpoint c) @
     '', credentials: '' @ debug_Credentials (cfg_credentials c) @
     '', path_style: '' @ (if cfg_path_style c then ''true'' else ''false'') @ '' }''"

section \<open>Errors\<close>

datatype 'x S3BuildError = S3B_MissingBucket | S3B_MissingRegion | S3B_InvalidRegion | S3B_Transport 'x

datatype 'x S3StoreError = S3S_Transport 'x | S3S_MissingEtag

fun display_S3BuildError :: "('x \<Rightarrow> string) \<Rightarrow> 'x S3BuildError \<Rightarrow> string" where
  "display_S3BuildError dx S3B_MissingBucket = ''missing S3 bucket''"
| "display_S3BuildError dx S3B_MissingRegion = ''missing S3 region''"
| "display_S3BuildError dx S3B_InvalidRegion = ''invalid S3 region''"
| "display_S3BuildError dx (S3B_Transport e) = ''could not configure S3 transport: '' @ dx e"

fun source_S3BuildError :: "'x S3BuildError \<Rightarrow> 'x option" where
  "source_S3BuildError (S3B_Transport e) = Some e"
| "source_S3BuildError _ = None"

definition S3BuildError_from :: "'x \<Rightarrow> 'x S3BuildError" where
  "S3BuildError_from e = S3B_Transport e"

fun display_S3StoreError :: "('x \<Rightarrow> string) \<Rightarrow> 'x S3StoreError \<Rightarrow> string" where
  "display_S3StoreError dx (S3S_Transport e) = ''S3 request failed: '' @ dx e"
| "display_S3StoreError dx S3S_MissingEtag = ''S3 response did not contain an ETag''"

fun source_S3StoreError :: "'x S3StoreError \<Rightarrow> 'x option" where
  "source_S3StoreError (S3S_Transport e) = Some e"
| "source_S3StoreError S3S_MissingEtag = None"

definition S3StoreError_from :: "'x \<Rightarrow> 'x S3StoreError" where
  "S3StoreError_from e = S3S_Transport e"

section \<open>The client library\<close>

datatype AddressingStyle = Path | Auto

text \<open>What the builder uses of \<open>s3_client\<close>: credentials, authentication and the client builder.\<close>

record ('x, 'cr, 'au, 'b, 'c) s3_setup =
  su_from_env :: "'x + 'au"
  su_credentials :: "string \<Rightarrow> string \<Rightarrow> 'x + 'cr"
  su_with_session_token :: "'cr \<Rightarrow> string \<Rightarrow> 'x + 'cr"
  su_static :: "'cr \<Rightarrow> 'au"
  su_builder :: "string \<Rightarrow> 'x + 'b"
  su_region :: "'b \<Rightarrow> string \<Rightarrow> 'b"
  su_auth :: "'b \<Rightarrow> 'au \<Rightarrow> 'b"
  su_addressing_style :: "'b \<Rightarrow> AddressingStyle \<Rightarrow> 'b"
  su_build :: "'b \<Rightarrow> 'x + 'c"

datatype s3_condition = If_None_Match string | If_Match string

record 'x s3_response =
  rs_etag :: "string option"
  rs_body :: "'x + bytes"

text \<open>
  The requests of a client. The header setters of a \<open>put\<close> may refuse a value; a request changes
  the state of the service.
\<close>

record ('s, 'x) s3_requests =
  rq_status :: "'x \<Rightarrow> nat option"
  rq_condition :: "s3_condition \<Rightarrow> 'x + s3_condition"
  rq_content_type :: "string \<Rightarrow> 'x + string"
  rq_get :: "string \<Rightarrow> string \<Rightarrow> ('s, 'x, 'x s3_response) comp"
  rq_put :: "string \<Rightarrow> string \<Rightarrow> s3_condition \<Rightarrow> string \<Rightarrow> bytes \<Rightarrow> ('s, 'x, string option) comp"

section \<open>The builder\<close>

definition to_auth :: "('x, 'cr, 'au, 'b, 'c) s3_setup \<Rightarrow> Credentials \<Rightarrow> 'x S3BuildError + 'au" where
  "to_auth U c =
     (case c of
        Default \<Rightarrow> map_error S3BuildError_from (su_from_env U)
      | Static k s token \<Rightarrow>
          (case map_error S3BuildError_from (su_credentials U k s) of
             Err e \<Rightarrow> Err e
           | Ok cr \<Rightarrow>
               (case (case token of Some t \<Rightarrow> map_error S3BuildError_from (su_with_session_token U cr t)
                      | None \<Rightarrow> Ok cr) of
                  Err e \<Rightarrow> Err e
                | Ok cr' \<Rightarrow> Ok (su_static U cr'))))"

record S3StoreBuilder =
  s3b_bucket :: "string option"
  s3b_region :: "string option"
  s3b_endpoint :: "string option"
  s3b_credentials :: Credentials
  s3b_path_style :: bool

definition S3StoreBuilder_default :: S3StoreBuilder where
  "S3StoreBuilder_default = \<lparr>s3b_bucket = None, s3b_region = None, s3b_endpoint = None,
     s3b_credentials = Default, s3b_path_style = False\<rparr>"

definition S3StoreBuilder_bucket :: "S3StoreBuilder \<Rightarrow> string \<Rightarrow> S3StoreBuilder" where
  "S3StoreBuilder_bucket b v = b\<lparr>s3b_bucket := Some v\<rparr>"

definition S3StoreBuilder_region :: "S3StoreBuilder \<Rightarrow> string \<Rightarrow> S3StoreBuilder" where
  "S3StoreBuilder_region b v = b\<lparr>s3b_region := Some v\<rparr>"

definition S3StoreBuilder_endpoint :: "S3StoreBuilder \<Rightarrow> string \<Rightarrow> S3StoreBuilder" where
  "S3StoreBuilder_endpoint b v = b\<lparr>s3b_endpoint := Some v\<rparr>"

definition S3StoreBuilder_credentials :: "S3StoreBuilder \<Rightarrow> Credentials \<Rightarrow> S3StoreBuilder" where
  "S3StoreBuilder_credentials b v = b\<lparr>s3b_credentials := v\<rparr>"

definition S3StoreBuilder_path_style :: "S3StoreBuilder \<Rightarrow> bool \<Rightarrow> S3StoreBuilder" where
  "S3StoreBuilder_path_style b v = b\<lparr>s3b_path_style := v\<rparr>"

record 'c S3Store =
  s3_config :: S3Config
  s3_client :: 'c

definition S3Store_builder :: S3StoreBuilder where
  "S3Store_builder = S3StoreBuilder_default"

definition S3Store_config :: "'c S3Store \<Rightarrow> S3Config" where
  "S3Store_config st = s3_config st"

definition debug_S3Store :: "'c S3Store \<Rightarrow> string" where
  "debug_S3Store st = ''S3Store { config: '' @ debug_S3Config (s3_config st) @ '', .. }''"

definition default_endpoint :: "string \<Rightarrow> string" where
  "default_endpoint region = ''https://s3.'' @ region @ ''.amazonaws.com''"

definition S3StoreBuilder_build ::
  "('x, 'cr, 'au, 'b, 'c) s3_setup \<Rightarrow> S3StoreBuilder \<Rightarrow> 'x S3BuildError + 'c S3Store" where
  "S3StoreBuilder_build U b =
     (case ok_or S3B_MissingBucket (s3b_bucket b) of Err e \<Rightarrow> Err e | Ok bucket \<Rightarrow>
     (case ok_or S3B_MissingRegion (s3b_region b) of Err e \<Rightarrow> Err e | Ok region \<Rightarrow>
     (let config = \<lparr>cfg_bucket = bucket, cfg_region = region, cfg_endpoint = s3b_endpoint b,
            cfg_credentials = s3b_credentials b, cfg_path_style = s3b_path_style b\<rparr>;
          endpoint = (case cfg_endpoint config of Some e \<Rightarrow> e | None \<Rightarrow> default_endpoint (cfg_region config));
          addressing = (if cfg_path_style config then Path else Auto)
      in (case map_error S3BuildError_from (su_builder U endpoint) of Err e \<Rightarrow> Err e | Ok cb \<Rightarrow>
         (case to_auth U (cfg_credentials config) of Err e \<Rightarrow> Err e | Ok auth \<Rightarrow>
         (case map_error S3BuildError_from
             (su_build U (su_addressing_style U (su_auth U (su_region U cb (cfg_region config)) auth) addressing)) of
            Err e \<Rightarrow> Err e
          | Ok client \<Rightarrow> Ok \<lparr>s3_config = config, s3_client = client\<rparr>))))))"

section \<open>The store\<close>

text \<open>\<open>R\<close> are the requests of the store's client.\<close>

definition s3_version :: "string option \<Rightarrow> 'x S3StoreError + Version" where
  "s3_version etag = ok_or S3S_MissingEtag (map_option Version etag)"

definition is_status :: "('s, 'x) s3_requests \<Rightarrow> 'x \<Rightarrow> nat \<Rightarrow> bool" where
  "is_status R e expected = (case rq_status R e of Some status \<Rightarrow> status = expected | None \<Rightarrow> False)"

definition s3_get :: "('s, 'x) s3_requests \<Rightarrow> S3Config \<Rightarrow> Location \<Rightarrow> ('s, 'x S3StoreError, Object option) comp" where
  "s3_get R cfg l s =
     (case rq_get R (cfg_bucket cfg) (loc_str l) s of
        (Err e, t) \<Rightarrow> if is_status R e 404 then (Ok None, t) else (Err (S3StoreError_from e), t)
      | (Ok response, t) \<Rightarrow>
          (case s3_version (rs_etag response) of
             Err e \<Rightarrow> (Err e, t)
           | Ok version \<Rightarrow>
               (case map_error S3StoreError_from (rs_body response) of
                  Err e \<Rightarrow> (Err e, t)
                | Ok bytes \<Rightarrow> (Ok (Some \<lparr>obj_bytes = bytes, obj_version = version\<rparr>), t))))"

definition s3_observed :: "('s, 'x) s3_requests \<Rightarrow> S3Config \<Rightarrow> Location \<Rightarrow> ('s, 'x S3StoreError, Version option) comp" where
  "s3_observed R cfg l = and_then (s3_get R cfg l) (\<lambda>object. ok (map_option obj_version object))"

text \<open>The conditional \<open>put\<close> of both writes: the two headers, then the request.\<close>

definition s3_put ::
  "('s, 'x) s3_requests \<Rightarrow> ('x \<Rightarrow> 'f) \<Rightarrow> S3Config \<Rightarrow> Location \<Rightarrow> s3_condition \<Rightarrow> bytes \<Rightarrow> ('s, 'f, 'x + string option) comp" where
  "s3_put R wrap cfg l cond bs =
     and_then (lift_result (map_error wrap (rq_condition R cond))) (\<lambda>c.
     and_then (lift_result (map_error wrap (rq_content_type R ''application/json''))) (\<lambda>ct s.
       (case rq_put R (cfg_bucket cfg) (loc_str l) c ct bs s of (response, t) \<Rightarrow> (Ok response, t))))"

definition s3_create ::
  "('s, 'x) s3_requests \<Rightarrow> S3Config \<Rightarrow> Location \<Rightarrow> bytes \<Rightarrow> ('s, 'x S3StoreError CreateError, Version) comp" where
  "s3_create R cfg l bs =
     and_then (s3_put R (\<lambda>e. Create_Store (S3StoreError_from e)) cfg l (If_None_Match ''*'') bs) (\<lambda>response.
       (case response of
          Ok etag \<Rightarrow> lift_result (map_error Create_Store (s3_version etag))
        | Err e \<Rightarrow>
            if is_status R e 409 \<or> is_status R e 412
            then and_then (map_err Create_Store (s3_observed R cfg l)) (\<lambda>found.
                 and_then (lift_result (ok_or (Create_Store (S3StoreError_from e)) found)) (\<lambda>observed.
                 err (Create_AlreadyExists observed)))
            else err (Create_Store (S3StoreError_from e))))"

definition s3_replace ::
  "('s, 'x) s3_requests \<Rightarrow> S3Config \<Rightarrow> Location \<Rightarrow> Version \<Rightarrow> bytes \<Rightarrow> ('s, 'x S3StoreError ReplaceError, Version) comp" where
  "s3_replace R cfg l expected bs =
     and_then (s3_put R (\<lambda>e. Replace_Store (S3StoreError_from e)) cfg l (If_Match (version_str expected)) bs) (\<lambda>response.
       (case response of
          Ok etag \<Rightarrow> lift_result (map_error Replace_Store (s3_version etag))
        | Err e \<Rightarrow>
            if is_status R e 404 \<or> is_status R e 409 \<or> is_status R e 412
            then and_then (map_err Replace_Store (s3_observed R cfg l)) (\<lambda>observed.
                 err (Replace_Conflict observed))
            else err (Replace_Store (S3StoreError_from e))))"

definition s3_store :: "('s, 'x) s3_requests \<Rightarrow> S3Config \<Rightarrow> ('s, 'x S3StoreError) object_store" where
  "s3_store R cfg = \<lparr>os_get = s3_get R cfg, os_create = s3_create R cfg, os_replace = s3_replace R cfg\<rparr>"

end
