(* ===== verification/Concurrency.thy ===== *)
theory Concurrency
  imports Document_Structure
begin

text \<open>
  Interleaved clients of one structure. A mutation is two atomic store operations, the read of
  a snapshot and the conditional write computed from it, and between them other clients act, on
  this structure or elsewhere in the store. \<open>cstep\<close> is the step relation of all clients
  together; the locale \<open>concurrent_structure\<close> combines the structure interface with fresh
  version tokens, and shows that the committed updates form one serial history that the stored
  document is the result of: no update is lost.
\<close>

section \<open>Configurations and steps\<close>

text \<open>
  An update maps a document to the document to write, or to nothing when the operation answers
  without writing (\<open>committed\<close> is the update of a step). A client that has read and not yet
  written holds the version of its snapshot, its update and the document to write.
\<close>

definition committed :: "('d \<Rightarrow> ('x, 'a, 'd) outcome) \<Rightarrow> 'd \<Rightarrow> 'd option" where
  "committed f d = (case f d of Commit d' _ \<Rightarrow> Some d' | _ \<Rightarrow> None)"

record ('s, 'c, 'd) conf =
  cf_store :: 's
  cf_pending :: "'c \<Rightarrow> (Version \<times> ('d \<Rightarrow> 'd option) \<times> 'd) option"
  cf_history :: "('c \<times> ('d \<Rightarrow> 'd option)) list"

definition initial_conf :: "'s \<Rightarrow> ('s, 'c, 'd) conf" where
  "initial_conf s = \<lparr>cf_store = s, cf_pending = (\<lambda>_. None), cf_history = []\<rparr>"

text \<open>The document after the updates of a history, one after the other.\<close>

fun serial :: "'d \<Rightarrow> ('c \<times> ('d \<Rightarrow> 'd option)) list \<Rightarrow> 'd option" where
  "serial d [] = Some d"
| "serial d ((_, g) # h) = (case g d of None \<Rightarrow> None | Some d' \<Rightarrow> serial d' h)"

inductive cstep ::
  "('s, 'e) object_store \<Rightarrow> ('s \<Rightarrow> Location \<Rightarrow> Object option) \<Rightarrow> (Location \<Rightarrow> bool) \<Rightarrow> Location \<Rightarrow> ('s \<Rightarrow> bool)
   \<Rightarrow> ('s, 'x, Version \<times> 'd) comp \<Rightarrow> (Version \<Rightarrow> 'd \<Rightarrow> ('s, 'x, Version) comp) \<Rightarrow> ('d \<Rightarrow> 'd option) set
   \<Rightarrow> ('s, 'c, 'd) conf \<Rightarrow> ('s, 'c, 'd) conf \<Rightarrow> bool"
  for S view locs l mintable rd wr U where
  c_read: "cf_pending cf c = None \<Longrightarrow> g \<in> U \<Longrightarrow> rd (cf_store cf) = (Ok (v, d), t) \<Longrightarrow> g d = Some d' \<Longrightarrow>
    cstep S view locs l mintable rd wr U cf
      (cf\<lparr>cf_store := t, cf_pending := (cf_pending cf)(c \<mapsto> (v, g, d'))\<rparr>)"
| c_answer: "rd (cf_store cf) = (r, t) \<Longrightarrow>
    cstep S view locs l mintable rd wr U cf (cf\<lparr>cf_store := t\<rparr>)"
| c_commit: "cf_pending cf c = Some (v, g, d') \<Longrightarrow> mintable (cf_store cf) \<Longrightarrow>
    wr v d' (cf_store cf) = (Ok v', t) \<Longrightarrow>
    cstep S view locs l mintable rd wr U cf
      \<lparr>cf_store = t, cf_pending = (cf_pending cf)(c := None), cf_history = cf_history cf @ [(c, g)]\<rparr>"
| c_fail: "cf_pending cf c = Some (v, g, d') \<Longrightarrow> mintable (cf_store cf) \<Longrightarrow>
    wr v d' (cf_store cf) = (Err x, t) \<Longrightarrow>
    cstep S view locs l mintable rd wr U cf
      \<lparr>cf_store = t, cf_pending = (cf_pending cf)(c := None),
       cf_history = (if view t l = view (cf_store cf) l then cf_history cf else cf_history cf @ [(c, g)])\<rparr>"
| c_get: "locs l' \<Longrightarrow> os_get S l' (cf_store cf) = (rg, t) \<Longrightarrow>
    cstep S view locs l mintable rd wr U cf (cf\<lparr>cf_store := t\<rparr>)"
| c_create: "locs l' \<Longrightarrow> mintable (cf_store cf) \<Longrightarrow> os_create S l' b (cf_store cf) = (rc, t) \<Longrightarrow>
    cstep S view locs l mintable rd wr U cf (cf\<lparr>cf_store := t\<rparr>)"
| c_elsewhere: "locs l' \<Longrightarrow> mintable (cf_store cf) \<Longrightarrow> l' \<noteq> l \<Longrightarrow> os_replace S l' w b (cf_store cf) = (rr, t) \<Longrightarrow>
    cstep S view locs l mintable rd wr U cf (cf\<lparr>cf_store := t\<rparr>)"

inductive_cases cstepE: "cstep S view locs l mintable rd wr U cf cf'"

lemma serial_append: "serial d (h @ [(c, g)]) = (case serial d h of None \<Rightarrow> None | Some d' \<Rightarrow> g d')"
  by (induction d h rule: serial.induct) (auto split: option.splits)

text \<open>One client reads and commits with nobody else acting.\<close>

lemma one_commit:
  assumes "g \<in> U" "rd s = (Ok (v, d), t)" "g d = Some d'" "mintable t" "wr v d' t = (Ok v', t')"
  shows "(cstep S view locs l mintable rd wr U)\<^sup>*\<^sup>* (initial_conf s)
    \<lparr>cf_store = t', cf_pending = (\<lambda>_. None), cf_history = [(c, g)]\<rparr>"
proof -
  let ?cf = "\<lparr>cf_store = t, cf_pending = (\<lambda>_. None)(c \<mapsto> (v, g, d')), cf_history = []\<rparr>"
  have "cstep S view locs l mintable rd wr U (initial_conf s) ?cf"
    using c_read [where cf = "initial_conf s" and c = c and g = g and U = U and rd = rd and v = v and d = d
        and t = t and d' = d' and S = S and view = view and locs = locs and l = l and mintable = mintable and wr = wr]
      assms(1-3) by (simp add: initial_conf_def)
  moreover have "cstep S view locs l mintable rd wr U ?cf
      \<lparr>cf_store = t', cf_pending = (\<lambda>_. None), cf_history = [(c, g)]\<rparr>"
    using c_commit [where cf = ?cf and c = c and v = v and g = g and d' = d' and mintable = mintable and wr = wr
        and v' = v' and t = t' and S = S and view = view and locs = locs and l = l and rd = rd and U = U]
      assms(4,5) by simp
  ultimately show ?thesis by (meson converse_rtranclp_into_rtranclp r_into_rtranclp)
qed

section \<open>Serializability\<close>

locale concurrent_structure =
  document_structure S view inv locs l decode encode valid store_err not_found conflict rd wr +
  versioned_store S view inv locs vinv snap mintable
  for S :: "('s, 'e) object_store" and view inv locs l
    and decode :: "bytes \<Rightarrow> 'x + 'd" and encode valid store_err not_found conflict rd wr
    and vinv snap mintable +
  fixes U :: "('d \<Rightarrow> 'd option) set"
  assumes update_valid: "g \<in> U \<Longrightarrow> valid d \<Longrightarrow> g d = Some d' \<Longrightarrow> valid d'"
begin

text \<open>
  The invariant: the stored document is the serial result of the history, and every pending
  write was computed from a snapshot that is still known to the store.
\<close>

definition snapshot_of :: "'s \<Rightarrow> Version \<Rightarrow> ('d \<Rightarrow> 'd option) \<Rightarrow> 'd \<Rightarrow> bool" where
  "snapshot_of s v g d' \<longleftrightarrow> (\<exists>obj d. snap s l obj \<and> obj_version obj = v \<and>
     decode (obj_bytes obj) = Ok d \<and> g d = Some d' \<and> valid d')"

definition cinv :: "'d \<Rightarrow> ('s, 'c, 'd) conf \<Rightarrow> bool" where
  "cinv d0 cf \<longleftrightarrow> vinv (cf_store cf) \<and>
     (\<exists>d. contents (cf_store cf) = Some d \<and> serial d0 (cf_history cf) = Some d) \<and>
     (\<forall>c v g d'. cf_pending cf c = Some (v, g, d') \<longrightarrow> snapshot_of (cf_store cf) v g d')"

lemma vinv_rd: "vinv s \<Longrightarrow> rd s = (r, t) \<Longrightarrow> vinv t"
  using vinv_get [OF _ loc] by (fastforce simp: read_eq split: prod.splits sum.splits option.splits)

lemma snap_rd: "vinv s \<Longrightarrow> snap s l' obj \<Longrightarrow> rd s = (r, t) \<Longrightarrow> snap t l' obj"
  using snap_get [OF _ _ loc] by (fastforce simp: read_eq split: prod.splits sum.splits option.splits)

lemma vinv_wr: "vinv s \<Longrightarrow> mintable s \<Longrightarrow> wr v d s = (r, t) \<Longrightarrow> vinv t"
  using vinv_replace [OF _ _ loc] by (fastforce simp: write_eq split: prod.splits sum.splits ReplaceError.splits)

lemma snap_wr: "vinv s \<Longrightarrow> mintable s \<Longrightarrow> snap s l' obj \<Longrightarrow> wr v d s = (r, t) \<Longrightarrow> snap t l' obj"
  using snap_replace [OF _ _ _ loc] by (fastforce simp: write_eq split: prod.splits sum.splits ReplaceError.splits)

text \<open>A write that took effect replaced the snapshot it was computed from.\<close>

lemma write_effect:
  assumes rt: "roundtrips valid encode decode"
    and "vinv s" "snapshot_of s v g d'" "wr v d' s = (r, t)"
    and "r = Ok v' \<or> view t l \<noteq> view s l"
  shows "\<exists>d. contents s = Some d \<and> g d = Some d' \<and> contents t = Some d'"
proof -
  obtain obj d where o: "snap s l obj" "obj_version obj = v" "decode (obj_bytes obj) = Ok d"
      "g d = Some d'" "valid d'"
    using assms(3) by (auto simp: snapshot_of_def)
  obtain b where b: "encode d' = Ok b"
    using assms(4,5) by (auto simp: write_eq split: sum.splits)
  have db: "decode b = Ok d'" using rt b o(5) by (auto simp: roundtrips_def)
  obtain r' where r': "os_replace S l v b s = (r', t)"
    using assms(4) b by (auto simp: write_eq split: prod.splits sum.splits ReplaceError.splits)
  note inv = vinv_inv [OF assms(2)]
  have "map_option obj_version (view s l) = Some v \<and>
      (\<exists>v'. view t = (view s)(l \<mapsto> \<lparr>obj_bytes = b, obj_version = v'\<rparr>))"
  proof (cases r')
    case (Inr w)
    then show ?thesis using at_replace_Ok [OF inv] r' by blast
  next
    case (Inl e)
    then have "view t l \<noteq> view s l" using assms(4,5) b r' by (cases e) (auto simp: write_eq)
    then show ?thesis
      using Inl at_replace_Conflict [OF inv, of v b] at_replace_Store [OF inv, of v b] r'
      by (cases e) auto
  qed
  moreover from this have "view s l = Some obj"
    using snap_agree [OF assms(2) o(1)] o(2) by auto
  ultimately show ?thesis using o db by (auto simp: stored_doc_eq_Some)
qed

lemma snapshot_of_keep:
  "(\<And>obj. snap s l obj \<Longrightarrow> snap t l obj) \<Longrightarrow> snapshot_of s v g d' \<Longrightarrow> snapshot_of t v g d'"
  unfolding snapshot_of_def by blast

lemma cinv_initial: "vinv s \<Longrightarrow> contents s = Some d0 \<Longrightarrow> cinv d0 (initial_conf s)"
  by (simp add: cinv_def initial_conf_def)

text \<open>Steps that leave the structure's object alone keep the invariant.\<close>

lemma cinv_frame:
  assumes "cinv d0 cf" "vinv t" "view t l = view (cf_store cf) l"
    and "\<And>obj. snap (cf_store cf) l obj \<Longrightarrow> snap t l obj"
  shows "cinv d0 (cf\<lparr>cf_store := t\<rparr>)"
  using assms(1-3) snapshot_of_keep [OF assms(4), of "cf_store cf"] unfolding cinv_def by simp

lemma cinv_step:
  assumes rt: "roundtrips valid encode decode"
    and step: "cstep S view locs l mintable rd wr U cf cf'" and ci: "cinv d0 cf"
  shows "cinv d0 cf'"
  using step
proof cases
  case (c_read c g v d t d')
  note v = ci [unfolded cinv_def, THEN conjunct1]
  note fr = read_frame [OF vinv_inv [OF v] c_read(4)] 
  have frame: "cinv d0 (cf\<lparr>cf_store := t\<rparr>)"
    by (rule cinv_frame [OF ci vinv_rd [OF v c_read(4)]])
      (use fr snap_rd [OF v _ c_read(4)] in auto)
  obtain obj where obj: "view (cf_store cf) l = Some obj" "obj_version obj = v" "decode (obj_bytes obj) = Ok d"
    using read_OkD(1) [OF vinv_inv [OF v] c_read(4)] by blast
  have "snapshot_of t v g d'"
    using obj snap_rd [OF v snap_view [OF v obj(1)] c_read(4)] c_read(3,5)
      update_valid [OF c_read(3) decode_valid [OF obj(3)]]
    by (auto simp: snapshot_of_def)
  with frame c_read(1) show ?thesis by (simp add: cinv_def)
next
  case (c_answer r t)
  note v = ci [unfolded cinv_def, THEN conjunct1]
  show ?thesis unfolding c_answer(1)
    by (rule cinv_frame [OF ci vinv_rd [OF v c_answer(2)]])
      (use read_frame [OF vinv_inv [OF v] c_answer(2)] snap_rd [OF v _ c_answer(2)] in auto)
next
  case (c_commit c v g d' v' t)
  note vi = ci [unfolded cinv_def, THEN conjunct1]
  have "snapshot_of (cf_store cf) v g d'" using ci c_commit(2) by (simp add: cinv_def)
  from write_effect [OF rt vi this c_commit(4)] obtain d where
    "contents (cf_store cf) = Some d" "g d = Some d'" "contents t = Some d'" by blast
  then show ?thesis
    using ci vinv_wr [OF vi c_commit(3,4)] snapshot_of_keep [OF snap_wr [OF vi c_commit(3) _ c_commit(4)]]
    by (simp add: cinv_def c_commit(1) serial_append)
next
  case (c_fail c v g d' x t)
  note vi = ci [unfolded cinv_def, THEN conjunct1]
  have snap: "snapshot_of (cf_store cf) v g d'" using ci c_fail(2) by (simp add: cinv_def)
  have "\<exists>d. contents t = Some d \<and> serial d0 (cf_history cf') = Some d"
  proof (cases "view t l = view (cf_store cf) l")
    case True
    then show ?thesis using ci by (simp add: cinv_def c_fail(1))
  next
    case False
    with write_effect [OF rt vi snap c_fail(4)] obtain d where
      "contents (cf_store cf) = Some d" "g d = Some d'" "contents t = Some d'" by blast
    with False ci show ?thesis by (simp add: cinv_def c_fail(1) serial_append)
  qed
  then show ?thesis
    using ci vinv_wr [OF vi c_fail(3,4)] snapshot_of_keep [OF snap_wr [OF vi c_fail(3) _ c_fail(4)]]
    by (simp add: cinv_def c_fail(1))
next
  case (c_get l' rg t)
  note v = ci [unfolded cinv_def, THEN conjunct1]
  show ?thesis unfolding c_get(1)
    by (rule cinv_frame [OF ci vinv_get [OF v c_get(2,3)]])
      (use get_law [OF vinv_inv [OF v] c_get(2,3)] snap_get [OF v _ c_get(2,3)] in auto)
next
  case (c_create l' b rc t)
  note v = ci [unfolded cinv_def, THEN conjunct1]
  have "view (cf_store cf) l \<noteq> None" using ci by (auto simp: cinv_def stored_doc_eq_Some)
  then have "view t l = view (cf_store cf) l"
    using create_present_view [OF vinv_inv [OF v] c_create(2,4)] by blast
  then show ?thesis unfolding c_create(1)
    by (rule cinv_frame [OF ci vinv_create [OF v c_create(3,2,4)]])
      (rule snap_create [OF v c_create(3) _ c_create(2,4)])
next
  case (c_elsewhere l' w b rr t)
  note v = ci [unfolded cinv_def, THEN conjunct1]
  show ?thesis unfolding c_elsewhere(1)
    by (rule cinv_frame [OF ci vinv_replace [OF v c_elsewhere(3,2,5)]])
      (use replace_view_other [OF vinv_inv [OF v] c_elsewhere(2,5)] c_elsewhere(4)
        snap_replace [OF v c_elsewhere(3) _ c_elsewhere(2,5)] in auto)
qed

lemma cinv_reachable:
  assumes rt: "roundtrips valid encode decode"
    and "(cstep S view locs l mintable rd wr U)\<^sup>*\<^sup>* cf cf'" "cinv d0 cf"
  shows "cinv d0 cf'"
  using assms(2,3) by (induction rule: rtranclp_induct) (auto intro: cinv_step [OF rt])

text \<open>The stored document is the result of the committed updates, one after the other.\<close>

lemma serializable:
  assumes "roundtrips valid encode decode" "vinv s" "contents s = Some d0"
    and "(cstep S view locs l mintable rd wr U)\<^sup>*\<^sup>* (initial_conf s) cf"
  shows "\<exists>d. contents (cf_store cf) = Some d \<and> serial d0 (cf_history cf) = Some d"
  using cinv_reachable [OF assms(1,4) cinv_initial [OF assms(2,3)]] unfolding cinv_def by auto

text \<open>The structure's object changes only when an update is committed.\<close>

lemma step_object:
  assumes "cstep S view locs l mintable rd wr U cf cf'" "cinv d0 cf"
  shows "(\<exists>c g. cf_history cf' = cf_history cf @ [(c, g)]) \<or>
    cf_history cf' = cf_history cf \<and> view (cf_store cf') l = view (cf_store cf) l"
proof -
  have inv: "inv (cf_store cf)" and present: "view (cf_store cf) l \<noteq> None"
    using assms(2) vinv_inv by (auto simp: cinv_def stored_doc_eq_Some)
  from assms(1) show ?thesis
  proof cases
    case (c_create l' b rc t)
    then show ?thesis using create_present_view [OF inv c_create(2,4)] present by simp
  next
    case (c_elsewhere l' w b rr t)
    then show ?thesis using replace_view_other [OF inv c_elsewhere(2,5)] by simp
  qed (use inv present in \<open>auto dest: read_frame(2) get_law split: if_splits\<close>)
qed

lemma steps_object:
  assumes rt: "roundtrips valid encode decode"
    and "(cstep S view locs l mintable rd wr U)\<^sup>*\<^sup>* cf cf'" "cinv d0 cf"
  shows "length (cf_history cf) < length (cf_history cf') \<or>
    cf_history cf' = cf_history cf \<and> view (cf_store cf') l = view (cf_store cf) l"
  using assms(2)
proof (induction rule: rtranclp_induct)
  case (step y z)
  have "cinv d0 y" using cinv_reachable [OF rt step.hyps(1) assms(3)] .
  from step_object [OF step.hyps(2) this] step.IH show ?case by auto
qed simp

text \<open>
  Between the read of a snapshot and a later moment either some update was committed or the snapshot
  is still current.
\<close>

lemma snapshot_current:
  assumes rt: "roundtrips valid encode decode" and ci: "cinv d0 cf"
    and start: "cf_pending cf c = None" "g \<in> U" "rd (cf_store cf) = (Ok (v, d), t)" "g d = Some d'"
    and steps: "(cstep S view locs l mintable rd wr U)\<^sup>*\<^sup>*
      (cf\<lparr>cf_store := t, cf_pending := (cf_pending cf)(c \<mapsto> (v, g, d'))\<rparr>) cf'"
  shows "length (cf_history cf) < length (cf_history cf') \<or>
    (\<exists>obj. view (cf_store cf') l = Some obj \<and> obj_version obj = v)"
proof -
  have inv: "inv (cf_store cf)" using ci vinv_inv by (simp add: cinv_def)
  have "cinv d0 (cf\<lparr>cf_store := t, cf_pending := (cf_pending cf)(c \<mapsto> (v, g, d'))\<rparr>)"
    using cinv_step [OF rt _ ci]
      c_read [where cf = cf and c = c and g = g and U = U and rd = rd and v = v and d = d and t = t and d' = d',
        OF start] by blast
  from steps_object [OF rt steps this] show ?thesis
    using read_OkD(1) [OF inv start(3)] read_frame(2) [OF inv start(3)] by auto
qed

text \<open>A client whose snapshot was overtaken cannot write.\<close>

lemma overtaken_write_fails:
  assumes "vinv s" "snap s l obj" "view s l \<noteq> Some obj"
  shows "wr (obj_version obj) d' s \<noteq> (Ok v', t)"
proof
  assume w: "wr (obj_version obj) d' s = (Ok v', t)"
  then obtain b where "os_replace S l (obj_version obj) b s = (Ok v', t)"
    by (auto simp: write_eq split: prod.splits sum.splits ReplaceError.splits)
  from replace_Ok_snapshot [OF assms(1) loc assms(2) this] assms(3) show False by simp
qed

end

end
