(* ===== verification/Log_Structure.thy ===== *)
theory Log_Structure
  imports Lifecycle Document_Structure Memory_Store Sample_Codec
begin

text \<open>
  \<open>log/mod.rs\<close>, \<open>log/record.rs\<close> and \<open>log/builder.rs\<close> of the crate \<open>objsds\<close>. A record identifier
  wraps a UUID, a 128-bit value with the order of its bytes; \<open>Uuid::now_v7()\<close> is a parameter:
  \<open>log_append\<close> takes the identifier that call returned. \<open>serde_json\<close> is the parameter
  \<open>log_serde\<close>. The searches are the standard library's binary search of \<open>Objsds_Prelude\<close>.
\<close>

section \<open>Records, documents and handles\<close>

datatype LogId = LogId (log_uuid: uuid)

text \<open>\<open>LogId\<close> derives \<open>Ord\<close>.\<close>

instantiation LogId :: linorder
begin

definition less_eq_LogId :: "LogId \<Rightarrow> LogId \<Rightarrow> bool" where
  "less_eq_LogId a b \<longleftrightarrow> log_uuid a \<le> log_uuid b"

definition less_LogId :: "LogId \<Rightarrow> LogId \<Rightarrow> bool" where
  "less_LogId a b \<longleftrightarrow> log_uuid a < log_uuid b"

instance
  by standard (auto simp: less_eq_LogId_def less_LogId_def LogId.expand)

end

definition display_LogId :: "(uuid \<Rightarrow> string) \<Rightarrow> LogId \<Rightarrow> string" where
  "display_LogId show_uuid i = show_uuid (log_uuid i)"

definition LogId_now :: "uuid \<Rightarrow> LogId" where
  "LogId_now fresh = LogId fresh"

record 'v Record =
  rec_id :: LogId
  rec_value :: 'v

record 'v LogDocument =
  ld_format_version :: u32
  ld_kind :: string
  ld_schema :: string
  ld_records :: "'v Record list"

record ('v, 'j) log_serde =
  ls_to_vec :: "'v LogDocument \<Rightarrow> 'j + bytes"
  ls_from_slice :: "bytes \<Rightarrow> 'j + 'v LogDocument"

record ('s, 'e) Log =
  log_store :: "('s, 'e) object_store"
  log_location :: Location
  log_schema :: string

section \<open>Operations\<close>

definition log_empty_bytes :: "('v, 'j) log_serde \<Rightarrow> ('s, 'e) Log \<Rightarrow> ('j, 'e) Error + bytes" where
  "log_empty_bytes C g =
     map_error Error_Document (map_error Doc_Serialize
       (ls_to_vec C
          \<lparr>ld_format_version = FORMAT_VERSION, ld_kind = ''log'', ld_schema = log_schema g,
           ld_records = []\<rparr>))"

definition log_read ::
  "('v, 'j) log_serde \<Rightarrow> ('s, 'e) Log \<Rightarrow> ('s, ('j, 'e) Error, Version \<times> 'v LogDocument) comp" where
  "log_read C g =
     and_then (map_err (\<lambda>source. Error_Store \<lparr>se_source = source\<rparr>) (os_get (log_store g) (log_location g)))
       (\<lambda>found.
     and_then (lift_result (ok_or Error_NotFound found)) (\<lambda>obj.
     and_then (lift_result (map_error Error_Document (map_error Doc_Deserialize
                  (ls_from_slice C (obj_bytes obj))))) (\<lambda>document.
     and_then (lift_result (validate (ld_format_version document) (ld_kind document)
                  (ld_schema document) ''log'' (log_schema g))) (\<lambda>_.
     if list_ex (\<lambda>(a, b). rec_id b \<le> rec_id a) (windows2 (ld_records document))
     then err (Error_Document (Doc_Corrupt ''log record IDs must be strictly increasing''))
     else ok (obj_version obj, document)))))"

definition log_write ::
  "('v, 'j) log_serde \<Rightarrow> ('s, 'e) Log \<Rightarrow> Version \<Rightarrow> 'v LogDocument
   \<Rightarrow> ('s, ('j, 'e) Error, Version) comp" where
  "log_write C g version document =
     and_then (lift_result (map_error Error_Document (map_error Doc_Serialize (ls_to_vec C document))))
       (\<lambda>b. lifecycle_replace (log_store g) (log_location g) version b)"

definition log_append ::
  "('v, 'j) log_serde \<Rightarrow> ('s, 'e) Log \<Rightarrow> uuid \<Rightarrow> 'v \<Rightarrow> ('s, ('j, 'e) Error, LogId) comp" where
  "log_append C g fresh v =
     and_then (log_read C g) (\<lambda>(version, document).
     let i = LogId_now fresh;
         index = (case binary_search_by_key i rec_id (ld_records document) of Inr k \<Rightarrow> k | Inl k \<Rightarrow> k);
         document' = document\<lparr>ld_records :=
           vec_insert index \<lparr>rec_id = i, rec_value = v\<rparr> (ld_records document)\<rparr>
     in and_then (log_write C g version document') (\<lambda>_. ok i))"

definition log_get ::
  "('v, 'j) log_serde \<Rightarrow> ('s, 'e) Log \<Rightarrow> LogId \<Rightarrow> ('s, ('j, 'e) Error, 'v Record option) comp" where
  "log_get C g i =
     and_then (log_read C g) (\<lambda>(_, document).
     case binary_search_by_key i rec_id (ld_records document) of
       Inr index \<Rightarrow> ok (Some (ld_records document ! index))
     | Inl _ \<Rightarrow> ok None)"

definition log_records ::
  "('v, 'j) log_serde \<Rightarrow> ('s, 'e) Log \<Rightarrow> ('s, ('j, 'e) Error, 'v Record list) comp" where
  "log_records C g = and_then (log_read C g) (\<lambda>(_, document). ok (ld_records document))"

definition log_records_after ::
  "('v, 'j) log_serde \<Rightarrow> ('s, 'e) Log \<Rightarrow> LogId \<Rightarrow> ('s, ('j, 'e) Error, 'v Record list) comp" where
  "log_records_after C g i =
     and_then (log_read C g) (\<lambda>(_, document).
     let index = partition_point (\<lambda>r. rec_id r \<le> i) (ld_records document)
     in ok (drop index (ld_records document)))"

section \<open>Builder\<close>

record ('s, 'e) LogBuilder =
  lb_store :: "('s, 'e) object_store"
  lb_location :: "BuildError + Location"
  lb_schema :: "string option"

definition LogBuilder_new :: "('s, 'e) object_store \<Rightarrow> string \<Rightarrow> string \<Rightarrow> ('s, 'e) LogBuilder" where
  "LogBuilder_new S namespace name =
     \<lparr>lb_store = S, lb_location = location namespace ''logs'' name, lb_schema = None\<rparr>"

definition Objsds_log :: "('s, 'e) Objsds \<Rightarrow> string \<Rightarrow> ('s, 'e) LogBuilder" where
  "Objsds_log c name = LogBuilder_new (client_store c) (client_namespace c) name"

definition LogBuilder_schema :: "string \<Rightarrow> ('s, 'e) LogBuilder \<Rightarrow> ('s, 'e) LogBuilder" where
  "LogBuilder_schema sch b = b\<lparr>lb_schema := Some sch\<rparr>"

definition LogBuilder_finish :: "('s, 'e) LogBuilder \<Rightarrow> BuildError + ('s, 'e) Log" where
  "LogBuilder_finish b =
     (case lb_schema b of
        None \<Rightarrow> Err MissingSchema
      | Some sch \<Rightarrow>
          if sch = [] then Err MissingSchema
          else (case lb_location b of
                  Inl e \<Rightarrow> Err e
                | Inr l \<Rightarrow> Ok \<lparr>log_store = lb_store b, log_location = l, log_schema = sch\<rparr>))"

definition LogBuilder_create ::
  "('v, 'j) log_serde \<Rightarrow> ('s, 'e) LogBuilder \<Rightarrow> ('s, ('j, 'e) Error, ('s, 'e) Log) comp" where
  "LogBuilder_create C b =
     and_then (lift_result (map_error Error_Configuration (LogBuilder_finish b))) (\<lambda>g.
     and_then (create_structure (log_store g) (log_location g) (log_empty_bytes C g)) (\<lambda>_.
     ok g))"

definition LogBuilder_open ::
  "('v, 'j) log_serde \<Rightarrow> ('s, 'e) LogBuilder \<Rightarrow> ('s, ('j, 'e) Error, ('s, 'e) Log) comp" where
  "LogBuilder_open C b =
     and_then (lift_result (map_error Error_Configuration (LogBuilder_finish b))) (\<lambda>g.
     and_then (open_structure (log_read C g)) (\<lambda>_.
     ok g))"

definition LogBuilder_open_or_create ::
  "('v, 'j) log_serde \<Rightarrow> ('s, 'e) LogBuilder \<Rightarrow> ('s, ('j, 'e) Error, ('s, 'e) Log) comp" where
  "LogBuilder_open_or_create C b =
     and_then (lift_result (map_error Error_Configuration (LogBuilder_finish b))) (\<lambda>g.
     and_then (open_or_create_structure (log_store g) (log_location g) (log_empty_bytes C g)
                (log_read C g)) (\<lambda>_.
     ok g))"

section \<open>Log operations as transactions on documents\<close>

definition log_valid :: "string \<Rightarrow> 'v LogDocument \<Rightarrow> bool" where
  "log_valid sch d \<longleftrightarrow> ld_format_version d = FORMAT_VERSION \<and> ld_kind d = ''log'' \<and> ld_schema d = sch \<and>
     keys_increasing rec_id (ld_records d)"

definition log_decode :: "('v, 'j) log_serde \<Rightarrow> string \<Rightarrow> bytes \<Rightarrow> ('j, 'e) Error + 'v LogDocument" where
  "log_decode C sch b =
     (case ls_from_slice C b of
        Inl x \<Rightarrow> Err (Error_Document (Doc_Deserialize x))
      | Inr d \<Rightarrow>
          (case validate (ld_format_version d) (ld_kind d) (ld_schema d) ''log'' sch of
             Inl e \<Rightarrow> Err e
           | Inr _ \<Rightarrow>
               if keys_increasing rec_id (ld_records d) then Ok d
               else Err (Error_Document (Doc_Corrupt ''log record IDs must be strictly increasing''))))"

definition log_encode :: "('v, 'j) log_serde \<Rightarrow> 'v LogDocument \<Rightarrow> ('j, 'e) Error + bytes" where
  "log_encode C d = map_error (\<lambda>x. Error_Document (Doc_Serialize x)) (ls_to_vec C d)"

abbreviation log_conflict :: "Version \<Rightarrow> Version option \<Rightarrow> ('j, 'e) Error" where
  "log_conflict x ob \<equiv> Error_Conflict \<lparr>ce_expected = x, ce_observed = ob\<rparr>"

abbreviation memory_log :: "Location \<Rightarrow> string \<Rightarrow> (State, Infallible) Log" where
  "memory_log l sch \<equiv> \<lparr>log_store = memory_store, log_location = l, log_schema = sch\<rparr>"

lemma log_decode_eq_Ok:
  "log_decode C sch b = Ok d \<longleftrightarrow> ls_from_slice C b = Ok d \<and> log_valid sch d"
  by (auto simp: log_decode_def log_valid_def validate_def split: sum.splits if_splits)

lemma log_decode_valid: "log_decode C sch b = Ok d \<Longrightarrow> log_valid sch d"
  by (simp add: log_decode_eq_Ok)

lemma log_read_eq:
  "log_read C \<lparr>log_store = S, log_location = l, log_schema = sch\<rparr> s =
     (case os_get S l s of
        (Inl e, t) \<Rightarrow> (Err (Error_Store \<lparr>se_source = e\<rparr>), t)
      | (Inr None, t) \<Rightarrow> (Err Error_NotFound, t)
      | (Inr (Some obj), t) \<Rightarrow>
          (case log_decode C sch (obj_bytes obj) of
             Inl x \<Rightarrow> (Err x, t)
           | Inr d \<Rightarrow> (Ok (obj_version obj, d), t)))"
  by (auto simp: log_read_def log_decode_def and_then_def map_err_def map_error_def
      no_decreasing_window split: prod.splits sum.splits option.splits)

lemma log_write_eq:
  "log_write C \<lparr>log_store = S, log_location = l, log_schema = sch\<rparr> v d s =
     (case log_encode C d of
        Inl x \<Rightarrow> (Err x, s)
      | Inr b \<Rightarrow>
          (case os_replace S l v b s of
             (Inl (Replace_Conflict ob), t) \<Rightarrow> (Err (log_conflict v ob), t)
           | (Inl (Replace_Store e), t) \<Rightarrow> (Err (Error_Store \<lparr>se_source = e\<rparr>), t)
           | (Inr v', t) \<Rightarrow> (Ok v', t)))"
  by (auto simp: log_write_def log_encode_def lifecycle_replace_def and_then_def map_err_def
      map_error_def split: prod.splits sum.splits ReplaceError.splits)

text \<open>Over any store that keeps the contract, a log's \<open>read\<close> and \<open>write\<close> provide the interface.\<close>

lemma log_document_structure:
  assumes "object_store_laws S view I locs" "locs l"
  shows "document_structure S view I locs l (log_decode C sch) (log_encode C) (log_valid sch)
    (\<lambda>e. Error_Store \<lparr>se_source = e\<rparr>) Error_NotFound log_conflict
    (log_read C \<lparr>log_store = S, log_location = l, log_schema = sch\<rparr>)
    (log_write C \<lparr>log_store = S, log_location = l, log_schema = sch\<rparr>)"
  by (intro document_structure.intro document_structure_axioms.intro assms)
    (erule log_decode_valid, rule log_read_eq, rule log_write_eq)

interpretation logm: reliable_structure memory_store memory_view "\<lambda>_. True" "\<lambda>_. True" l
    "log_decode C sch" "log_encode C" "log_valid sch" "\<lambda>e. Error_Store \<lparr>se_source = e\<rparr>"
    Error_NotFound log_conflict "log_read C (memory_log l sch)" "log_write C (memory_log l sch)"
  for l sch C
  by unfold_locales (rule TrueI, erule log_decode_valid, rule log_read_eq, rule log_write_eq)

text \<open>
  The pure step of each operation, with the searches replaced by what they find in records
  with strictly increasing identifiers.
\<close>

definition with_records :: "('v Record list \<Rightarrow> 'v Record list) \<Rightarrow> 'v LogDocument \<Rightarrow> 'v LogDocument" where
  "with_records f d = d\<lparr>ld_records := f (ld_records d)\<rparr>"

definition log_append_step :: "LogId \<Rightarrow> 'v \<Rightarrow> 'v LogDocument \<Rightarrow> ('x, LogId, 'v LogDocument) outcome" where
  "log_append_step i v d =
     Commit (with_records (sorted_insert rec_id \<lparr>rec_id = i, rec_value = v\<rparr>) d) (\<lambda>_. i)"

definition log_get_step :: "LogId \<Rightarrow> 'v LogDocument \<Rightarrow> ('x, 'v Record option, 'v LogDocument) outcome" where
  "log_get_step i d = Reply (find (\<lambda>r. rec_id r = i) (ld_records d))"

definition log_records_step :: "'v LogDocument \<Rightarrow> ('x, 'v Record list, 'v LogDocument) outcome" where
  "log_records_step d = Reply (ld_records d)"

definition log_records_after_step ::
  "LogId \<Rightarrow> 'v LogDocument \<Rightarrow> ('x, 'v Record list, 'v LogDocument) outcome" where
  "log_records_after_step i d = Reply (filter (\<lambda>r. i < rec_id r) (ld_records d))"

lemma with_records_sel [simp]:
  "ld_records (with_records f d) = f (ld_records d)"
  "ld_schema (with_records f d) = ld_schema d"
  "ld_kind (with_records f d) = ld_kind d"
  "ld_format_version (with_records f d) = ld_format_version d"
  by (simp_all add: with_records_def)

lemma log_read_Ok_increasing:
  assumes "log_read C g s = (Ok (v, d), t)"
  shows "keys_increasing rec_id (ld_records d)"
proof -
  obtain S l sch where "g = \<lparr>log_store = S, log_location = l, log_schema = sch\<rparr>" by (cases g)
  with assms show ?thesis
    by (auto simp: log_read_eq log_decode_eq_Ok log_valid_def
        split: prod.splits sum.splits option.splits dest: log_decode_eq_Ok [THEN iffD1])
qed

lemma drop_partition_point:
  fixes key :: "'a \<Rightarrow> 'k::linorder"
  assumes "keys_increasing key xs"
  shows "drop (partition_point (\<lambda>x. key x \<le> k) xs) xs = filter (\<lambda>x. k < key x) xs"
proof -
  have "dropWhile (\<lambda>x. key x \<le> k) xs = filter (\<lambda>x. k < key x) xs"
    using assms
    by (induction xs) (auto simp: not_le intro!: filter_True [symmetric] intro: less_trans)
  then show ?thesis by (simp add: partition_point_le [OF assms] dropWhile_eq_drop)
qed

lemma log_append_transact:
  "log_append C g fresh v = transact (log_read C g) (log_write C g) (log_append_step (LogId fresh) v)"
proof -
  let ?r = "\<lparr>rec_id = LogId fresh, rec_value = v\<rparr>"
  have "log_append C g fresh v = transact (log_read C g) (log_write C g) (\<lambda>d.
      Commit (with_records (\<lambda>rs. vec_insert
        (case binary_search_by_key (rec_id ?r) rec_id rs of Inl k \<Rightarrow> k | Inr k \<Rightarrow> k) ?r rs) d) (\<lambda>_. LogId fresh))"
    by (simp add: log_append_def transact_def Let_def with_records_def LogId_now_def)
  also have "\<dots> = transact (log_read C g) (log_write C g) (log_append_step (LogId fresh) v)"
    by (rule transact_cong)
      (simp only: log_append_step_def with_records_def binary_search_insert [OF log_read_Ok_increasing])
  finally show ?thesis .
qed

lemma log_get_transact:
  "log_get C g i = transact (log_read C g) (log_write C g) (log_get_step i)"
proof -
  have "log_get C g i = transact (log_read C g) (log_write C g) (\<lambda>d.
      Reply (case binary_search_by_key i rec_id (ld_records d) of
        Inr k \<Rightarrow> Some (ld_records d ! k) | Inl _ \<Rightarrow> None))"
    unfolding log_get_def transact_def
    by (rule arg_cong [where f = "and_then _"]) (auto simp: fun_eq_iff split: sum.splits)
  also have "\<dots> = transact (log_read C g) (log_write C g) (log_get_step i)"
    by (rule transact_cong)
      (auto simp: log_get_step_def find_position binary_search_by_key_spec [OF log_read_Ok_increasing]
        split: option.splits)
  finally show ?thesis .
qed

lemma log_records_transact:
  "log_records C g = transact (log_read C g) (log_write C g) log_records_step"
  by (simp add: log_records_def transact_def log_records_step_def)

lemma log_records_after_transact:
  "log_records_after C g i = transact (log_read C g) (log_write C g) (log_records_after_step i)"
proof -
  have "log_records_after C g i = transact (log_read C g) (log_write C g) (\<lambda>d.
      Reply (drop (partition_point (\<lambda>r. rec_id r \<le> i) (ld_records d)) (ld_records d)))"
    by (simp add: log_records_after_def transact_def Let_def)
  also have "\<dots> = transact (log_read C g) (log_write C g) (log_records_after_step i)"
    by (rule transact_cong)
      (simp add: log_records_after_step_def drop_partition_point [OF log_read_Ok_increasing])
  finally show ?thesis .
qed

lemmas log_transacts = log_append_transact log_get_transact log_records_transact
  log_records_after_transact

end
