(* ===== verification/Log_Properties.thy ===== *)
theory Log_Properties
  imports Log_Structure
begin

text \<open>
  What \<open>Log\<close> promises, over the in-memory store: under fresh identifiers every sequence of
  operations agrees with a list kept sorted by identifier, records are never changed or lost,
  and identifiers of one log never repeat. The last section shows what the freshness of
  \<open>Uuid::now_v7()\<close> carries: appending under an identifier that is already present is
  acknowledged and makes the log unreadable.
\<close>

section \<open>Abstraction\<close>

definition log_serde_ok :: "('v, 'j) log_serde \<Rightarrow> bool" where
  "log_serde_ok C \<longleftrightarrow> (\<forall>d. \<exists>b. ls_to_vec C d = Ok b \<and> ls_from_slice C b = Ok d)"

definition stored_log ::
  "('v, 'j) log_serde \<Rightarrow> string \<Rightarrow> Location \<Rightarrow> State \<Rightarrow> 'v Record list option" where
  "stored_log C sch l st =
     (case fmlookup (st_objects st) l of
        None \<Rightarrow> None
      | Some obj \<Rightarrow>
          (case ls_from_slice C (obj_bytes obj) of
             Inl _ \<Rightarrow> None
           | Inr d \<Rightarrow> if log_valid sch d then Some (ld_records d) else None))"

datatype 'v log_op = LOp_append uuid 'v | LOp_get LogId | LOp_records | LOp_records_after LogId

datatype 'v log_reply =
    LReply_appended LogId | LReply_found "'v Record option" | LReply_records "'v Record list"

fun log_exec ::
  "('v, 'j) log_serde \<Rightarrow> ('s, 'e) Log \<Rightarrow> 'v log_op \<Rightarrow> ('s, ('j, 'e) Error, 'v log_reply) comp" where
  "log_exec C g (LOp_append u v) = and_then (log_append C g u v) (\<lambda>i. ok (LReply_appended i))"
| "log_exec C g (LOp_get i) = and_then (log_get C g i) (\<lambda>r. ok (LReply_found r))"
| "log_exec C g LOp_records = and_then (log_records C g) (\<lambda>rs. ok (LReply_records rs))"
| "log_exec C g (LOp_records_after i) = and_then (log_records_after C g i) (\<lambda>rs. ok (LReply_records rs))"

text \<open>The model: a list of records kept sorted by identifier, as a vector that is pushed to and
  sorted after every append.\<close>

fun list_exec :: "'v log_op \<Rightarrow> 'v Record list \<Rightarrow> 'v log_reply \<times> 'v Record list" where
  "list_exec (LOp_append u v) rs =
     (LReply_appended (LogId u), insort_key rec_id \<lparr>rec_id = LogId u, rec_value = v\<rparr> rs)"
| "list_exec (LOp_get i) rs = (LReply_found (find (\<lambda>r. rec_id r = i) rs), rs)"
| "list_exec LOp_records rs = (LReply_records rs, rs)"
| "list_exec (LOp_records_after i) rs = (LReply_records (filter (\<lambda>r. i < rec_id r) rs), rs)"

fun log_run ::
  "('v, 'j) log_serde \<Rightarrow> ('s, 'e) Log \<Rightarrow> 'v log_op list \<Rightarrow> ('s, ('j, 'e) Error, 'v log_reply list) comp" where
  "log_run C g [] = ok []"
| "log_run C g (x # xs) = and_then (log_exec C g x) (\<lambda>r. and_then (log_run C g xs) (\<lambda>rs. ok (r # rs)))"

fun list_run :: "'v log_op list \<Rightarrow> 'v Record list \<Rightarrow> 'v log_reply list \<times> 'v Record list" where
  "list_run [] rs = ([], rs)"
| "list_run (x # xs) rs =
     (let (y, rs') = list_exec x rs; (ys, rs'') = list_run xs rs' in (y # ys, rs''))"

text \<open>The identifiers a sequence of operations draws, and their freshness.\<close>

fun drawn :: "'v log_op list \<Rightarrow> LogId list" where
  "drawn [] = []"
| "drawn (LOp_append u _ # xs) = LogId u # drawn xs"
| "drawn (_ # xs) = drawn xs"

definition fresh_ids :: "'v log_op list \<Rightarrow> 'v Record list \<Rightarrow> bool" where
  "fresh_ids xs rs \<longleftrightarrow> distinct (drawn xs) \<and> set (drawn xs) \<inter> rec_id ` set rs = {}"

section \<open>The library's lemmas at this instance\<close>

abbreviation log_doc :: "('v, 'j) log_serde \<Rightarrow> string \<Rightarrow> Location \<Rightarrow> State \<Rightarrow> 'v LogDocument option" where
  "log_doc C sch l st \<equiv>
     stored_doc (log_decode C sch :: bytes \<Rightarrow> ('j, Infallible) Error + 'v LogDocument)
       (memory_view st l)"

lemma stored_log_eq_Some:
  "stored_log C sch l st = Some rs \<longleftrightarrow> (\<exists>d. log_doc C sch l st = Some d \<and> rs = ld_records d)"
  by (auto simp: stored_log_def stored_doc_eq_Some memory_view_def log_decode_eq_Ok
      split: sum.splits option.splits if_splits)

lemma stored_logI: "log_doc C sch l st = Some d \<Longrightarrow> stored_log C sch l st = Some (ld_records d)"
  by (auto simp: stored_log_eq_Some)

lemma log_doc_valid: "log_doc C sch l st = Some d \<Longrightarrow> log_valid sch d"
  by (auto simp: stored_doc_eq_Some log_decode_eq_Ok)

lemma stored_log_increasing: "stored_log C sch l st = Some rs \<Longrightarrow> keys_increasing rec_id rs"
  by (auto simp: stored_log_eq_Some log_valid_def dest: log_doc_valid)

lemma log_serde_roundtrips:
  "log_serde_ok C \<Longrightarrow> roundtrips (log_valid sch) (log_encode C) (log_decode C sch)"
  by (auto simp: roundtrips_def log_serde_ok_def log_encode_def log_decode_eq_Ok)
    (metis sum.inject(2))

lemma log_serde_encodes: "log_serde_ok C \<Longrightarrow> \<exists>b. log_encode C d = Ok b"
  by (auto simp: log_serde_ok_def log_encode_def)

lemma log_reply:
  assumes "log_doc C sch l st = Some d" "f d = Reply y"
  shows "\<exists>st'.
    transact (log_read C (memory_log l sch)) (log_write C (memory_log l sch)) f st = (Ok y, st') \<and>
    stored_log C sch l st' = Some (ld_records d)"
  by (rule logm.transact_Reply [where f = f, OF TrueI assms])
    (use assms(1) in \<open>auto simp: stored_log_eq_Some\<close>)

lemma log_append_fresh:
  fixes C :: "('v, 'j) log_serde"
  assumes C: "log_serde_ok C" and d: "log_doc C sch l st = Some d"
    and fresh: "LogId u \<notin> rec_id ` set (ld_records d)"
  shows "\<exists>st'. log_append C (memory_log l sch) u v st = (Ok (LogId u), st') \<and>
    stored_log C sch l st' = Some (insort_key rec_id \<lparr>rec_id = LogId u, rec_value = v\<rparr> (ld_records d))"
proof -
  let ?d = "with_records (sorted_insert rec_id \<lparr>rec_id = LogId u, rec_value = v\<rparr>) d"
  have step: "log_append_step (LogId u) v d = Commit ?d (\<lambda>_. LogId u)"
    by (simp add: log_append_step_def)
  have valid: "log_valid sch ?d"
    using log_doc_valid [OF d] fresh by (simp add: log_valid_def sorted_insert_increasing)
  obtain b where b: "(log_encode C ?d :: ('j, Infallible) Error + bytes) = Ok b"
    using log_serde_encodes [OF C] by blast
  show ?thesis unfolding log_append_transact
    by (rule logm.transact_Commit_contents
          [where f = "log_append_step (LogId u) v", OF log_serde_roundtrips [OF C] TrueI d step valid b])
      (auto simp: sorted_insert_insort dest: stored_logI)
qed

section \<open>Refinement of the log\<close>

lemma log_exec_refines:
  assumes C: "log_serde_ok C" and st: "stored_log C sch l st = Some rs" and fresh: "fresh_ids [x] rs"
  shows "\<exists>st'. log_exec C (memory_log l sch) x st = (Ok (fst (list_exec x rs)), st') \<and>
    stored_log C sch l st' = Some (snd (list_exec x rs))"
proof -
  obtain d where d: "log_doc C sch l st = Some d" and rs: "rs = ld_records d"
    using st by (auto simp: stored_log_eq_Some)
  note reply = log_reply [OF d]
  show ?thesis
  proof (cases x)
    case (LOp_append u v)
    with fresh log_append_fresh [OF C d, of u v] show ?thesis
      by (auto simp: rs fresh_ids_def and_then_Ok)
  next
    case (LOp_get i)
    then show ?thesis using reply [of "log_get_step i"]
      by (auto simp: rs log_get_step_def log_get_transact and_then_Ok)
  next
    case LOp_records
    then show ?thesis using reply [of log_records_step]
      by (auto simp: rs log_records_step_def log_records_transact and_then_Ok)
  next
    case (LOp_records_after i)
    then show ?thesis using reply [of "log_records_after_step i"]
      by (auto simp: rs log_records_after_step_def log_records_after_transact and_then_Ok)
  qed
qed

lemma fresh_ids_Cons:
  assumes "fresh_ids (x # xs) rs"
  shows "fresh_ids [x] rs" and "fresh_ids xs (snd (list_exec x rs))"
  using assms by (cases x; auto simp: fresh_ids_def set_insort_key)+

text \<open>
  C3: a log stored in one object behaves as a list of records kept sorted by identifier, under
  every sequence of \<open>append\<close>, \<open>get\<close>, \<open>records\<close> and \<open>records_after\<close> whose appends draw fresh
  identifiers: every operation succeeds and answers what the list answers.
\<close>

theorem log_refines_sorted_list:
  assumes "log_serde_ok C" "stored_log C sch l st = Some rs" "fresh_ids xs rs"
  shows "\<exists>st'. log_run C (memory_log l sch) xs st = (Ok (fst (list_run xs rs)), st') \<and>
    stored_log C sch l st' = Some (snd (list_run xs rs))"
  using assms(2,3)
proof (induction xs arbitrary: st rs)
  case Nil
  then show ?case by simp
next
  case (Cons x xs)
  obtain st1 where st1: "log_exec C (memory_log l sch) x st = (Ok (fst (list_exec x rs)), st1)"
      "stored_log C sch l st1 = Some (snd (list_exec x rs))"
    using log_exec_refines [OF assms(1) Cons.prems(1) fresh_ids_Cons(1) [OF Cons.prems(2)]] by blast
  obtain st2 where "log_run C (memory_log l sch) xs st1
        = (Ok (fst (list_run xs (snd (list_exec x rs)))), st2)"
      "stored_log C sch l st2 = Some (snd (list_run xs (snd (list_exec x rs))))"
    using Cons.IH [OF st1(2) fresh_ids_Cons(2) [OF Cons.prems(2)]] by blast
  with st1 show ?case by (auto simp: and_then_Ok Let_def split_beta)
qed


section \<open>A concrete log\<close>

definition sample_log_serde :: "(string, unit) log_serde" where
  "sample_log_serde =
     \<lparr>ls_to_vec = (\<lambda>d. Ok (put_fields (show_word (ld_format_version d) # ld_kind d # ld_schema d
        # put_pairs (map (\<lambda>r. (show_word (log_uuid (rec_id r)), rec_value r)) (ld_records d))))),
      ls_from_slice = (\<lambda>b.
        case get_fields [] b of
          Some (fv # k # sch # rest) \<Rightarrow>
            (case get_pairs rest of
               Some ps \<Rightarrow> Ok \<lparr>ld_format_version = of_nat (read_nat fv), ld_kind = k, ld_schema = sch,
                 ld_records = map (\<lambda>(i, v). \<lparr>rec_id = LogId (of_nat (read_nat i)), rec_value = v\<rparr>) ps\<rparr>
             | None \<Rightarrow> Err ())
        | _ \<Rightarrow> Err ())\<rparr>"

lemma Record_eta: "(\<lambda>r :: 'v Record. \<lparr>rec_id = rec_id r, rec_value = rec_value r\<rparr>) = (\<lambda>r. r)"
  by (rule ext) simp

lemma sample_log_serde_ok: "log_serde_ok sample_log_serde"
  by (simp add: log_serde_ok_def sample_log_serde_def comp_def Record_eta)

definition sample_log_state :: State where
  "sample_log_state =
     \<lparr>st_objects = fmupd (Location ''prod/logs/audit.json'')
        \<lparr>obj_bytes = put_fields [''1'', ''log'', ''event-v1'', ''10'', ''ten'', ''30'', ''thirty''],
         obj_version = Version ''2''\<rparr> fmempty,
      st_next_version = 2\<rparr>"

abbreviation sample_record :: "uuid \<Rightarrow> string \<Rightarrow> string Record" where
  "sample_record u v \<equiv> \<lparr>rec_id = LogId u, rec_value = v\<rparr>"

lemma sample_log_stored:
  "stored_log sample_log_serde ''event-v1'' (Location ''prod/logs/audit.json'') sample_log_state
     = Some [sample_record 10 ''ten'', sample_record 30 ''thirty'']"
  by (simp add: stored_log_def sample_log_state_def sample_log_serde_def log_valid_def
      FORMAT_VERSION_def read_nat_def less_LogId_def)

theorem log_refines_sorted_list_witness:
  "\<exists>st'. log_run sample_log_serde (memory_log (Location ''prod/logs/audit.json'') ''event-v1'')
      [LOp_append 20 ''twenty'', LOp_append 40 ''forty'', LOp_get (LogId 20), LOp_records_after (LogId 20)]
      sample_log_state
    = (Ok [LReply_appended (LogId 20), LReply_appended (LogId 40),
           LReply_found (Some (sample_record 20 ''twenty'')),
           LReply_records [sample_record 30 ''thirty'', sample_record 40 ''forty'']], st') \<and>
    stored_log sample_log_serde ''event-v1'' (Location ''prod/logs/audit.json'') st'
      = Some [sample_record 10 ''ten'', sample_record 20 ''twenty'', sample_record 30 ''thirty'',
              sample_record 40 ''forty'']"
proof -
  let ?xs = "[LOp_append 20 ''twenty'', LOp_append 40 ''forty'', LOp_get (LogId 20),
    LOp_records_after (LogId 20)]"
  let ?rs = "[sample_record 10 ''ten'', sample_record 30 ''thirty'']"
  have "fresh_ids ?xs ?rs" by (simp add: fresh_ids_def)
  from log_refines_sorted_list [OF sample_log_serde_ok sample_log_stored this] show ?thesis
    by (simp add: less_eq_LogId_def less_LogId_def)
qed


section \<open>Atomic appends over any store\<close>

lemma log_append_step_valid:
  "log_valid sch d \<Longrightarrow> i \<notin> rec_id ` set (ld_records d) \<Longrightarrow> log_append_step i v d = Commit d' k \<Longrightarrow>
     log_valid sch d'"
  by (auto simp: log_append_step_def log_valid_def sorted_insert_increasing)

text \<open>
  Over every store that keeps the object-store contract, an append under an identifier the
  log does not hold is one atomic step: on success it returns that identifier and the stored
  records are the earlier ones with exactly the new record added in identifier order, so no
  record is changed or lost; on a conflict or any other error but a backend failure nothing
  changed; after a backend failure the log is the old one or the complete new one.
\<close>

theorem log_append_atomic:
  assumes "object_store_laws S view I locs" "locs l" "I s"
    and "\<forall>d b. ls_to_vec C d = Ok b \<longrightarrow> ls_from_slice C b = Ok d"
    and "\<forall>d. stored_doc (log_decode C sch) (view s l) = Some d \<longrightarrow>
      LogId u \<notin> rec_id ` set (ld_records d)"
  shows "case_prod (atomic_outcome view l (log_decode C sch) (\<lambda>e. Error_Store \<lparr>se_source = e\<rparr>)
      (\<lambda>d. Commit (d\<lparr>ld_records := insort_key rec_id \<lparr>rec_id = LogId u, rec_value = v\<rparr> (ld_records d)\<rparr>)
             (\<lambda>_. LogId u)) s)
    (log_append C \<lparr>log_store = S, log_location = l, log_schema = sch\<rparr> u v s)"
proof -
  have rt: "roundtrips (log_valid sch) (log_encode C) (log_decode C sch)"
    using assms(4) by (auto simp: roundtrips_def log_encode_def log_decode_eq_Ok)
  have step: "log_append_step (LogId u) v = (\<lambda>d.
      Commit (d\<lparr>ld_records := insort_key rec_id \<lparr>rec_id = LogId u, rec_value = v\<rparr> (ld_records d)\<rparr>)
        (\<lambda>_. LogId u))"
    by (simp add: log_append_step_def fun_eq_iff with_records_def sorted_insert_insort)
  show ?thesis
    unfolding log_append_transact step [symmetric]
    by (rule document_structure.transact_atomic_pair [OF log_document_structure [OF assms(1,2)] rt assms(3)])
      (use assms(5) in \<open>auto simp: stored_doc_eq_Some log_decode_eq_Ok intro: log_append_step_valid\<close>)
qed

lemma sample_fresh: "LogId 20 \<notin> rec_id ` set [sample_record 10 ''ten'', sample_record 30 ''thirty'']"
  by simp

theorem log_append_atomic_witness:
  "case_prod (atomic_outcome memory_view (Location ''prod/logs/audit.json'')
      (log_decode sample_log_serde ''event-v1'') (\<lambda>e. Error_Store \<lparr>se_source = e\<rparr>)
      (\<lambda>d. Commit (d\<lparr>ld_records := insort_key rec_id (sample_record 20 ''twenty'') (ld_records d)\<rparr>)
             (\<lambda>_. LogId 20)) sample_log_state)
    (log_append sample_log_serde (memory_log (Location ''prod/logs/audit.json'') ''event-v1'')
      20 ''twenty'' sample_log_state)"
proof -
  have rt: "\<forall>d b. ls_to_vec sample_log_serde d = Ok b \<longrightarrow> ls_from_slice sample_log_serde b = Ok d"
    using sample_log_serde_ok unfolding log_serde_ok_def by (metis sum.inject(2))
  have "\<forall>d. log_doc sample_log_serde ''event-v1'' (Location ''prod/logs/audit.json'') sample_log_state
      = Some d \<longrightarrow> LogId 20 \<notin> rec_id ` set (ld_records d)"
    using sample_log_stored unfolding stored_log_eq_Some
    by (metis (no_types, lifting) option.sel sample_fresh)
  then show ?thesis by (rule log_append_atomic [OF mem.object_store_laws_axioms TrueI TrueI rt])
qed

section \<open>What the freshness of identifiers carries\<close>

lemma sorted_insert_duplicate:
  assumes "key x \<in> key ` set xs"
  shows "\<not> keys_increasing key (sorted_insert key x xs)"
  using assms by (simp add: strict_sorted_iff sorted_insert_insort distinct_insort_key)

text \<open>
  C33: if \<open>Uuid::now_v7()\<close> returns an identifier the log already holds, \<open>append\<close> still succeeds
  and returns it, and afterwards every operation on the log fails with the corruption error:
  the log is lost to its readers.
\<close>

theorem log_append_duplicate_corrupts:
  fixes C :: "('v, 'j) log_serde"
  assumes C: "log_serde_ok C" and st: "stored_log C sch l st = Some rs"
    and dup: "LogId u \<in> rec_id ` set rs"
  shows "\<exists>st'. log_append C (memory_log l sch) u v st = (Ok (LogId u), st') \<and>
    (\<forall>x. log_exec C (memory_log l sch) x st' =
       (Err (Error_Document (Doc_Corrupt ''log record IDs must be strictly increasing'')), st'))"
proof -
  obtain d where d: "log_doc C sch l st = Some d" and rs: "rs = ld_records d"
    using st by (auto simp: stored_log_eq_Some)
  let ?d = "with_records (sorted_insert rec_id \<lparr>rec_id = LogId u, rec_value = v\<rparr>) d"
  have step: "log_append_step (LogId u) v d = Commit ?d (\<lambda>_. LogId u)"
    by (simp add: log_append_step_def)
  obtain b where b: "ls_to_vec C ?d = Ok b" "ls_from_slice C b = Ok ?d"
    using C by (auto simp: log_serde_ok_def)
  then have e: "(log_encode C ?d :: ('j, Infallible) Error + bytes) = Ok b"
    by (simp add: log_encode_def)
  obtain ver st' where st': "log_append C (memory_log l sch) u v st = (Ok (LogId u), st')"
      "memory_view st' = (memory_view st)(l \<mapsto> \<lparr>obj_bytes = b, obj_version = ver\<rparr>)"
    unfolding log_append_transact
    by (rule logm.transact_Commit [where f = "log_append_step (LogId u) v", OF TrueI d step e]) blast
  have "log_read C (memory_log l sch) st' =
      (Err (Error_Document (Doc_Corrupt ''log record IDs must be strictly increasing'')), st')"
    using st'(2) b(2) log_doc_valid [OF d] sorted_insert_duplicate [of rec_id "\<lparr>rec_id = LogId u, rec_value = v\<rparr>"] dup
    by (simp add: log_read_eq memory_get_def fun_upd_same memory_view_def fun_eq_iff log_decode_def log_valid_def rs)
  then have "log_exec C (memory_log l sch) x st' =
      (Err (Error_Document (Doc_Corrupt ''log record IDs must be strictly increasing'')), st')" for x
    by (cases x) (simp_all add: log_transacts transact_def and_then_Err)
  with st' show ?thesis by blast
qed

theorem log_append_duplicate_corrupts_witness:
  "\<exists>st'. log_append sample_log_serde (memory_log (Location ''prod/logs/audit.json'') ''event-v1'')
      10 ''again'' sample_log_state = (Ok (LogId 10), st') \<and>
    log_records sample_log_serde (memory_log (Location ''prod/logs/audit.json'') ''event-v1'') st' =
      (Err (Error_Document (Doc_Corrupt ''log record IDs must be strictly increasing'')), st')"
proof -
  have "LogId 10 \<in> rec_id ` set [sample_record 10 ''ten'', sample_record 30 ''thirty'']" by simp
  from log_append_duplicate_corrupts [OF sample_log_serde_ok sample_log_stored this, of "''again''"]
  obtain st' where st': "log_append sample_log_serde (memory_log (Location ''prod/logs/audit.json'') ''event-v1'')
      10 ''again'' sample_log_state = (Ok (LogId 10), st')"
    "\<forall>x. log_exec sample_log_serde (memory_log (Location ''prod/logs/audit.json'') ''event-v1'') x st' =
      (Err (Error_Document (Doc_Corrupt ''log record IDs must be strictly increasing'')), st')"
    by blast
  from st'(2) [rule_format, of LOp_records] have
    "log_records sample_log_serde (memory_log (Location ''prod/logs/audit.json'') ''event-v1'') st' =
      (Err (Error_Document (Doc_Corrupt ''log record IDs must be strictly increasing'')), st')"
    by (auto simp: comp_eqs)
  with st'(1) show ?thesis by blast
qed

section \<open>The searches\<close>

text \<open>
  C27: the binary searches of the log are linear scans, over every store and in every state: \<open>get\<close>
  finds the record a scan for the identifier finds, \<open>records_after\<close> returns exactly the records
  with a larger identifier, in order, and \<open>append\<close> puts the record in front of the first one that
  is not smaller.
\<close>

theorem log_searches_are_scans:
  "log_get C g i = and_then (log_read C g) (\<lambda>(_, d). ok (find (\<lambda>r. rec_id r = i) (ld_records d))) \<and>
   log_records_after C g i = and_then (log_read C g) (\<lambda>(_, d). ok (filter (\<lambda>r. i < rec_id r) (ld_records d))) \<and>
   log_append C g fresh v = and_then (log_read C g) (\<lambda>(version, d).
     and_then (log_write C g version (d\<lparr>ld_records :=
       takeWhile (\<lambda>r. rec_id r < LogId fresh) (ld_records d) @ [\<lparr>rec_id = LogId fresh, rec_value = v\<rparr>] @
       dropWhile (\<lambda>r. rec_id r < LogId fresh) (ld_records d)\<rparr>)) (\<lambda>_. ok (LogId fresh)))"
  unfolding log_transacts
  by (simp add: transact_def log_get_step_def log_records_after_step_def log_append_step_def with_records_def
      sorted_insert_def)

end
