(* ===== verification/Concurrent_Structures.thy ===== *)
theory Concurrent_Structures
  imports Concurrency Map_Lifecycle Log_Properties Queue_Lifecycle
begin

text \<open>
  Interleaved clients of a map, a log and a queue over the in-memory store: the interpretations of
  \<open>concurrent_structure\<close> and what they give. The updates of a structure are those its
  mutations commit; an append or a publication is an update of the documents that do not
  hold its identifier yet.
\<close>

section \<open>Updates\<close>

definition map_updates :: "('v OwnedMapDocument \<Rightarrow> 'v OwnedMapDocument option) set" where
  "map_updates =
     {committed (map_insert_step k v :: _ \<Rightarrow> (unit, _, _) outcome) | k v. True} \<union>
     {committed (map_insert_if_absent_step k v :: _ \<Rightarrow> (unit, _, _) outcome) | k v. True} \<union>
     {committed (map_remove_step k :: _ \<Rightarrow> (unit, _, _) outcome) | k. True}"

definition log_updates :: "('v LogDocument \<Rightarrow> 'v LogDocument option) set" where
  "log_updates =
     {\<lambda>d. if i \<in> rec_id ` set (ld_records d) then None
          else committed (log_append_step i v :: _ \<Rightarrow> (unit, _, _) outcome) d | i v. True}"

definition queue_updates :: "('v Document \<Rightarrow> 'v Document option) set" where
  "queue_updates =
     {\<lambda>d. if i \<in> msg_id ` set (qd_messages d) then None
          else committed (queue_publish_step i v :: _ \<Rightarrow> ((unit, unit) QueueError, _, _) outcome) d | i v. True} \<union>
     {committed (queue_claim_step now deadline token :: _ \<Rightarrow> ((unit, unit) QueueError, _, _) outcome)
        | now deadline token. True} \<union>
     {committed (queue_ack_step now i token :: _ \<Rightarrow> ((unit, unit) QueueError, _, _) outcome)
        | now i token. True}"

lemma committed_eq_Some: "committed f d = Some d' \<longleftrightarrow> (\<exists>k. f d = Commit d' k)"
  by (auto simp: committed_def split: outcome.splits)

lemma map_updates_valid: "g \<in> map_updates \<Longrightarrow> map_valid sch d \<Longrightarrow> g d = Some d' \<Longrightarrow> map_valid sch d'"
  by (auto simp: map_updates_def committed_eq_Some map_steps_valid)

lemma log_updates_valid: "g \<in> log_updates \<Longrightarrow> log_valid sch d \<Longrightarrow> g d = Some d' \<Longrightarrow> log_valid sch d'"
  by (auto simp: log_updates_def committed_eq_Some split: if_splits)
    (metis log_append_step_valid)

lemma queue_updates_valid:
  "g \<in> queue_updates \<Longrightarrow> queue_valid sch d \<Longrightarrow> g d = Some d' \<Longrightarrow> queue_valid sch d'"
  by (auto simp: queue_updates_def committed_eq_Some split: if_splits
      intro: queue_claim_step_valid queue_ack_step_valid)
    (metis queue_publish_step_valid)

interpretation mapc: concurrent_structure memory_store memory_view "\<lambda>_. True" "\<lambda>_. True" l
    "map_decode C sch" "map_encode C" "map_valid sch" "\<lambda>e. Error_Store \<lparr>se_source = e\<rparr>"
    Error_NotFound map_conflict "map_read C (memory_map l sch)" "map_write C (memory_map l sch)"
    memory_vinv memory_snap memory_mintable map_updates
  for l sch C
  by unfold_locales (rule map_updates_valid)

interpretation logc: concurrent_structure memory_store memory_view "\<lambda>_. True" "\<lambda>_. True" l
    "log_decode C sch" "log_encode C" "log_valid sch" "\<lambda>e. Error_Store \<lparr>se_source = e\<rparr>"
    Error_NotFound log_conflict "log_read C (memory_log l sch)" "log_write C (memory_log l sch)"
    memory_vinv memory_snap memory_mintable log_updates
  for l sch C
  by unfold_locales (rule log_updates_valid)

interpretation queuec: concurrent_structure memory_store memory_view "\<lambda>_. True" "\<lambda>_. True" l
    "queue_decode C sch" "queue_encode C" "queue_valid sch" Q_Store Q_NotFound Q_Conflict
    "queue_read C (memory_queue l sch c)" "queue_swap C (memory_queue l sch c)"
    memory_vinv memory_snap memory_mintable queue_updates
  for l sch c C
  by unfold_locales (rule queue_updates_valid)

section \<open>No lost updates\<close>

text \<open>
  C4: no update of a map is lost. Whatever the interleaving of any number of clients, each reading
  a snapshot and later writing what it computed from it, with other operations on the store
  in between, the stored map document is always the result of the updates that were
  committed, applied one after the other to the initial document.
\<close>

theorem map_updates_serializable:
  fixes C :: "('v, 'j) map_serde"
  assumes "map_serde_ok C" "memory_vinv st"
    and "stored_doc (map_decode C sch :: bytes \<Rightarrow> ('j, Infallible) Error + _) (memory_view st l) = Some d0"
    and "(cstep memory_store memory_view (\<lambda>_. True) l memory_mintable (map_read C (memory_map l sch))
      (map_write C (memory_map l sch)) map_updates)\<^sup>*\<^sup>* (initial_conf st) cf"
  shows "\<exists>d. stored_doc (map_decode C sch :: bytes \<Rightarrow> ('j, Infallible) Error + _)
      (memory_view (cf_store cf) l) = Some d \<and> serial d0 (cf_history cf) = Some d"
  by (rule mapc.serializable [OF map_serde_roundtrips [OF assms(1)] assms(2-4)])

text \<open>
  No append to a log is lost, whatever the interleaving of its clients: the stored log document
  is the initial one after the committed appends, in the order of their commits.
\<close>

theorem log_updates_serializable:
  fixes C :: "('v, 'j) log_serde"
  assumes "log_serde_ok C" "memory_vinv st"
    and "stored_doc (log_decode C sch :: bytes \<Rightarrow> ('j, Infallible) Error + _) (memory_view st l) = Some d0"
    and "(cstep memory_store memory_view (\<lambda>_. True) l memory_mintable (log_read C (memory_log l sch))
      (log_write C (memory_log l sch)) log_updates)\<^sup>*\<^sup>* (initial_conf st) cf"
  shows "\<exists>d. stored_doc (log_decode C sch :: bytes \<Rightarrow> ('j, Infallible) Error + _)
      (memory_view (cf_store cf) l) = Some d \<and> serial d0 (cf_history cf) = Some d"
  by (rule logc.serializable [OF log_serde_roundtrips [OF assms(1)] assms(2-4)])

text \<open>
  Publications, claims and acknowledgements of concurrent workers take effect one after the
  other: the stored queue document is the initial one after the committed operations, so a
  claim is always granted on the queue as every earlier committed claim left it.
\<close>

theorem queue_updates_serializable:
  fixes C :: "('v, 'j) queue_serde"
  assumes "queue_serde_ok C" "memory_vinv st"
    and "stored_doc (queue_decode C sch :: bytes \<Rightarrow> ('j, Infallible) QueueError + _) (memory_view st l) = Some d0"
    and "(cstep memory_store memory_view (\<lambda>_. True) l memory_mintable (queue_read C (memory_queue l sch c))
      (queue_swap C (memory_queue l sch c)) queue_updates)\<^sup>*\<^sup>* (initial_conf st) cf"
  shows "\<exists>d. stored_doc (queue_decode C sch :: bytes \<Rightarrow> ('j, Infallible) QueueError + _)
      (memory_view (cf_store cf) l) = Some d \<and> serial d0 (cf_history cf) = Some d"
  by (rule queuec.serializable [OF queue_serde_roundtrips [OF assms(1)] assms(2-4)])

section \<open>Examples\<close>

lemma memory_read_stored:
  fixes C :: "('v, 'j) map_serde" and C' :: "('v, 'j) log_serde" and C'' :: "('v, 'j) queue_serde"
  assumes "memory_view st l = Some obj"
  shows "(map_decode C sch (obj_bytes obj) :: ('j, Infallible) Error + _) = Ok d \<Longrightarrow>
      map_read C (memory_map l sch) st = (Ok (obj_version obj, d), st)"
    and "(log_decode C' sch (obj_bytes obj) :: ('j, Infallible) Error + _) = Ok d' \<Longrightarrow>
      log_read C' (memory_log l sch) st = (Ok (obj_version obj, d'), st)"
    and "(queue_decode C'' sch (obj_bytes obj) :: ('j, Infallible) QueueError + _) = Ok d'' \<Longrightarrow>
      queue_read C'' (memory_queue l sch c) st = (Ok (obj_version obj, d''), st)"
  using assms by (simp_all add: map_read_eq log_read_eq queue_read_eq memory_get_def memory_view_def)

lemma memory_replace_stored:
  "memory_view st l = Some obj \<Longrightarrow>
     memory_replace l (obj_version obj) b st = (Ok (Version (show_word (st_next_version st + 1))), memory_put l b st)"
  by (simp add: memory_replace_def memory_view_def memory_put_def State_version_def Let_def)

lemma memory_write_stored:
  assumes "memory_view st l = Some obj"
  shows "map_serde_ok C \<Longrightarrow> \<exists>v t. map_write C (memory_map l sch) (obj_version obj) d st = (Ok v, t)"
    and "log_serde_ok C' \<Longrightarrow> \<exists>v t. log_write C' (memory_log l sch) (obj_version obj) d' st = (Ok v, t)"
    and "queue_serde_ok C'' \<Longrightarrow> \<exists>v t. queue_swap C'' (memory_queue l sch c) (obj_version obj) d'' st = (Ok v, t)"
proof -
  note defs = map_write_eq log_write_eq queue_swap_eq map_encode_def log_encode_def queue_encode_def
    memory_replace_stored [OF assms]
  show "\<exists>v t. map_write C (memory_map l sch) (obj_version obj) d st = (Ok v, t)" if "map_serde_ok C"
    using that [unfolded map_serde_ok_def, THEN conjunct1, THEN spec, of d] by (auto simp: defs)
  show "\<exists>v t. log_write C' (memory_log l sch) (obj_version obj) d' st = (Ok v, t)" if "log_serde_ok C'"
    using that [unfolded log_serde_ok_def, THEN spec, of d'] by (auto simp: defs)
  show "\<exists>v t. queue_swap C'' (memory_queue l sch c) (obj_version obj) d'' st = (Ok v, t)" if "queue_serde_ok C''"
    using that [unfolded queue_serde_ok_def, THEN spec, of d''] by (auto simp: defs)
qed

lemma sample_states_vinv:
  "memory_vinv sample_map_state" "memory_mintable sample_map_state"
  "memory_vinv sample_log_state" "memory_mintable sample_log_state"
  "memory_vinv sample_queue_state" "memory_mintable sample_queue_state"
proof -
  have s: "show_nat 1 = ''1''" "show_nat 2 = ''2''" "show_nat 3 = ''3''" by code_simp+
  have "issued sample_map_state (Version ''1'')" unfolding issued_def
    by (rule exI [of _ 1]) (use s in \<open>simp add: sample_map_state_def\<close>)
  moreover have "issued sample_log_state (Version ''2'')" unfolding issued_def
    by (rule exI [of _ 2]) (use s in \<open>simp add: sample_log_state_def\<close>)
  moreover have "issued sample_queue_state (Version ''3'')" unfolding issued_def
    by (rule exI [of _ 3]) (use s in \<open>simp add: sample_queue_state_def\<close>)
  ultimately show "memory_vinv sample_map_state" "memory_vinv sample_log_state" "memory_vinv sample_queue_state"
    by (auto simp: memory_vinv_def memory_view_def sample_map_state_def sample_log_state_def
        sample_queue_state_def split: if_splits)
  show "memory_mintable sample_map_state" "memory_mintable sample_log_state" "memory_mintable sample_queue_state"
    by (simp_all add: memory_mintable_def sample_map_state_def sample_log_state_def sample_queue_state_def)
qed

theorem map_updates_serializable_witness:
  "\<exists>d0 cf g d. (cstep memory_store memory_view (\<lambda>_. True) (Location ''prod/maps/users.json'') memory_mintable
      (map_read sample_map_serde (memory_map (Location ''prod/maps/users.json'') ''user-v1''))
      (map_write sample_map_serde (memory_map (Location ''prod/maps/users.json'') ''user-v1''))
      map_updates)\<^sup>*\<^sup>* (initial_conf sample_map_state) cf \<and> cf_history cf = [(0 :: nat, g)] \<and>
    map_doc sample_map_serde ''user-v1'' (Location ''prod/maps/users.json'') (cf_store cf) = Some d \<and>
    serial d0 (cf_history cf) = Some d"
proof -
  let ?l = "Location ''prod/maps/users.json''" and ?C = sample_map_serde
  let ?g = "committed (map_insert_step ''bob'' ''2'' :: _ \<Rightarrow> (unit, _, _) outcome)"
  obtain d0 where d0: "map_doc ?C ''user-v1'' ?l sample_map_state = Some d0"
    using sample_map_stored by (auto simp: stored_map_eq_Some)
  then obtain obj where obj: "memory_view sample_map_state ?l = Some obj"
      "(map_decode ?C ''user-v1'' (obj_bytes obj) :: (unit, Infallible) Error + _) = Ok d0"
    by (auto simp: stored_doc_eq_Some)
  have g: "?g \<in> map_updates" "?g d0 = Some (with_entries (fmupd ''bob'' ''2'') d0)"
    by (auto simp: map_updates_def committed_def map_insert_step_def)
  obtain v t where w: "map_write ?C (memory_map ?l ''user-v1'') (obj_version obj)
      (with_entries (fmupd ''bob'' ''2'') d0) sample_map_state = (Ok v, t)"
    using memory_write_stored(1) [OF obj(1) sample_map_serde_ok] by blast
  note run = one_commit [where g = ?g and rd = "map_read ?C (memory_map ?l ''user-v1'')" and wr = "map_write ?C (memory_map ?l ''user-v1'')" and mintable = memory_mintable
      and S = memory_store and view = memory_view and locs = "\<lambda>_. True" and l = ?l and c = "0 :: nat", OF g(1) memory_read_stored(1) [OF obj] g(2)
      sample_states_vinv(2) w]
  from map_updates_serializable [OF sample_map_serde_ok sample_states_vinv(1) d0 run] run
  show ?thesis by fastforce
qed

theorem log_updates_serializable_witness:
  "\<exists>d0 cf g d. (cstep memory_store memory_view (\<lambda>_. True) (Location ''prod/logs/audit.json'') memory_mintable
      (log_read sample_log_serde (memory_log (Location ''prod/logs/audit.json'') ''event-v1''))
      (log_write sample_log_serde (memory_log (Location ''prod/logs/audit.json'') ''event-v1''))
      log_updates)\<^sup>*\<^sup>* (initial_conf sample_log_state) cf \<and> cf_history cf = [(0 :: nat, g)] \<and>
    log_doc sample_log_serde ''event-v1'' (Location ''prod/logs/audit.json'') (cf_store cf) = Some d \<and>
    serial d0 (cf_history cf) = Some d"
proof -
  let ?l = "Location ''prod/logs/audit.json''" and ?C = sample_log_serde
  let ?g = "\<lambda>d. if LogId 20 \<in> rec_id ` set (ld_records d) then None
    else committed (log_append_step (LogId 20) ''x'' :: _ \<Rightarrow> (unit, _, _) outcome) d"
  obtain d0 where d0: "log_doc ?C ''event-v1'' ?l sample_log_state = Some d0"
      "ld_records d0 = [sample_record 10 ''ten'', sample_record 30 ''thirty'']"
    using sample_log_stored unfolding stored_log_eq_Some by metis
  then obtain obj where obj: "memory_view sample_log_state ?l = Some obj"
      "(log_decode ?C ''event-v1'' (obj_bytes obj) :: (unit, Infallible) Error + _) = Ok d0"
    by (auto simp: stored_doc_eq_Some)
  have g: "?g \<in> log_updates" "?g d0 = Some (with_records (sorted_insert rec_id (sample_record 20 ''x'')) d0)"
    unfolding log_updates_def by (blast, simp add: d0(2) committed_def log_append_step_def)
  obtain v t where w: "log_write ?C (memory_log ?l ''event-v1'') (obj_version obj)
      (with_records (sorted_insert rec_id (sample_record 20 ''x'')) d0) sample_log_state = (Ok v, t)"
    using memory_write_stored(2) [OF obj(1) sample_log_serde_ok] by blast
  note run = one_commit [where g = ?g and rd = "log_read ?C (memory_log ?l ''event-v1'')" and wr = "log_write ?C (memory_log ?l ''event-v1'')" and mintable = memory_mintable
      and S = memory_store and view = memory_view and locs = "\<lambda>_. True" and l = ?l and c = "0 :: nat", OF g(1) memory_read_stored(2) [OF obj] g(2)
      sample_states_vinv(4) w]
  from log_updates_serializable [OF sample_log_serde_ok sample_states_vinv(3) d0(1) run] run
  show ?thesis by fastforce
qed

theorem queue_updates_serializable_witness:
  "\<exists>d0 cf g d. (cstep memory_store memory_view (\<lambda>_. True) jobs memory_mintable
      (queue_read sample_queue_serde sample_queue) (queue_swap sample_queue_serde sample_queue)
      queue_updates)\<^sup>*\<^sup>* (initial_conf sample_queue_state) cf \<and> cf_history cf = [(0 :: nat, g)] \<and>
    queue_doc sample_queue_serde ''job-v1'' jobs (cf_store cf) = Some d \<and>
    serial d0 (cf_history cf) = Some d"
proof -
  let ?C = sample_queue_serde
  let ?f = "queue_claim_step 1000 2000 (LeaseToken 7) :: _ \<Rightarrow> ((unit, unit) QueueError, _, _) outcome"
  obtain d0 where d0: "queue_doc ?C ''job-v1'' jobs sample_queue_state = Some d0"
      "qd_messages d0 = [sample_message 10 ''a'', sample_message 20 ''b'']"
    using sample_queue_stored unfolding stored_queue_eq_Some by metis
  then obtain obj where obj: "memory_view sample_queue_state jobs = Some obj"
      "(queue_decode ?C ''job-v1'' (obj_bytes obj) :: (unit, Infallible) QueueError + _) = Ok d0"
    by (auto simp: stored_doc_eq_Some)
  have "\<exists>d'. committed ?f d0 = Some d'"
    by (simp add: committed_def queue_claim_step_def d0(2) available_def checked_add_def Let_def)
  then obtain d' where d': "committed ?f d0 = Some d'" by blast
  have g: "committed ?f \<in> queue_updates" unfolding queue_updates_def by blast
  obtain v t where w: "queue_swap ?C sample_queue (obj_version obj) d' sample_queue_state = (Ok v, t)"
    using memory_write_stored(3) [OF obj(1) sample_queue_serde_ok, where c = "()"] by blast
  note run = one_commit [where g = "committed ?f" and rd = "queue_read ?C sample_queue" and wr = "queue_swap ?C sample_queue" and mintable = memory_mintable
      and S = memory_store and view = memory_view and locs = "\<lambda>_. True" and l = jobs and c = "0 :: nat", OF g memory_read_stored(3) [OF obj] d'
      sample_states_vinv(6) w]
  from queue_updates_serializable [OF sample_queue_serde_ok sample_states_vinv(5) d0(1) run] run
  show ?thesis by fastforce
qed

section \<open>Progress\<close>

text \<open>
  C24: concurrent workers on a queue do not stop each other: if the write of a worker does not succeed,
  some other operation was committed between its read and its write. In other words, of the
  operations that are tried at the same time one succeeds.
\<close>

theorem queue_lock_free:
  fixes C :: "('v, 'j) queue_serde"
  assumes "queue_serde_ok C" "memory_vinv st"
    and "stored_doc (queue_decode C sch :: bytes \<Rightarrow> ('j, Infallible) QueueError + _) (memory_view st l) = Some d0"
    and "(cstep memory_store memory_view (\<lambda>_. True) l memory_mintable (queue_read C (memory_queue l sch k))
      (queue_swap C (memory_queue l sch k)) queue_updates)\<^sup>*\<^sup>* (initial_conf st) cf"
    and "cf_pending cf c = None" "g \<in> queue_updates"
    and "queue_read C (memory_queue l sch k) (cf_store cf) = (Ok (v, d), t)" "g d = Some d'"
    and "(cstep memory_store memory_view (\<lambda>_. True) l memory_mintable (queue_read C (memory_queue l sch k))
      (queue_swap C (memory_queue l sch k)) queue_updates)\<^sup>*\<^sup>*
      (cf\<lparr>cf_store := t, cf_pending := (cf_pending cf)(c \<mapsto> (v, g, d'))\<rparr>) cf'"
  shows "(\<exists>v' t'. queue_swap C (memory_queue l sch k) v d' (cf_store cf') = (Ok v', t')) \<or>
    length (cf_history cf) < length (cf_history cf')"
proof -
  note rt = queue_serde_roundtrips [OF assms(1)]
  note inv = queuec.cinv_reachable [OF rt assms(4) queuec.cinv_initial [OF assms(2,3)]]
  from queuec.snapshot_current [OF rt inv assms(5-9)] show ?thesis
    using memory_write_stored(3) [OF _ assms(1), where l = l and d'' = d' and sch = sch and c = k] by metis
qed

theorem queue_lock_free_witness:
  "\<exists>v d t g d' v' t'. queue_read sample_queue_serde sample_queue sample_queue_state = (Ok (v, d), t) \<and>
    g \<in> queue_updates \<and> g d = Some d' \<and> queue_swap sample_queue_serde sample_queue v d' t = (Ok v', t')"
proof -
  let ?C = sample_queue_serde
  let ?f = "queue_claim_step 1000 2000 (LeaseToken 7) :: _ \<Rightarrow> ((unit, unit) QueueError, _, _) outcome"
  obtain d0 where d0: "queue_doc ?C ''job-v1'' jobs sample_queue_state = Some d0"
      "qd_messages d0 = [sample_message 10 ''a'', sample_message 20 ''b'']"
    using sample_queue_stored unfolding stored_queue_eq_Some by metis
  then obtain obj where obj: "memory_view sample_queue_state jobs = Some obj"
      "(queue_decode ?C ''job-v1'' (obj_bytes obj) :: (unit, Infallible) QueueError + _) = Ok d0"
    by (auto simp: stored_doc_eq_Some)
  have "\<exists>d'. committed ?f d0 = Some d'"
    by (simp add: committed_def queue_claim_step_def d0(2) available_def checked_add_def Let_def)
  then obtain d' where d': "committed ?f d0 = Some d'" by blast
  have g: "committed ?f \<in> queue_updates" unfolding queue_updates_def by blast
  have idle: "cf_pending (initial_conf sample_queue_state :: (_, nat, _) conf) 0 = None"
    and store: "cf_store (initial_conf sample_queue_state :: (_, nat, _) conf) = sample_queue_state"
    by (simp_all add: initial_conf_def)
  note rd = memory_read_stored(3) [OF obj, where c = "()"]
  from queue_lock_free [OF sample_queue_serde_ok sample_states_vinv(5) d0(1) rtranclp.rtrancl_refl idle g _ d' rtranclp.rtrancl_refl,
      unfolded store, OF rd]
  show ?thesis using rd g d' by fastforce
qed

section \<open>Overtaken writers\<close>

text \<open>
  Of two clients that read the same version of a map, the first to write wins, and the second
  is told so: its write fails with a conflict that names the version it read and the version the
  winner wrote, and leaves the winner's map in place.
\<close>

theorem map_first_committer_wins:
  assumes "map_serde_ok C" "memory_vinv st" "memory_mintable st"
    and rd: "map_read C (memory_map l sch) st = (Ok (v, d), st)"
    and wr: "map_write C (memory_map l sch) v d1 st = (Ok v1, st1)"
  shows "map_write C (memory_map l sch) v d2 st1 =
    (Err (Error_Conflict \<lparr>ce_expected = v, ce_observed = Some v1\<rparr>), st1)"
proof -
  obtain obj where obj: "memory_view st l = Some obj" "obj_version obj = v"
    using rd by (auto simp: map_read_eq memory_get_def memory_view_def split: option.splits sum.splits)
  obtain b1 where "map_encode C d1 = (Ok b1 :: ('b, Infallible) Error + bytes)"
    using wr by (auto simp: map_write_eq split: sum.splits)
  then have w: "v1 = Version (show_word (st_next_version st + 1))" "st1 = memory_put l b1 st"
    using wr obj by (auto simp: map_write_eq memory_replace_stored)
  have "issued st v" using assms(2) obj by (auto simp: memory_vinv_def)
  then have "v1 \<noteq> v" using next_not_issued [OF assms(3)] w(1) by auto
  then have "memory_replace l v b st1 = (Err (Replace_Conflict (Some v1)), st1)" for b
    using w by (simp add: memory_replace_def memory_put_lookup)
  moreover obtain b2 where "ms_to_vec C d2 = Ok b2" using assms(1) by (auto simp: map_serde_ok_def)
  ultimately show ?thesis by (simp add: map_write_eq map_encode_def)
qed

theorem map_first_committer_wins_witness:
  "\<exists>v d v1 st1. map_read sample_map_serde (memory_map (Location ''prod/maps/users.json'') ''user-v1'') sample_map_state
      = (Ok (v, d), sample_map_state) \<and>
    map_write sample_map_serde (memory_map (Location ''prod/maps/users.json'') ''user-v1'') v
      (with_entries (fmupd ''bob'' ''2'') d) sample_map_state = (Ok v1, st1) \<and>
    map_write sample_map_serde (memory_map (Location ''prod/maps/users.json'') ''user-v1'') v
      (with_entries (fmdrop ''ada'') d) st1 =
        (Err (Error_Conflict \<lparr>ce_expected = v, ce_observed = Some v1\<rparr>), st1)"
proof -
  let ?l = "Location ''prod/maps/users.json''" and ?C = sample_map_serde
  obtain d obj where obj: "memory_view sample_map_state ?l = Some obj"
      "(map_decode ?C ''user-v1'' (obj_bytes obj) :: (unit, Infallible) Error + _) = Ok d"
    using sample_map_stored by (auto simp: stored_map_eq_Some stored_doc_eq_Some)
  note rd = memory_read_stored(1) [OF obj]
  obtain v t where w: "map_write ?C (memory_map ?l ''user-v1'') (obj_version obj)
      (with_entries (fmupd ''bob'' ''2'') d) sample_map_state = (Ok v, t)"
    using memory_write_stored(1) [OF obj(1) sample_map_serde_ok] by blast
  from map_first_committer_wins [OF sample_map_serde_ok sample_states_vinv(1,2) rd w] rd w
  show ?thesis by blast
qed

end
