(* ===== verification/S3_Properties.thy ===== *)
theory S3_Properties
  imports S3_Store Concurrent_Structures
begin

text \<open>
  What the S3 store guarantees over a service that keeps its documentation: with other clients
  acting at any time, a write that answers \<open>Ok\<close> replaced what it was to replace and a conflict
  means that it did not write; with nobody acting in the middle of one operation, the store
  keeps the whole contract of \<open>ObjectStore\<close>, and with content-derived \<open>ETag\<close>s the structures over
  it lose no update.
\<close>

section \<open>The service\<close>

text \<open>\<open>V s (bucket, key)\<close> is the object under a key in the state \<open>s\<close> of the service.\<close>

type_synonym 's s3_contents = "'s \<Rightarrow> string \<times> string \<Rightarrow> Object option"

text \<open>
  A conditional \<open>put\<close> is atomic. It succeeds only if its condition holds, and then the key holds the
  body under the entity tag it answers; 404, 409 and 412 mean that it was not applied; after any
  other failure it was applied whole or not at all.
\<close>

definition condition_holds :: "s3_condition \<Rightarrow> Object option \<Rightarrow> bool" where
  "condition_holds c x =
     (case c of If_None_Match _ \<Rightarrow> x = None | If_Match v \<Rightarrow> map_option obj_version x = Some (Version v))"

definition refused :: "('s, 'x) s3_requests \<Rightarrow> 'x \<Rightarrow> bool" where
  "refused R e \<longleftrightarrow> is_status R e 404 \<or> is_status R e 409 \<or> is_status R e 412"

definition put_applied :: "'s s3_contents \<Rightarrow> string \<times> string \<Rightarrow> s3_condition \<Rightarrow> bytes \<Rightarrow> Version \<Rightarrow> 's \<Rightarrow> 's \<Rightarrow> bool" where
  "put_applied V k c b v s t \<longleftrightarrow> condition_holds c (V s k) \<and> V t = (V s)(k \<mapsto> \<lparr>obj_bytes = b, obj_version = v\<rparr>)"

definition s3_put_ok :: "('s, 'x) s3_requests \<Rightarrow> 's s3_contents \<Rightarrow> bool" where
  "s3_put_ok R V \<longleftrightarrow>
     (\<forall>bucket key c ct b s r t. rq_put R bucket key c ct b s = (r, t) \<longrightarrow>
        (case r of
           Ok (Some etag) \<Rightarrow> put_applied V (bucket, key) c b (Version etag) s t
         | Ok None \<Rightarrow> \<exists>v. put_applied V (bucket, key) c b v s t
         | Err e \<Rightarrow> V t = V s \<or> \<not> refused R e \<and> (\<exists>v. put_applied V (bucket, key) c b v s t)))"

text \<open>A read answers from the state it leaves, in which others may have acted; 404 means that there is none.\<close>

definition s3_get_ok :: "('s, 'x) s3_requests \<Rightarrow> 's s3_contents \<Rightarrow> bool" where
  "s3_get_ok R V \<longleftrightarrow>
     (\<forall>bucket key s r t. rq_get R bucket key s = (r, t) \<longrightarrow>
        (case r of
           Ok response \<Rightarrow> \<exists>obj. V t (bucket, key) = Some obj \<and>
             (\<forall>e. rs_etag response = Some e \<longrightarrow> obj_version obj = Version e) \<and>
             (\<forall>b. rs_body response = Ok b \<longrightarrow> obj_bytes obj = b)
         | Err e \<Rightarrow> is_status R e 404 \<longrightarrow> V t (bucket, key) = None))"

definition s3_service_ok :: "('s, 'x) s3_requests \<Rightarrow> 's s3_contents \<Rightarrow> bool" where
  "s3_service_ok R V \<longleftrightarrow> s3_put_ok R V \<and> s3_get_ok R V \<and> (\<forall>c c'. rq_condition R c = Ok c' \<longrightarrow> c' = c)"

text \<open>
  Nobody else acts: reads change nothing, a \<open>put\<close> is refused only if its condition fails, with 412 on
  a present object and 404 on an absent one, and 409, the answer to a concurrent write, does not
  occur.
\<close>

definition s3_undisturbed :: "('s, 'x) s3_requests \<Rightarrow> 's s3_contents \<Rightarrow> bool" where
  "s3_undisturbed R V \<longleftrightarrow>
     (\<forall>bucket key s r t. rq_get R bucket key s = (r, t) \<longrightarrow> V t = V s) \<and>
     (\<forall>bucket key c ct b s e t. rq_put R bucket key c ct b s = (Err e, t) \<longrightarrow> refused R e \<longrightarrow>
        \<not> condition_holds c (V s (bucket, key)))"

section \<open>The operations over the service\<close>

definition s3_view :: "'s s3_contents \<Rightarrow> S3Config \<Rightarrow> 's \<Rightarrow> Location \<Rightarrow> Object option" where
  "s3_view V cfg s l = V s (cfg_bucket cfg, loc_str l)"

lemma s3_get_cases:
  assumes "s3_service_ok R V" "s3_get R cfg l s = (r, t)"
  shows "\<forall>y. r = Ok y \<longrightarrow> y = s3_view V cfg t l"
proof -
  obtain q where q: "rq_get R (cfg_bucket cfg) (loc_str l) s = (q, t)"
    using assms(2) by (auto simp: s3_get_def split: prod.splits sum.splits if_splits)
  have "s3_get_ok R V" using assms(1) by (simp add: s3_service_ok_def)
  from this [unfolded s3_get_ok_def, rule_format, OF q] show ?thesis
    using assms(2) q
    by (auto simp: s3_get_def s3_view_def s3_version_def split: sum.splits if_splits)
qed

lemma s3_observed_cases:
  assumes "s3_service_ok R V" "s3_observed R cfg l s = (r, t)"
  shows "\<exists>q. s3_get R cfg l s = (q, t) \<and> (\<forall>y. r = Ok y \<longrightarrow> y = map_option obj_version (s3_view V cfg t l))"
  using assms(2) s3_get_cases [OF assms(1)]
  by (auto simp: s3_observed_def and_then_def split: prod.splits sum.splits)

text \<open>The conditional \<open>put\<close>: what its answer says of the service.\<close>

lemma s3_view_upd:
  "V t = (V s)((cfg_bucket cfg, loc_str l) \<mapsto> obj) \<Longrightarrow> s3_view V cfg t = (s3_view V cfg s)(l \<mapsto> obj)"
  by (auto simp: s3_view_def fun_eq_iff Location.expand)

definition wrote_under ::
  "'s s3_contents \<Rightarrow> S3Config \<Rightarrow> Location \<Rightarrow> s3_condition \<Rightarrow> bytes \<Rightarrow> Version \<Rightarrow> 's \<Rightarrow> 's \<Rightarrow> bool" where
  "wrote_under V cfg l c b v s t \<longleftrightarrow> condition_holds c (s3_view V cfg s l) \<and>
     s3_view V cfg t = (s3_view V cfg s)(l \<mapsto> \<lparr>obj_bytes = b, obj_version = v\<rparr>)"

lemma s3_put_cases:
  assumes "s3_service_ok R V" "s3_put R wrap cfg l c b s = (q, t)"
  shows "(\<exists>e. q = Err (wrap e)) \<and> t = s
    \<or> (\<exists>etag v. q = Ok (Ok etag) \<and> (\<forall>e. etag = Some e \<longrightarrow> v = Version e) \<and> wrote_under V cfg l c b v s t)
    \<or> (\<exists>e. q = Ok (Err e) \<and> (s3_view V cfg t = s3_view V cfg s \<or>
          \<not> refused R e \<and> (\<exists>v. wrote_under V cfg l c b v s t)))"
proof -
  let ?k = "(cfg_bucket cfg, loc_str l)"
  have applied: "put_applied V ?k c b v s t \<Longrightarrow> wrote_under V cfg l c b v s t" for v
    using s3_view_upd [of V t s cfg l] by (auto simp: put_applied_def wrote_under_def s3_view_def)
  have same: "V t = V s \<Longrightarrow> s3_view V cfg t = s3_view V cfg s" by (simp add: s3_view_def fun_eq_iff)
  have laws: "s3_put_ok R V" "\<And>c'. rq_condition R c = Ok c' \<Longrightarrow> c' = c"
    using assms(1) by (auto simp: s3_service_ok_def)
  consider (header) e where "q = Err (wrap e)" "t = s"
    | (sent) ct r where "rq_put R (cfg_bucket cfg) (loc_str l) c ct b s = (r, t)" "q = Ok r"
    using assms(2) laws(2)
    by (auto simp: s3_put_def and_then_def map_error_def split: prod.splits sum.splits)
  then show ?thesis
  proof cases
    case (sent ct r)
    from laws(1) [unfolded s3_put_ok_def, rule_format, OF sent(1)] show ?thesis
      using sent(2) applied same by (auto split: sum.splits option.splits)
  qed auto
qed

definition put_refused ::
  "('s, 'x) s3_requests \<Rightarrow> S3Config \<Rightarrow> Location \<Rightarrow> s3_condition \<Rightarrow> bytes \<Rightarrow> 's \<Rightarrow> 's \<Rightarrow> bool" where
  "put_refused R cfg l c b s u \<longleftrightarrow>
     (\<exists>ct e. rq_put R (cfg_bucket cfg) (loc_str l) c ct b s = (Err e, u) \<and> refused R e)"

lemma s3_put_refused:
  assumes "s3_service_ok R V" "s3_put R wrap cfg l c b s = (q, u)" "q = Ok (Err e)" "refused R e"
  shows "put_refused R cfg l c b s u"
  using assms unfolding put_refused_def
  by (auto simp: s3_put_def and_then_def map_error_def s3_service_ok_def split: prod.splits sum.splits)

text \<open>
  Each write is its \<open>put\<close>, from \<open>s\<close> to \<open>u\<close>, and, when that was refused, a read from \<open>u\<close> to \<open>t\<close>.
\<close>

lemma s3_create_cases:
  assumes "s3_service_ok R V" "s3_create R cfg l b s = (r, t)"
  shows "\<exists>u. (t = u \<or> (\<exists>q. s3_get R cfg l u = (q, t))) \<and>
    (case r of
       Ok v \<Rightarrow> t = u \<and> wrote_under V cfg l (If_None_Match ''*'') b v s u
     | Err (Create_AlreadyExists ob) \<Rightarrow> s3_view V cfg u = s3_view V cfg s \<and>
         map_option obj_version (s3_view V cfg t l) = Some ob \<and>
         (\<exists>q. s3_get R cfg l u = (q, t)) \<and> put_refused R cfg l (If_None_Match ''*'') b s u
     | Err (Create_Store e) \<Rightarrow> s3_view V cfg u = s3_view V cfg s \<or> (\<exists>v. wrote_under V cfg l (If_None_Match ''*'') b v s u))"
proof -
  let ?c = "If_None_Match ''*''"
  obtain q u where put: "s3_put R (\<lambda>e. Create_Store (S3StoreError_from e)) cfg l ?c b s = (q, u)" by fastforce
  note rest = assms(2) [unfolded s3_create_def and_then_def put]
  note sent = s3_put_refused [OF assms(1) put]
  from s3_put_cases [OF assms(1) put] show ?thesis
  proof (elim disjE exE conjE)
    fix e assume "q = Err (Create_Store (S3StoreError_from e))" "u = s"
    then show ?thesis using rest by (intro exI [of _ u]) auto
  next
    fix etag v assume "q = Ok (Ok etag)" "\<forall>e. etag = Some e \<longrightarrow> v = Version e" "wrote_under V cfg l ?c b v s u"
    then show ?thesis using rest by (intro exI [of _ u]) (cases etag; auto simp: s3_version_def)
  next
    fix e assume q: "q = Ok (Err e)" and view: "s3_view V cfg u = s3_view V cfg s"
    show ?thesis
    proof (cases "is_status R e 409 \<or> is_status R e 412")
      case True
      obtain q' t' where obs: "s3_observed R cfg l u = (q', t')" by fastforce
      note o = s3_observed_cases [OF assms(1) obs]
      have "refused R e" using True by (auto simp: refused_def)
      from sent [OF q this] show ?thesis
        using rest q True obs o view
        by (intro exI [of _ u])
          (cases q'; cases "projr q'"; auto simp: and_then_def map_err_def split: if_splits)
    next
      case False
      then show ?thesis using rest q view by (intro exI [of _ u]) auto
    qed
  next
    fix e v assume q: "q = Ok (Err e)" "\<not> refused R e" "wrote_under V cfg l ?c b v s u"
    then have "\<not> (is_status R e 409 \<or> is_status R e 412)" by (auto simp: refused_def)
    then show ?thesis using rest q by (intro exI [of _ u]) auto
  qed
qed

lemma s3_replace_cases:
  assumes "s3_service_ok R V" "s3_replace R cfg l x b s = (r, t)"
  shows "\<exists>u. (t = u \<or> (\<exists>q. s3_get R cfg l u = (q, t))) \<and>
    (case r of
       Ok v \<Rightarrow> t = u \<and> wrote_under V cfg l (If_Match (version_str x)) b v s u
     | Err (Replace_Conflict ob) \<Rightarrow> s3_view V cfg u = s3_view V cfg s \<and>
         ob = map_option obj_version (s3_view V cfg t l) \<and>
         (\<exists>q. s3_get R cfg l u = (q, t)) \<and> put_refused R cfg l (If_Match (version_str x)) b s u
     | Err (Replace_Store e) \<Rightarrow> s3_view V cfg u = s3_view V cfg s \<or>
         (\<exists>v. wrote_under V cfg l (If_Match (version_str x)) b v s u))"
proof -
  let ?c = "If_Match (version_str x)"
  obtain q u where put: "s3_put R (\<lambda>e. Replace_Store (S3StoreError_from e)) cfg l ?c b s = (q, u)" by fastforce
  note rest = assms(2) [unfolded s3_replace_def and_then_def put]
  note sent = s3_put_refused [OF assms(1) put]
  from s3_put_cases [OF assms(1) put] show ?thesis
  proof (elim disjE exE conjE)
    fix e assume "q = Err (Replace_Store (S3StoreError_from e))" "u = s"
    then show ?thesis using rest by (intro exI [of _ u]) auto
  next
    fix etag v assume "q = Ok (Ok etag)" "\<forall>e. etag = Some e \<longrightarrow> v = Version e" "wrote_under V cfg l ?c b v s u"
    then show ?thesis using rest by (intro exI [of _ u]) (cases etag; auto simp: s3_version_def)
  next
    fix e assume q: "q = Ok (Err e)" and view: "s3_view V cfg u = s3_view V cfg s"
    show ?thesis
    proof (cases "refused R e")
      case True
      obtain q' t' where obs: "s3_observed R cfg l u = (q', t')" by fastforce
      note o = s3_observed_cases [OF assms(1) obs]
      show ?thesis
        using rest q True obs o view sent [OF q True]
        by (intro exI [of _ u]) (cases q'; auto simp: and_then_def map_err_def refused_def split: if_splits)
    next
      case False
      then show ?thesis using rest q view by (intro exI [of _ u]) (auto simp: refused_def)
    qed
  next
    fix e v assume q: "q = Ok (Err e)" "\<not> refused R e" "wrote_under V cfg l ?c b v s u"
    then show ?thesis using rest by (intro exI [of _ u]) (auto simp: refused_def)
  qed
qed

section \<open>A sample service\<close>

definition sample_etag :: "bytes \<Rightarrow> string" where
  "sample_etag b = map (\<lambda>x. char_of (unat x)) b"

definition sample_requests :: "(string \<times> string \<Rightarrow> Object option, nat) s3_requests" where
  "sample_requests =
     \<lparr>rq_status = Some, rq_condition = Ok, rq_content_type = Ok,
      rq_get = (\<lambda>bucket key s. (case s (bucket, key) of
          None \<Rightarrow> (Err 404, s)
        | Some obj \<Rightarrow> (Ok \<lparr>rs_etag = Some (version_str (obj_version obj)), rs_body = Ok (obj_bytes obj)\<rparr>, s))),
      rq_put = (\<lambda>bucket key c ct b s.
        if condition_holds c (s (bucket, key))
        then (Ok (Some (sample_etag b)), s((bucket, key) \<mapsto> \<lparr>obj_bytes = b, obj_version = Version (sample_etag b)\<rparr>))
        else (Err (if s (bucket, key) = None then 404 else 412), s))\<rparr>"

lemma sample_etag_inj: "inj sample_etag"
proof (rule injI)
  fix b b' :: bytes
  have decode: "map (\<lambda>c. of_nat (of_char c)) (sample_etag x) = x" for x :: bytes
  proof -
    have "(of_nat (of_char (char_of (unat w :: nat) :: char) :: nat) :: byte) = w" for w :: byte
    proof -
      have "unat w < 256" using unsigned_less [of w] by simp
      then show ?thesis by (simp add: of_char_of)
    qed
    then show ?thesis by (simp add: sample_etag_def comp_def)
  qed
  assume "sample_etag b = sample_etag b'"
  then show "b = b'" using decode by metis
qed

lemma sample_service_ok: "s3_service_ok sample_requests (\<lambda>s. s)"
  by (auto simp: s3_service_ok_def s3_put_ok_def s3_get_ok_def sample_requests_def put_applied_def
      is_status_def split: option.splits if_splits)

lemma sample_undisturbed: "s3_undisturbed sample_requests (\<lambda>s. s)"
  by (auto simp: s3_undisturbed_def sample_requests_def split: option.splits if_splits)

definition sample_config :: S3Config where
  "sample_config = \<lparr>cfg_bucket = ''data'', cfg_region = ''us-east-1'', cfg_endpoint = None,
     cfg_credentials = Default, cfg_path_style = False\<rparr>"

section \<open>Conditional writes with other clients acting\<close>

text \<open>
  C20: the answers of conditional writes on S3 can be relied on although a refused write is followed
  by a separate read and other clients may act before it. \<open>u\<close> is the state right after the
  \<open>put\<close>. A \<open>create\<close> or \<open>replace\<close> that answers \<open>Ok\<close> found the location empty or at the expected
  version and left exactly its bytes under the answered version; \<open>AlreadyExists\<close> and \<open>Conflict\<close>
  mean that the call wrote nothing, and name the version seen by the later read; after any
  other error the call wrote nothing or exactly its bytes, and that only if its condition held.
\<close>

theorem s3_conditional_writes:
  assumes "s3_service_ok R V"
    and "s3_create R cfg l b s = (rc, tc)" "s3_replace R cfg l x b s = (rr, tr)"
  shows "(\<exists>u. case rc of
       Ok v \<Rightarrow> u = tc \<and> s3_view V cfg s l = None \<and>
         s3_view V cfg u = (s3_view V cfg s)(l \<mapsto> \<lparr>obj_bytes = b, obj_version = v\<rparr>)
     | Err (Create_AlreadyExists ob) \<Rightarrow> s3_view V cfg u = s3_view V cfg s \<and>
         (\<exists>q. s3_get R cfg l u = (q, tc)) \<and> map_option obj_version (s3_view V cfg tc l) = Some ob
     | Err (Create_Store e) \<Rightarrow> (tc = u \<or> (\<exists>q. s3_get R cfg l u = (q, tc))) \<and>
         (s3_view V cfg u = s3_view V cfg s \<or> s3_view V cfg s l = None \<and>
          (\<exists>v. s3_view V cfg u = (s3_view V cfg s)(l \<mapsto> \<lparr>obj_bytes = b, obj_version = v\<rparr>)))) \<and>
   (\<exists>u. case rr of
       Ok v \<Rightarrow> u = tr \<and> map_option obj_version (s3_view V cfg s l) = Some x \<and>
         s3_view V cfg u = (s3_view V cfg s)(l \<mapsto> \<lparr>obj_bytes = b, obj_version = v\<rparr>)
     | Err (Replace_Conflict ob) \<Rightarrow> s3_view V cfg u = s3_view V cfg s \<and>
         (\<exists>q. s3_get R cfg l u = (q, tr)) \<and> ob = map_option obj_version (s3_view V cfg tr l)
     | Err (Replace_Store e) \<Rightarrow> (tr = u \<or> (\<exists>q. s3_get R cfg l u = (q, tr))) \<and>
         (s3_view V cfg u = s3_view V cfg s \<or> map_option obj_version (s3_view V cfg s l) = Some x \<and>
          (\<exists>v. s3_view V cfg u = (s3_view V cfg s)(l \<mapsto> \<lparr>obj_bytes = b, obj_version = v\<rparr>))))"
  (is "?create \<and> ?replace")
proof
  show ?create
    using s3_create_cases [OF assms(1,2)]
    by (elim exE, intro exI) (auto simp: wrote_under_def condition_holds_def split: sum.splits CreateError.splits)
  have x: "Version (version_str x) = x" by simp
  show ?replace
    using s3_replace_cases [OF assms(1,3)]
    by (elim exE, intro exI) (auto simp: wrote_under_def condition_holds_def x split: sum.splits ReplaceError.splits)
qed

theorem s3_conditional_writes_witness:
  "\<exists>rc tc rr tr u. s3_create sample_requests sample_config (Location ''a'') [7] Map.empty = (rc, tc) \<and>
    s3_replace sample_requests sample_config (Location ''a'') (Version ''v'') [7] Map.empty = (rr, tr) \<and>
    rr = Err (Replace_Conflict None) \<and> s3_view (\<lambda>s. s) sample_config u = s3_view (\<lambda>s. s) sample_config Map.empty"
proof -
  have c: "s3_create sample_requests sample_config (Location ''a'') [7] Map.empty =
      (Ok (Version (sample_etag [7])),
       [(''data'', ''a'') \<mapsto> \<lparr>obj_bytes = [7], obj_version = Version (sample_etag [7])\<rparr>])"
    by (simp add: s3_create_def s3_put_def sample_requests_def sample_config_def and_then_def condition_holds_def
        s3_version_def)
  have r: "s3_replace sample_requests sample_config (Location ''a'') (Version ''v'') [7] Map.empty =
      (Err (Replace_Conflict None), Map.empty)"
    by (simp add: s3_replace_def s3_put_def sample_requests_def sample_config_def and_then_def condition_holds_def
        is_status_def s3_observed_def s3_get_def map_err_def)
  from s3_conditional_writes [OF sample_service_ok c r, THEN conjunct2] c r show ?thesis by (auto simp: sum.case) 
qed

section \<open>The contract\<close>

lemma s3_undisturbed_get:
  assumes "s3_undisturbed R V" "s3_get R cfg l s = (r, t)"
  shows "V t = V s"
proof -
  obtain q where "rq_get R (cfg_bucket cfg) (loc_str l) s = (q, t)"
    using assms(2) by (auto simp: s3_get_def split: prod.splits sum.splits if_splits)
  with assms(1) show ?thesis by (auto simp: s3_undisturbed_def)
qed

lemma s3_undisturbed_refused:
  "s3_undisturbed R V \<Longrightarrow> put_refused R cfg l c b s u \<Longrightarrow> \<not> condition_holds c (s3_view V cfg s l)"
  unfolding s3_undisturbed_def put_refused_def s3_view_def by blast

lemma s3_store_sel [simp]:
  "os_get (s3_store R cfg) = s3_get R cfg" "os_create (s3_store R cfg) = s3_create R cfg"
  "os_replace (s3_store R cfg) = s3_replace R cfg"
  by (simp_all add: s3_store_def)

lemma s3_view_same: "V t = V s \<Longrightarrow> s3_view V cfg t = s3_view V cfg s"
  by (simp add: s3_view_def fun_eq_iff)

lemma s3_object_store_laws:
  assumes ok: "s3_service_ok R V" and un: "s3_undisturbed R V"
  shows "object_store_laws (s3_store R cfg) (s3_view V cfg) (\<lambda>_. True) (\<lambda>_. True)"
proof -
  have get: "s3_view V cfg t = s3_view V cfg s" if "s3_get R cfg l s = (r, t)" for l s r t
    using s3_undisturbed_get [OF un that] s3_view_same by metis
  note cre = s3_create_cases [OF ok] and rep = s3_replace_cases [OF ok]
  show ?thesis
  proof (unfold_locales, goal_cases)
    case (1 s l r t)
    then show ?case using get [of l s r t] s3_get_cases [OF ok, of cfg l s r t] by simp
  next
    case (3 s l b v t)
    then show ?case using cre [of cfg l b s "Inr v" t] by (auto simp: wrote_under_def condition_holds_def)
  next
    case (4 s l b v t)
    then obtain u where u: "s3_view V cfg u = s3_view V cfg s" "\<exists>q. s3_get R cfg l u = (q, t)"
        "map_option obj_version (s3_view V cfg t l) = Some v"
      using cre [of cfg l b s "Inl (Create_AlreadyExists v)" t] by auto
    then have "s3_view V cfg t = s3_view V cfg s" using get by metis
    with u(3) show ?case by simp
  next
    case (5 s l b e t)
    then obtain u where u: "t = u \<or> (\<exists>q. s3_get R cfg l u = (q, t))"
        "s3_view V cfg u = s3_view V cfg s \<or> (\<exists>v. wrote_under V cfg l (If_None_Match ''*'') b v s u)"
      using cre [of cfg l b s "Inl (Create_Store e)" t] by auto
    then have "s3_view V cfg t = s3_view V cfg u" using get by metis
    with u(2) show ?case by (auto simp: wrote_under_def condition_holds_def)
  next
    case (7 s l x b v t)
    then show ?case using rep [of cfg l x b s "Inr v" t] by (auto simp: wrote_under_def condition_holds_def)
  next
    case (8 s l x b ob t)
    then obtain u where u: "s3_view V cfg u = s3_view V cfg s" "ob = map_option obj_version (s3_view V cfg t l)"
        "\<exists>q. s3_get R cfg l u = (q, t)" "put_refused R cfg l (If_Match (version_str x)) b s u"
      using rep [of cfg l x b s "Inl (Replace_Conflict ob)" t] by auto
    then have "s3_view V cfg t = s3_view V cfg s" using get by metis
    then show ?case
      using u(2) s3_undisturbed_refused [OF un u(4)] by (simp add: condition_holds_def)
  next
    case (9 s l x b e t)
    then obtain u where u: "t = u \<or> (\<exists>q. s3_get R cfg l u = (q, t))"
        "s3_view V cfg u = s3_view V cfg s \<or> (\<exists>v. wrote_under V cfg l (If_Match (version_str x)) b v s u)"
      using rep [of cfg l x b s "Inl (Replace_Store e)" t] by auto
    then have "s3_view V cfg t = s3_view V cfg u" using get by metis
    with u(2) show ?case by (auto simp: wrote_under_def condition_holds_def)
  qed simp_all
qed

text \<open>Entity tags derived from the content: \<open>h\<close> is the service's collision-free digest.\<close>

definition s3_content_etags :: "('s, 'x) s3_requests \<Rightarrow> 's s3_contents \<Rightarrow> (bytes \<Rightarrow> string) \<Rightarrow> bool" where
  "s3_content_etags R V h \<longleftrightarrow> inj h \<and>
     (\<forall>bucket key c ct b s r t. rq_put R bucket key c ct b s = (r, t) \<longrightarrow>
        V t = V s \<or> V t = (V s)((bucket, key) \<mapsto> \<lparr>obj_bytes = b, obj_version = Version (h b)\<rparr>))"

definition s3_vinv :: "'s s3_contents \<Rightarrow> (bytes \<Rightarrow> string) \<Rightarrow> S3Config \<Rightarrow> 's \<Rightarrow> bool" where
  "s3_vinv V h cfg s \<longleftrightarrow>
     (\<forall>l obj. s3_view V cfg s l = Some obj \<longrightarrow> obj_version obj = Version (h (obj_bytes obj)))"

definition s3_snap :: "(bytes \<Rightarrow> string) \<Rightarrow> 's \<Rightarrow> Location \<Rightarrow> Object \<Rightarrow> bool" where
  "s3_snap h s l obj \<longleftrightarrow> obj_version obj = Version (h (obj_bytes obj))"

definition s3_ran :: "('s, 'x) s3_requests \<Rightarrow> S3Config \<Rightarrow> Location \<Rightarrow> bytes \<Rightarrow> 's \<Rightarrow> 's \<Rightarrow> bool" where
  "s3_ran R cfg l b s t \<longleftrightarrow>
     (\<exists>u. (u = s \<or> (\<exists>c ct q. rq_put R (cfg_bucket cfg) (loc_str l) c ct b s = (q, u))) \<and>
        (t = u \<or> (\<exists>q. s3_get R cfg l u = (q, t))))"

lemma s3_put_ran: "s3_put R wrap cfg l c b s = (q, u) \<Longrightarrow>
    u = s \<or> (\<exists>c ct q. rq_put R (cfg_bucket cfg) (loc_str l) c ct b s = (q, u))"
  by (auto simp: s3_put_def and_then_def split: prod.splits sum.splits)

lemma s3_observed_ran: "s3_observed R cfg l u = (q, t) \<Longrightarrow> \<exists>q. s3_get R cfg l u = (q, t)"
  by (auto simp: s3_observed_def and_then_def split: prod.splits sum.splits)

lemma s3_writes_ran:
  "s3_create R cfg l b s = (rc, tc) \<Longrightarrow> s3_ran R cfg l b s tc"
  "s3_replace R cfg l x b s = (rr, tr) \<Longrightarrow> s3_ran R cfg l b s tr"
proof -
  assume "s3_create R cfg l b s = (rc, tc)"
  then show "s3_ran R cfg l b s tc"
    unfolding s3_create_def
  proof (cases rule: and_then_cases)
    case (Err e)
    then show ?thesis unfolding s3_ran_def using s3_put_ran [OF Err(1)] by (intro exI [of _ tc]) simp
  next
    case (Ok q u)
    then have "tc = u \<or> (\<exists>q. s3_get R cfg l u = (q, tc))"
      by (cases q) (auto simp: and_then_def map_err_def split: if_splits prod.splits sum.splits dest: s3_observed_ran)
    with s3_put_ran [OF Ok(1)] show ?thesis unfolding s3_ran_def by (intro exI [of _ u]) simp
  qed
next
  assume "s3_replace R cfg l x b s = (rr, tr)"
  then show "s3_ran R cfg l b s tr"
    unfolding s3_replace_def
  proof (cases rule: and_then_cases)
    case (Err e)
    then show ?thesis unfolding s3_ran_def using s3_put_ran [OF Err(1)] by (intro exI [of _ tr]) simp
  next
    case (Ok q u)
    then have "tr = u \<or> (\<exists>q. s3_get R cfg l u = (q, tr))"
      by (cases q) (auto simp: and_then_def map_err_def split: if_splits prod.splits sum.splits dest: s3_observed_ran)
    with s3_put_ran [OF Ok(1)] show ?thesis unfolding s3_ran_def by (intro exI [of _ u]) simp
  qed
qed

lemma s3_vinv_ran:
  assumes "s3_undisturbed R V" "s3_content_etags R V h" "s3_vinv V h cfg s" "s3_ran R cfg l b s t"
  shows "s3_vinv V h cfg t"
proof -
  obtain u where u: "u = s \<or> (\<exists>c ct q. rq_put R (cfg_bucket cfg) (loc_str l) c ct b s = (q, u))" "V t = V u"
    using assms(4) s3_undisturbed_get [OF assms(1)] unfolding s3_ran_def by metis
  have "V u = V s \<or> V u = (V s)((cfg_bucket cfg, loc_str l) \<mapsto> \<lparr>obj_bytes = b, obj_version = Version (h b)\<rparr>)"
    using u(1) assms(2) unfolding s3_content_etags_def by metis
  then show ?thesis using assms(3) u(2) by (auto simp: s3_vinv_def s3_view_def split: if_splits)
qed

lemma s3_versioned_store:
  assumes ok: "s3_service_ok R V" and un: "s3_undisturbed R V" and tags: "s3_content_etags R V h"
  shows "versioned_store (s3_store R cfg) (s3_view V cfg) (\<lambda>_. True) (\<lambda>_. True)
    (s3_vinv V h cfg) (s3_snap h) (\<lambda>_. True)"
proof (rule versioned_store.intro [OF s3_object_store_laws [OF ok un]], unfold_locales, goal_cases)
  case (2 s l r t)
  then show ?case using s3_undisturbed_get [OF un] by (simp add: s3_vinv_def s3_view_def)
next
  case (3 s l b rc t)
  then show ?case using s3_vinv_ran [OF un tags] s3_writes_ran(1) by (metis s3_store_sel(2))
next
  case (4 s l x b rr t)
  then show ?case using s3_vinv_ran [OF un tags] s3_writes_ran(2) by (metis s3_store_sel(3))
next
  case (6 s l obj obj')
  then have "h (obj_bytes obj') = h (obj_bytes obj)" by (auto simp: s3_vinv_def s3_snap_def)
  moreover have "inj h" using tags by (simp add: s3_content_etags_def)
  ultimately have "obj_bytes obj' = obj_bytes obj" by (simp add: inj_eq)
  with 6 show ?case by simp
qed (auto simp: s3_vinv_def s3_snap_def)


definition sample_s3_object :: Object where
  "sample_s3_object =
     (let b = put_fields [''1'', ''map'', ''user-v1'', ''ada'', ''1'']
      in \<lparr>obj_bytes = b, obj_version = Version (sample_etag b)\<rparr>)"

definition sample_s3_state :: "string \<times> string \<Rightarrow> Object option" where
  "sample_s3_state = [(''data'', ''prod/maps/users.json'') \<mapsto> sample_s3_object]"

lemma sample_content_etags: "s3_content_etags sample_requests (\<lambda>s. s) sample_etag"
  using sample_etag_inj by (auto simp: s3_content_etags_def sample_requests_def split: if_splits)


section \<open>Secrets\<close>

text \<open>
  Debug output of a store never depends on its secrets: stores whose static credentials differ
  only in the secret key and in the text of the session token print alike.
\<close>

theorem s3_debug_redacts:
  "debug_S3Store \<lparr>s3_config = cfg\<lparr>cfg_credentials := Static k secret token\<rparr>, s3_client = c\<rparr> =
   debug_S3Store \<lparr>s3_config = cfg\<lparr>cfg_credentials := Static k secret' (map_option f token)\<rparr>, s3_client = c'\<rparr>"
  by (cases token) (simp_all add: debug_S3Store_def debug_S3Config_def debug_Credentials_def)

section \<open>The builder\<close>

lemma S3StoreBuilder_build_set:
  assumes "s3b_bucket b = Some bucket" "s3b_region b = Some region"
    and "endpoint = (case s3b_endpoint b of Some e \<Rightarrow> e | None \<Rightarrow> default_endpoint region)"
    and "style = (if s3b_path_style b then Path else Auto)"
    and "config = \<lparr>cfg_bucket = bucket, cfg_region = region, cfg_endpoint = s3b_endpoint b,
      cfg_credentials = s3b_credentials b, cfg_path_style = s3b_path_style b\<rparr>"
  shows "S3StoreBuilder_build U b =
    (case su_builder U endpoint of Err e \<Rightarrow> Err (S3B_Transport e)
     | Ok cb \<Rightarrow> (case to_auth U (s3b_credentials b) of Err e \<Rightarrow> Err e
     | Ok auth \<Rightarrow> (case su_build U (su_addressing_style U (su_auth U (su_region U cb region) auth) style) of
         Err e \<Rightarrow> Err (S3B_Transport e)
       | Ok client \<Rightarrow> Ok \<lparr>s3_config = config, s3_client = client\<rparr>)))"
proof -
  have ep: "(case cfg_endpoint config of Some e \<Rightarrow> e | None \<Rightarrow> default_endpoint region) = endpoint"
    "(if cfg_path_style config then Path else Auto) = style"
    "cfg_credentials config = s3b_credentials b" "cfg_region config = region"
    using assms(3-5) by (simp_all split: option.split)
  show ?thesis
    unfolding S3StoreBuilder_build_def Let_def assms(1,2) ok_or_simps sum.case assms(5) [symmetric] ep(4) ep(1-3)
    by (simp add: map_error_def S3BuildError_from_def split: sum.split)
qed

text \<open>
  C32: every outcome of \<open>build\<close>: a missing bucket is reported first, then a missing region, then the
  errors of the client library in the order endpoint, credentials, client; otherwise the store
  has the configuration that was set, and a client for the given endpoint or, without one, for
  the regional endpoint of AWS. The error \<open>InvalidRegion\<close> is never reported.
\<close>

theorem s3_build_spec:
  fixes U :: "('x, 'cr, 'au, 'b, 'c) s3_setup"
  shows "S3StoreBuilder_build U b \<noteq> Err S3B_InvalidRegion \<and>
    (s3b_bucket b = None \<longrightarrow> S3StoreBuilder_build U b = Err S3B_MissingBucket) \<and>
    (s3b_bucket b \<noteq> None \<longrightarrow> s3b_region b = None \<longrightarrow> S3StoreBuilder_build U b = Err S3B_MissingRegion) \<and>
    (\<forall>bucket region. s3b_bucket b = Some bucket \<longrightarrow> s3b_region b = Some region \<longrightarrow>
      (let endpoint = (case s3b_endpoint b of Some e \<Rightarrow> e | None \<Rightarrow> ''https://s3.'' @ region @ ''.amazonaws.com'');
           style = (if s3b_path_style b then Path else Auto)
       in case su_builder U endpoint of
            Err e \<Rightarrow> S3StoreBuilder_build U b = Err (S3B_Transport e)
          | Ok cb \<Rightarrow> (case to_auth U (s3b_credentials b) of
              Err e \<Rightarrow> S3StoreBuilder_build U b = Err e
            | Ok auth \<Rightarrow> (case su_build U (su_addressing_style U (su_auth U (su_region U cb region) auth) style) of
                Err e \<Rightarrow> S3StoreBuilder_build U b = Err (S3B_Transport e)
              | Ok client \<Rightarrow> S3StoreBuilder_build U b = Ok
                  \<lparr>s3_config = \<lparr>cfg_bucket = bucket, cfg_region = region, cfg_endpoint = s3b_endpoint b,
                     cfg_credentials = s3b_credentials b, cfg_path_style = s3b_path_style b\<rparr>, s3_client = client\<rparr>))))"
proof -
  have auth: "to_auth U c \<noteq> Err S3B_InvalidRegion" for c
    by (auto simp: to_auth_def map_error_def S3BuildError_from_def split: Credentials.splits sum.splits option.splits)
  show ?thesis
  proof (cases "s3b_bucket b = None \<or> s3b_region b = None")
    case True
    then show ?thesis by (cases "s3b_bucket b") (auto simp: S3StoreBuilder_build_def)
  next
    case False
    then obtain bucket region where set: "s3b_bucket b = Some bucket" "s3b_region b = Some region" by auto
    define endpoint where "endpoint = (case s3b_endpoint b of Some e \<Rightarrow> e | None \<Rightarrow> default_endpoint region)"
    define style where "style = (if s3b_path_style b then Path else Auto)"
    note build = S3StoreBuilder_build_set [OF set endpoint_def style_def refl, of U]
    show ?thesis
      using auth [of "s3b_credentials b"] set build
      unfolding default_endpoint_def [symmetric]
      by (cases "su_builder U endpoint"; cases "to_auth U (s3b_credentials b)";
          cases "su_build U (su_addressing_style U (su_auth U (su_region U (projr (su_builder U endpoint)) region)
            (projr (to_auth U (s3b_credentials b)))) style)")
        (auto simp flip: endpoint_def style_def)
  qed
qed

definition sample_setup :: "(unit, string \<times> string, string, string, string) s3_setup" where
  "sample_setup = \<lparr>su_from_env = Err (), su_credentials = (\<lambda>k s. Ok (k, s)), su_with_session_token = (\<lambda>c t. Ok c),
     su_static = fst, su_builder = Ok, su_region = (\<lambda>b r. b @ '' '' @ r), su_auth = (\<lambda>b a. b @ '' '' @ a),
     su_addressing_style = (\<lambda>b a. b), su_build = Ok\<rparr>"

theorem s3_build_spec_witness:
  "S3StoreBuilder_build sample_setup (S3StoreBuilder_region (S3StoreBuilder_bucket
     (S3StoreBuilder_credentials S3Store_builder (Credentials_new ''key'' ''secret'')) ''data'') ''us-east-1'') =
   Ok \<lparr>s3_config = \<lparr>cfg_bucket = ''data'', cfg_region = ''us-east-1'', cfg_endpoint = None,
         cfg_credentials = Static ''key'' ''secret'' None, cfg_path_style = False\<rparr>,
       s3_client = ''https://s3.us-east-1.amazonaws.com us-east-1 key''\<rparr>"
proof -
  let ?b = "S3StoreBuilder_region (S3StoreBuilder_bucket
     (S3StoreBuilder_credentials S3Store_builder (Credentials_new ''key'' ''secret'')) ''data'') ''us-east-1''"
  have b: "?b = \<lparr>s3b_bucket = Some ''data'', s3b_region = Some ''us-east-1'', s3b_endpoint = None,
      s3b_credentials = Static ''key'' ''secret'' None, s3b_path_style = False\<rparr>"
    by (simp add: S3StoreBuilder_region_def S3StoreBuilder_bucket_def S3StoreBuilder_credentials_def S3Store_builder_def
        S3StoreBuilder_default_def Credentials_new_def)
  have "to_auth sample_setup (Static ''key'' ''secret'' None) = Ok ''key''"
    by (simp add: to_auth_def sample_setup_def)
  then show ?thesis
    using s3_build_spec [of sample_setup ?b, THEN conjunct2, THEN conjunct2, THEN conjunct2, rule_format, of "''data''" "''us-east-1''"]
    by (simp add: b sample_setup_def Let_def)
qed

end
