(* ===== verification/Core_Tests.thy ===== *)
theory Core_Tests
  imports Test_Harness S3_Properties
begin

text \<open>
  The unit tests of \<open>objsds\<close> (\<open>lifecycle.rs\<close>), \<open>objsds-store\<close>, \<open>objsds-store-memory\<close> and
  \<open>objsds-store-s3\<close> as programs over the model, with the stores that the tests define. A panic inside such a
  store is the error of the store.
\<close>

section \<open>Stores of the lifecycle tests\<close>

text \<open>\<open>unreachable\<close> stands for the \<open>create\<close> that the code marks so.\<close>

definition conflicting_store ::
  "(Location \<Rightarrow> bytes \<Rightarrow> ('s, 'e CreateError, Version) comp) \<Rightarrow> Version \<Rightarrow> ('s, 'e) object_store" where
  "conflicting_store unreachable observed =
     \<lparr>os_get = (\<lambda>_. ok None),
      os_create = unreachable,
      os_replace = (\<lambda>_ _ _. err (Replace_Conflict (Some observed)))\<rparr>"

text \<open>The second part of the state is the flag \<open>raced\<close>; errors of the memory store do not occur.\<close>

definition inner :: "(State, 'e, 'a) comp \<Rightarrow> (State \<times> bool, 'e, 'a) comp" where
  "inner c s = (case c (fst s) of (r, t) \<Rightarrow> (r, (t, snd s)))"

definition create_race_store :: "(State \<times> bool, panic) object_store" where
  "create_race_store =
     \<lparr>os_get = (\<lambda>l s.
        if \<not> snd s
        then and_then (expect ''competing create should succeed'' (inner (memory_create l (byte_str ''winner''))))
               (\<lambda>_. ok None) (fst s, True)
        else map_err (\<lambda>_. Assertion) (inner (memory_get l)) s),
      os_create = (\<lambda>l b. map_err (map_CreateError (\<lambda>_. Assertion)) (inner (memory_create l b))),
      os_replace = (\<lambda>l x b. map_err (map_ReplaceError (\<lambda>_. Assertion)) (inner (memory_replace l x b)))\<rparr>"

section \<open>The tests\<close>

definition replacement_conflict_reports_expected_and_observed_versions ::
  "(Location \<Rightarrow> bytes \<Rightarrow> (unit, 'e CreateError, Version) comp) \<Rightarrow> panic + unit" where
  "replacement_conflict_reports_expected_and_observed_versions unreachable =
     fst (and_then (expect ''location should be valid'' (lift_result (Location_new ''maps/users.json''))) (\<lambda>location.
     and_then (expect_err ''replacement should conflict''
       (lifecycle_replace (conflicting_store unreachable (Version ''observed'')) location (Version ''expected'')
          (byte_str ''replacement'') :: (unit, (unit, 'e) Error, Version) comp)) (\<lambda>e.
     assert_that (case e of
         Error_Conflict c \<Rightarrow> ce_expected c = Version ''expected'' \<and> ce_observed c = Some (Version ''observed'')
       | _ \<Rightarrow> False))) ())"

definition open_or_create_opens_the_winner_of_a_create_race :: "panic + unit" where
  "open_or_create_opens_the_winner_of_a_create_race =
     fst (and_then (expect ''location should be valid'' (lift_result (Location_new ''maps/users.json''))) (\<lambda>location.
     expect ''the winning object should open''
       (open_or_create_structure create_race_store location (Ok (byte_str ''loser'') :: (unit, panic) Error + bytes)
         (and_then (map_err (\<lambda>source. Error_Store \<lparr>se_source = source\<rparr>) (os_get create_race_store location)) (\<lambda>found.
          map_err (\<lambda>p. Error_Store \<lparr>se_source = p\<rparr>)
            (and_then (expect_some ''winning object should exist'' found) (\<lambda>object.
             assert_that (obj_bytes object = byte_str ''winner''))))))) (State_default, False))"

definition rejects_a_stale_replacement :: "panic + unit" where
  "rejects_a_stale_replacement =
     fst (and_then (expect ''location should be valid'' (lift_result (Location_new ''maps/users.json''))) (\<lambda>location.
     and_then (expect ''initial create should succeed'' (memory_create location (byte_str ''first''))) (\<lambda>first.
     and_then (expect ''current replacement should succeed'' (memory_replace location first (byte_str ''second''))) (\<lambda>second.
     and_then (expect_err ''stale replacement should conflict'' (memory_replace location first (byte_str ''stale''))) (\<lambda>e.
     assert_that (case e of Replace_Conflict (Some observed) \<Rightarrow> observed = second | _ \<Rightarrow> False))))) State_default)"

definition path_segments_reject_empty_dot_and_slash :: "panic + unit" where
  "path_segments_reject_empty_dot_and_slash =
     fst (and_then (assert_that (is_path_segment ''jobs'')) (\<lambda>_.
     and_then (assert_that (\<not> is_path_segment '''')) (\<lambda>_.
     and_then (assert_that (\<not> is_path_segment ''.'')) (\<lambda>_.
     and_then (assert_that (\<not> is_path_segment ''..'')) (\<lambda>_.
     assert_that (\<not> is_path_segment ''a/b''))))) ())"

definition structure_joins_validated_segments :: "panic + unit" where
  "structure_joins_validated_segments =
     fst (and_then (expect ''structure location should be valid''
       (lift_result (Location_structure ''prod'' ''queues'' ''jobs''))) (\<lambda>location.
     and_then (assert_that (Location_as_str location = ''prod/queues/jobs.json'')) (\<lambda>_.
     and_then (assert_that (Location_structure ''prod'' ''queues'' ''..'' = Err InvalidLocation)) (\<lambda>_.
     assert_that (Location_structure '''' ''queues'' ''jobs'' = Err InvalidLocation)))) ())"

definition rustfs_builder :: S3StoreBuilder where
  "rustfs_builder =
     S3StoreBuilder_path_style
       (S3StoreBuilder_credentials
         (S3StoreBuilder_endpoint
           (S3StoreBuilder_region (S3StoreBuilder_bucket S3Store_builder ''data'') ''us-east-1'') ''http://localhost:9000'')
         (Credentials_new ''access'' ''secret'')) True"

definition builds_rustfs_configuration :: "('x, 'cr, 'au, 'b, 'c) s3_setup \<Rightarrow> panic + unit" where
  "builds_rustfs_configuration U =
     fst (and_then (expect ''RustFS configuration should be valid'' (lift_result (S3StoreBuilder_build U rustfs_builder))) (\<lambda>store.
     and_then (assert_that (cfg_bucket (S3Store_config store) = ''data'')) (\<lambda>_.
     and_then (assert_that (cfg_path_style (S3Store_config store))) (\<lambda>_.
     assert_that (\<not> contains_str (debug_str ''secret'') (debug_S3Store store))))) ())"

section \<open>They pass\<close>

lemmas test_defs = and_then_def expect_def expect_err_def attempt_def map_err_def lift_result_def ok_def err_def

lemma Location_new_users: "Location_new ''maps/users.json'' = Ok (Location ''maps/users.json'')"
  by code_simp

lemma lifecycle_tests:
  "replacement_conflict_reports_expected_and_observed_versions unreachable = Ok ()"
  "open_or_create_opens_the_winner_of_a_create_race = Ok ()"
  unfolding replacement_conflict_reports_expected_and_observed_versions_def open_or_create_opens_the_winner_of_a_create_race_def
    Location_new_users
  by (simp_all add: test_defs lifecycle_replace_def conflicting_store_def create_race_store_def inner_def
      open_or_create_structure_def open_structure_def lifecycle_create_def memory_defs State_default_def)

lemma memory_test: "rejects_a_stale_replacement = Ok ()"
  unfolding rejects_a_stale_replacement_def Location_new_users
  by (simp add: test_defs memory_defs State_default_def)

lemma location_tests: "path_segments_reject_empty_dot_and_slash = Ok ()" "structure_joins_validated_segments = Ok ()"
  by code_simp+

lemma s3_test:
  assumes "S3StoreBuilder_build U rustfs_builder = Ok st"
  shows "builds_rustfs_configuration U = Ok ()"
proof -
  have cfg: "s3_config st = \<lparr>cfg_bucket = ''data'', cfg_region = ''us-east-1'', cfg_endpoint = Some ''http://localhost:9000'',
      cfg_credentials = Static ''access'' ''secret'' None, cfg_path_style = True\<rparr>"
    using assms
    by (auto simp: rustfs_builder_def S3StoreBuilder_build_def S3StoreBuilder_path_style_def S3StoreBuilder_credentials_def
        S3StoreBuilder_endpoint_def S3StoreBuilder_region_def S3StoreBuilder_bucket_def S3Store_builder_def S3StoreBuilder_default_def
        ok_or_def Credentials_new_def Let_def split: sum.splits)
  have "\<not> contains_str (debug_str ''secret'') (debug_S3Store st)"
    unfolding debug_S3Store_def cfg by code_simp
  then show ?thesis
    using assms cfg by (simp add: builds_rustfs_configuration_def test_defs S3Store_config_def)
qed

text \<open>
  The unit tests of the core crates pass: a refused replacement reports the expected and the
  observed version; opening or creating during a race opens the winner's object; a stale replacement
  is refused; path segments and structure locations are validated; and, if the client library
  accepts it, the RustFS configuration is built and its debug output does not show the secret.
\<close>

theorem core_unit_tests_pass:
  "replacement_conflict_reports_expected_and_observed_versions unreachable = Ok () \<and>
   open_or_create_opens_the_winner_of_a_create_race = Ok () \<and>
   rejects_a_stale_replacement = Ok () \<and>
   path_segments_reject_empty_dot_and_slash = Ok () \<and>
   structure_joins_validated_segments = Ok () \<and>
   ((\<exists>st. S3StoreBuilder_build U rustfs_builder = Ok st) \<longrightarrow> builds_rustfs_configuration U = Ok ())"
  using lifecycle_tests memory_test location_tests s3_test by blast

theorem core_unit_tests_pass_witness:
  "builds_rustfs_configuration sample_setup = Ok () \<and>
   replacement_conflict_reports_expected_and_observed_versions (\<lambda>_ _. ok (Version ''1'') :: (unit, Infallible CreateError, Version) comp) = Ok ()"
proof -
  have "\<exists>st. S3StoreBuilder_build sample_setup rustfs_builder = Ok st"
    by (simp add: rustfs_builder_def S3StoreBuilder_build_def S3StoreBuilder_path_style_def S3StoreBuilder_credentials_def
        S3StoreBuilder_endpoint_def S3StoreBuilder_region_def S3StoreBuilder_bucket_def S3Store_builder_def S3StoreBuilder_default_def
        ok_or_def Credentials_new_def to_auth_def sample_setup_def)
  with core_unit_tests_pass [where U = sample_setup and unreachable = "\<lambda>_ _. ok (Version ''1'') :: (unit, Infallible CreateError, Version) comp"] show ?thesis by blast
qed

end
