(* ===== verification/Filesystem_Format.thy ===== *)
theory Filesystem_Format
  imports Store_Interface
begin

text \<open>
  \<open>error.rs\<close>, \<open>format.rs\<close> and the path computations of \<open>path.rs\<close> of the crate
  \<open>objsds-store-filesystem\<close>: the errors, the envelope around an object's bytes, the file of a
  location and the file of its lock. The crate \<open>uuid\<close> is the parameter \<open>uuid_ops\<close>, of which
  \<open>uuid_ops_ok\<close> states what its documentation says. Lengths are 64-bit, as \<open>usize\<close> is on the
  supported targets, and paths are Unix paths.
\<close>

section \<open>Errors\<close>

datatype io_error = IO_NotFound | IO_AlreadyExists | IO_NotADirectory | IO_IsADirectory | IO_Other string

datatype FsBuildError = FsB_MissingRoot | FsB_Io io_error

datatype FsStoreError =
    FsS_InvalidLocation | FsS_Io io_error | FsS_InvalidObjectFormat | FsS_UnsupportedFormatVersion

fun display_FsBuildError :: "(io_error \<Rightarrow> string) \<Rightarrow> FsBuildError \<Rightarrow> string" where
  "display_FsBuildError dio FsB_MissingRoot = ''missing filesystem root''"
| "display_FsBuildError dio (FsB_Io e) = ''could not prepare filesystem root: '' @ dio e"

fun source_FsBuildError :: "FsBuildError \<Rightarrow> io_error option" where
  "source_FsBuildError FsB_MissingRoot = None"
| "source_FsBuildError (FsB_Io e) = Some e"

fun display_FsStoreError :: "(io_error \<Rightarrow> string) \<Rightarrow> FsStoreError \<Rightarrow> string" where
  "display_FsStoreError dio FsS_InvalidLocation = ''invalid filesystem object location''"
| "display_FsStoreError dio (FsS_Io e) = ''filesystem operation failed: '' @ dio e"
| "display_FsStoreError dio FsS_InvalidObjectFormat = ''invalid filesystem object format''"
| "display_FsStoreError dio FsS_UnsupportedFormatVersion =
     ''unsupported filesystem object format version''"

fun source_FsStoreError :: "FsStoreError \<Rightarrow> io_error option" where
  "source_FsStoreError (FsS_Io e) = Some e"
| "source_FsStoreError _ = None"

definition FsStoreError_from :: "io_error \<Rightarrow> FsStoreError" where
  "FsStoreError_from e = FsS_Io e"

section \<open>The envelope\<close>

record uuid_ops =
  uu_to_string :: "uuid \<Rightarrow> string"
  uu_as_bytes :: "uuid \<Rightarrow> bytes"
  uu_from_slice :: "bytes \<Rightarrow> uuid option"

definition uuid_ops_ok :: "uuid_ops \<Rightarrow> bool" where
  "uuid_ops_ok Q \<longleftrightarrow>
     (\<forall>u. length (uu_as_bytes Q u) = 16 \<and> uu_from_slice Q (uu_as_bytes Q u) = Some u) \<and>
     inj (uu_to_string Q) \<and> (\<forall>u. CHR ''/'' \<notin> set (uu_to_string Q u))"

definition MAGIC :: bytes where
  "MAGIC = [79, 66, 74, 83, 68, 83, 70, 83]"

definition FS_FORMAT_VERSION :: byte where
  "FS_FORMAT_VERSION = 1"

definition HEADER_LEN :: nat where
  "HEADER_LEN = 33"

definition vec_len :: "'a list \<Rightarrow> u64" where
  "vec_len xs = of_nat (length xs)"

definition u64_to_be_bytes :: "u64 \<Rightarrow> bytes" where
  "u64_to_be_bytes w = be_bytes 8 (unat w)"

definition u64_from_be_bytes :: "bytes \<Rightarrow> u64" where
  "u64_from_be_bytes bs = of_nat (from_be_bytes bs)"

text \<open>\<open>revision\<close> is the value of \<open>Uuid::now_v7()\<close>.\<close>

definition fs_encode :: "uuid_ops \<Rightarrow> uuid \<Rightarrow> bytes \<Rightarrow> Version \<times> bytes" where
  "fs_encode Q revision bs =
     (Version (uu_to_string Q revision),
      MAGIC @ [FS_FORMAT_VERSION] @ uu_as_bytes Q revision @ u64_to_be_bytes (vec_len bs) @ bs)"

definition fs_decode :: "uuid_ops \<Rightarrow> bytes \<Rightarrow> FsStoreError + Object" where
  "fs_decode Q encoded =
     (if length encoded < HEADER_LEN \<or> take 8 encoded \<noteq> MAGIC then Err FsS_InvalidObjectFormat
      else if encoded ! 8 \<noteq> FS_FORMAT_VERSION then Err FsS_UnsupportedFormatVersion
      else case uu_from_slice Q (take 16 (drop 9 encoded)) of
             None \<Rightarrow> Err FsS_InvalidObjectFormat
           | Some revision \<Rightarrow>
               (let len = u64_from_be_bytes (take 8 (drop 25 encoded));
                    bs = drop HEADER_LEN encoded
                in if vec_len bs \<noteq> len then Err FsS_InvalidObjectFormat
                   else Ok \<lparr>obj_bytes = bs, obj_version = Version (uu_to_string Q revision)\<rparr>))"

lemma u64_from_to_be_bytes [simp]: "u64_from_be_bytes (u64_to_be_bytes w) = w"
proof -
  have "unat w < 256 ^ 8" using unsigned_less [of w] by simp
  then show ?thesis by (simp add: u64_from_be_bytes_def u64_to_be_bytes_def from_be_bytes_be_bytes)
qed

lemma length_u64_to_be_bytes [simp]: "length (u64_to_be_bytes w) = 8"
  by (simp add: u64_to_be_bytes_def)

lemma length_MAGIC [simp]: "length MAGIC = 8"
  by (simp add: MAGIC_def)

lemma fs_decode_encode:
  assumes "uuid_ops_ok Q"
  shows "fs_decode Q (snd (fs_encode Q revision bs)) =
    Ok \<lparr>obj_bytes = bs, obj_version = fst (fs_encode Q revision bs)\<rparr>"
  using assms
  by (simp add: fs_decode_def fs_encode_def uuid_ops_ok_def HEADER_LEN_def nth_append)

text \<open>
  C39: the envelope round trips: decoding what \<open>encode\<close> produced gives the bytes back with the
  version that \<open>encode\<close> returned.
\<close>

theorem filesystem_envelope_roundtrip:
  assumes "uuid_ops_ok Q" "fs_encode Q revision bs = (v, encoded)"
  shows "fs_decode Q encoded = Ok \<lparr>obj_bytes = bs, obj_version = v\<rparr>"
  using fs_decode_encode [OF assms(1), of revision bs] assms(2) by simp

definition sample_uuid_ops :: uuid_ops where
  "sample_uuid_ops =
     \<lparr>uu_to_string = show_word, uu_as_bytes = (\<lambda>u. be_bytes 16 (unat u)),
      uu_from_slice = (\<lambda>bs. if length bs = 16 then Some (of_nat (from_be_bytes bs)) else None)\<rparr>"

lemma digit_char_not_slash: "d < 10 \<Longrightarrow> digit_char d \<noteq> CHR ''/''"
proof
  assume "d < 10" "digit_char d = CHR ''/''"
  then have "(48 + d :: nat) = of_char (CHR ''/'')" using of_digit_char by metis
  then show False by simp
qed

lemma show_nat_no_slash: "CHR ''/'' \<notin> set (show_nat n)"
proof (induction n rule: show_nat.induct)
  case (1 n)
  then show ?case
    by (cases "n < 10"; subst show_nat.simps) (auto simp: digit_char_not_slash [symmetric])
qed

lemma sample_uuid_ops_ok: "uuid_ops_ok sample_uuid_ops"
proof -
  have "from_be_bytes (be_bytes 16 (unat u)) = unat u" for u :: uuid
    using unsigned_less [of u] by (intro from_be_bytes_be_bytes) simp
  moreover have "CHR ''/'' \<notin> set (show_word u)" for u :: uuid
    by (simp add: show_word_def show_nat_no_slash)
  ultimately show ?thesis
    by (auto simp: uuid_ops_ok_def sample_uuid_ops_def inj_def)
qed

theorem filesystem_envelope_roundtrip_witness:
  "fs_decode sample_uuid_ops (snd (fs_encode sample_uuid_ops 5 [1, 2, 3])) =
     Ok \<lparr>obj_bytes = [1, 2, 3], obj_version = Version ''5''\<rparr>"
proof -
  have "show_nat 5 = ''5''" by code_simp
  then have "fst (fs_encode sample_uuid_ops 5 [1, 2, 3]) = Version ''5''"
    by (simp add: fs_encode_def sample_uuid_ops_def show_word_def)
  then have "fs_encode sample_uuid_ops 5 [1, 2, 3] =
      (Version ''5'', snd (fs_encode sample_uuid_ops 5 [1, 2, 3]))"
    by (metis prod.collapse)
  then show ?thesis by (rule filesystem_envelope_roundtrip [OF sample_uuid_ops_ok])
qed

text \<open>
  A file cut short is never taken for an object: every proper prefix of an envelope is refused.
\<close>

theorem filesystem_truncation_rejected:
  assumes "uuid_ops_ok Q" "length bs < 2 ^ 64" "n < length (snd (fs_encode Q revision bs))"
  shows "\<exists>e. fs_decode Q (take n (snd (fs_encode Q revision bs))) = Err e"
proof (cases "n < HEADER_LEN")
  case True
  then have "length (take n (snd (fs_encode Q revision bs))) < HEADER_LEN" by simp
  then show ?thesis unfolding fs_decode_def by (metis (no_types))
next
  case False
  define short where "short = take (n - 33) bs"
  have len: "length (uu_as_bytes Q revision) = 16" "uu_from_slice Q (uu_as_bytes Q revision) = Some revision"
    using assms(1) by (auto simp: uuid_ops_ok_def)
  have cut: "take n (snd (fs_encode Q revision bs)) =
      MAGIC @ [FS_FORMAT_VERSION] @ uu_as_bytes Q revision @ u64_to_be_bytes (vec_len bs) @ short"
  proof -
    obtain k where "n = 33 + k" using False by (auto simp: HEADER_LEN_def not_less le_iff_add)
    with len(1) show ?thesis by (simp add: fs_encode_def short_def take_Cons')
  qed
  have "length short < length bs"
    using assms(3) False len(1) by (auto simp: fs_encode_def HEADER_LEN_def short_def)
  then have "vec_len short \<noteq> vec_len bs"
    using assms(2) by (auto simp: vec_len_def dest!: arg_cong [where f = unat] simp: unat_of_nat)
  then show ?thesis
    using len unfolding cut by (simp add: fs_decode_def HEADER_LEN_def nth_append)
qed

theorem filesystem_truncation_rejected_witness:
  "\<exists>e. fs_decode sample_uuid_ops (take 34 (snd (fs_encode sample_uuid_ops 5 [1, 2, 3]))) = Err e"
proof -
  have "length [1, 2, 3 :: byte] < 2 ^ 64" "34 < length (snd (fs_encode sample_uuid_ops 5 [1, 2, 3]))"
    by (simp_all add: fs_encode_def sample_uuid_ops_def)
  from filesystem_truncation_rejected [OF sample_uuid_ops_ok this] show ?thesis .
qed

end
