(* ===== verification/Filesystem_Path.thy ===== *)
theory Filesystem_Path
  imports Filesystem_Format
begin

text \<open>
  The path computations of \<open>path.rs\<close>: \<open>Path::components\<close> on Unix as the standard library
  documents it (repeated separators and inner \<open>.\<close> components are normalised away, a leading \<open>.\<close>
  is kept), the file of a location below the root, and the file of its lock. A path is its
  normal components together with whether its text ends in a separator or in \<open>/.\<close>, which
  the operating system accepts for directories only.
\<close>

section \<open>Components\<close>

datatype Component = RootDir | CurDir | ParentDir | Normal string

fun split_slash :: "string \<Rightarrow> string list" where
  "split_slash [] = [[]]"
| "split_slash (c # cs) =
     (if c = CHR ''/'' then [] # split_slash cs
      else (case split_slash cs of [] \<Rightarrow> [[c]] | x # xs \<Rightarrow> (c # x) # xs))"

definition component :: "string \<Rightarrow> Component list" where
  "component s = (if s = [] \<or> s = ''.'' then [] else if s = ''..'' then [ParentDir] else [Normal s])"

definition path_components :: "string \<Rightarrow> Component list" where
  "path_components p =
     (if take 1 p = ''/'' then [RootDir] else if hd (split_slash p) = ''.'' then [CurDir] else [])
     @ concat (map component (split_slash p))"

fun is_Normal :: "Component \<Rightarrow> bool" where
  "is_Normal (Normal _) = True"
| "is_Normal _ = False"

fun component_name :: "Component \<Rightarrow> string" where
  "component_name (Normal s) = s"
| "component_name _ = []"

record fs_path =
  fp_names :: "string list"
  fp_slash :: bool

definition trailing_slash :: "string \<Rightarrow> bool" where
  "trailing_slash p \<longleftrightarrow> length (split_slash p) > 1 \<and> last (split_slash p) \<in> {[], ''.''}"

definition fp_parent :: "fs_path \<Rightarrow> string list option" where
  "fp_parent p = (if fp_names p = [] then None else Some (butlast (fp_names p)))"

text \<open>The first half of \<open>object_path\<close>, before it looks for symbolic links.\<close>

definition object_path_of :: "string list \<Rightarrow> Location \<Rightarrow> FsStoreError + fs_path" where
  "object_path_of root l =
     (let relative = loc_str l; cs = path_components relative
      in if list_ex (\<lambda>c. \<not> is_Normal c) cs then Err FsS_InvalidLocation
         else Ok \<lparr>fp_names = root @ map component_name cs, fp_slash = trailing_slash relative\<rparr>)"

definition hex_digit :: "nat \<Rightarrow> char" where
  "hex_digit d = (if d < 10 then char_of (48 + d) else char_of (87 + d))"

definition hex_byte :: "char \<Rightarrow> string" where
  "hex_byte c = [hex_digit (of_char c div 16), hex_digit (of_char c mod 16)]"

definition lock_name :: "Location \<Rightarrow> string" where
  "lock_name l = concat (map hex_byte (loc_str l)) @ ''.lock''"

definition lock_path :: "string list \<Rightarrow> Location \<Rightarrow> string list" where
  "lock_path root l = root @ [''.objsds-locks'', lock_name l]"

section \<open>Splitting\<close>

fun join_slash :: "string list \<Rightarrow> string" where
  "join_slash [] = []"
| "join_slash [s] = s"
| "join_slash (s # ss) = s @ CHR ''/'' # join_slash ss"

lemma split_slash_not_Nil [simp]: "split_slash p \<noteq> []"
  by (induction p) (auto split: list.splits)

lemma join_split_slash [simp]: "join_slash (split_slash p) = p"
proof (induction p)
  case (Cons c cs)
  then show ?case
    by (cases "split_slash cs" rule: join_slash.cases) auto
qed simp

lemma split_slash_inj: "split_slash p = split_slash q \<longleftrightarrow> p = q"
  by (metis join_split_slash)

lemma split_no_slash: "CHR ''/'' \<notin> set s \<Longrightarrow> split_slash s = [s]"
  by (induction s) auto

lemma split_slash_append: "CHR ''/'' \<notin> set s \<Longrightarrow> split_slash (s @ CHR ''/'' # p) = s # split_slash p"
  by (induction s) auto

section \<open>Well-formed locations\<close>

text \<open>
  The locations the filesystem adapter stores faithfully: their text is a sequence of path
  segments, none of the adapter's own files is meant.
\<close>

definition fs_names :: "Location \<Rightarrow> string list" where
  "fs_names l = split_slash (loc_str l)"

definition own_name :: "string \<Rightarrow> bool" where
  "own_name s \<longleftrightarrow> take 8 s = ''.objsds-''"

definition fs_location :: "Location \<Rightarrow> bool" where
  "fs_location l \<longleftrightarrow> list_all is_path_segment (fs_names l) \<and>
     hd (fs_names l) \<noteq> ''.objsds-locks'' \<and> \<not> own_name (last (fs_names l))"

lemma fs_names_inj: "fs_names l = fs_names l' \<longleftrightarrow> l = l'"
  by (cases l; cases l') (simp add: fs_names_def split_slash_inj)

lemma fs_names_not_Nil [simp]: "fs_names l \<noteq> []"
  by (simp add: fs_names_def)

lemma component_segment: "is_path_segment s \<Longrightarrow> component s = [Normal s]"
  by (auto simp: component_def is_path_segment_def)

lemma concat_component: "list_all is_path_segment ss \<Longrightarrow> concat (map component ss) = map Normal ss"
  by (induction ss) (auto simp: component_segment)

lemma path_components_location:
  assumes "list_all is_path_segment (fs_names l)"
  shows "path_components (loc_str l) = map Normal (fs_names l)"
proof -
  obtain s ss where ss: "split_slash (loc_str l) = s # ss" by (cases "split_slash (loc_str l)") auto
  then have "is_path_segment s" using assms by (simp add: fs_names_def)
  moreover have "take 1 (loc_str l) \<noteq> ''/''"
  proof
    assume "take 1 (loc_str l) = ''/''"
    then have "s = []" using ss by (cases "loc_str l") auto
    with \<open>is_path_segment s\<close> show False by (simp add: is_path_segment_def)
  qed
  moreover have "concat (map component (fs_names l)) = map Normal (fs_names l)"
    using concat_component [OF assms] .
  ultimately show ?thesis using ss by (auto simp: path_components_def is_path_segment_def fs_names_def)
qed

lemma object_path_of_location:
  assumes "fs_location l"
  shows "object_path_of root l = Ok \<lparr>fp_names = root @ fs_names l, fp_slash = False\<rparr>"
proof -
  have segs: "list_all is_path_segment (fs_names l)" using assms by (simp add: fs_location_def)
  then have "is_path_segment (last (fs_names l))" by (simp add: list_all_iff)
  then have "\<not> trailing_slash (loc_str l)"
    by (auto simp: trailing_slash_def is_path_segment_def simp flip: fs_names_def)
  then show ?thesis
    by (simp add: object_path_of_def path_components_location [OF segs] list_ex_iff comp_def)
qed

text \<open>Every structure location is one of them, but for the reserved namespace.\<close>

lemma structure_fs_names:
  assumes "Location_structure ns kind name = Ok l"
  shows "fs_names l = [ns, kind, name @ ''.json'']"
proof -
  have "CHR ''/'' \<notin> set ns" "CHR ''/'' \<notin> set kind" "CHR ''/'' \<notin> set (name @ ''.json'')"
    and l: "l = Location (ns @ ''/'' @ kind @ ''/'' @ name @ ''.json'')"
    using assms by (auto simp: Location_structure_eq_Ok dest: is_path_segmentD)
  then show ?thesis
    using split_slash_append [of ns "kind @ CHR ''/'' # name @ ''.json''"]
      split_slash_append [of kind "name @ ''.json''"] split_no_slash [of "name @ ''.json''"]
    by (simp add: fs_names_def)
qed

section \<open>Confinement\<close>

lemma component_Normal: "Normal s \<in> set (component t) \<Longrightarrow> s = t \<and> t \<noteq> [] \<and> t \<noteq> ''.'' \<and> t \<noteq> ''..''"
  by (auto simp: component_def split: if_splits)

lemma split_slash_segment: "s \<in> set (split_slash p) \<Longrightarrow> CHR ''/'' \<notin> set s"
proof (induction p arbitrary: s)
  case (Cons c cs)
  then show ?case by (cases "split_slash cs") (auto split: if_splits)
qed simp

text \<open>
  An object's file stays below the root: whatever the location's text, the path is either
  refused or the root followed by components each of which is one path segment, so none of
  them is empty, \<open>.\<close>, \<open>..\<close> or contains a separator.
\<close>

theorem filesystem_paths_confined:
  assumes "object_path_of root l = Ok p"
  shows "\<exists>names. fp_names p = root @ names \<and> list_all is_path_segment names"
proof -
  let ?cs = "path_components (loc_str l)"
  have "is_path_segment (component_name c)" if c: "c \<in> set ?cs" "is_Normal c" for c
  proof -
    obtain s where s: "c = Normal s" using c(2) by (cases c) auto
    then obtain t where "t \<in> set (split_slash (loc_str l))" "Normal s \<in> set (component t)"
      using c(1) by (auto simp: path_components_def split: if_splits)
    with s show ?thesis
      using component_Normal [of s t] split_slash_segment [of t "loc_str l"]
      by (simp add: is_path_segment_def)
  qed
  then show ?thesis
    using assms by (auto simp: object_path_of_def Let_def list_ex_iff list_all_iff split: if_splits)
qed

theorem filesystem_paths_confined_witness:
  "\<exists>names. [''srv'', ''a'', ''b''] = [''srv''] @ names \<and> list_all is_path_segment names"
proof -
  have "object_path_of [''srv''] (Location ''a/./b'')
      = Ok \<lparr>fp_names = [''srv'', ''a'', ''b''], fp_slash = False\<rparr>" by code_simp
  from filesystem_paths_confined [OF this] show ?thesis by simp
qed

section \<open>Lock files\<close>

lemma hex_digit_inj: "a < 16 \<Longrightarrow> b < 16 \<Longrightarrow> hex_digit a = hex_digit b \<Longrightarrow> a = b"
proof -
  have code: "of_char (hex_digit d) = (if d < 10 then 48 + d else 87 + d)" if "d < 16" for d :: nat
    using that by (simp add: hex_digit_def)
  assume "a < 16" "b < 16" "hex_digit a = hex_digit b"
  then have "(if a < 10 then 48 + a else 87 + a) = (if b < 10 then 48 + b else 87 + b)"
    using code [of a] code [of b] by metis
  with \<open>a < 16\<close> \<open>b < 16\<close> show "a = b" by (simp split: if_splits)
qed

lemma hex_byte_inj: "hex_byte c = hex_byte d \<Longrightarrow> c = d"
proof -
  assume h: "hex_byte c = hex_byte d"
  have "(of_char c :: nat) < 256" "(of_char d :: nat) < 256" by simp_all
  then have "of_char c div 16 < (16 :: nat)" "of_char d div 16 < (16 :: nat)"
    by (simp_all only: less_mult_imp_div_less flip: mult_numeral_left)
  with h have "of_char c div 16 = (of_char d div 16 :: nat)" "of_char c mod 16 = (of_char d mod 16 :: nat)"
    by (auto simp: hex_byte_def intro: hex_digit_inj)
  then have "(of_char c :: nat) = of_char d" by (metis div_mult_mod_eq)
  then show ?thesis by simp
qed

lemma hex_bytes_inj: "concat (map hex_byte xs) = concat (map hex_byte ys) \<Longrightarrow> xs = ys"
proof (induction xs arbitrary: ys)
  case Nil
  then show ?case by (cases ys) (auto simp: hex_byte_def)
next
  case (Cons x xs)
  then obtain y ys' where ys: "ys = y # ys'" by (cases ys) (auto simp: hex_byte_def)
  have "hex_byte x = hex_byte y" "concat (map hex_byte xs) = concat (map hex_byte ys')"
    using Cons.prems unfolding ys by (simp_all add: hex_byte_def [of x] hex_byte_def [of y])
  with Cons.IH ys hex_byte_inj show ?case by blast
qed

text \<open>
  Different locations are guarded by different lock files.
\<close>

theorem filesystem_lock_paths_injective:
  "lock_path root l = lock_path root l' \<longleftrightarrow> l = l'"
proof
  assume "lock_path root l = lock_path root l'"
  then have "concat (map hex_byte (loc_str l)) = concat (map hex_byte (loc_str l'))"
    by (simp add: lock_path_def lock_name_def)
  then have "loc_str l = loc_str l'" by (rule hex_bytes_inj)
  then show "l = l'" by (cases l; cases l') simp
qed simp

text \<open>
  C40: two accepted locations can name one file and yet be guarded by different locks: a location
  with an inner \<open>.\<close> component is accepted, its file is that of the location without it, and its
  lock file is another.
\<close>

theorem filesystem_alias_escapes_lock:
  "Location_new ''a/./b'' = Ok (Location ''a/./b'') \<and> Location_new ''a/b'' = Ok (Location ''a/b'') \<and>
   object_path_of root (Location ''a/./b'') = object_path_of root (Location ''a/b'') \<and>
   (\<exists>p. object_path_of root (Location ''a/b'') = Ok p) \<and>
   lock_path root (Location ''a/./b'') \<noteq> lock_path root (Location ''a/b'')"
proof -
  have "path_components ''a/./b'' = [Normal ''a'', Normal ''b'']" "path_components ''a/b'' = [Normal ''a'', Normal ''b'']"
    "trailing_slash ''a/./b'' = False" "trailing_slash ''a/b'' = False" by code_simp+
  moreover have "Location_new ''a/./b'' = Ok (Location ''a/./b'')" "Location_new ''a/b'' = Ok (Location ''a/b'')"
    by code_simp+
  ultimately show ?thesis
    using hex_bytes_inj [of "''a/./b''" "''a/b''"] by (auto simp: object_path_of_def lock_path_def lock_name_def)
qed

end
