(* ===== verification/Filesystem_Syscalls.thy ===== *)
theory Filesystem_Syscalls
  imports Filesystem_Path
begin

text \<open>
  The operating system under \<open>objsds-store-filesystem\<close>: the calls of \<open>std::fs\<close> and \<open>fs4\<close> that
  \<open>path.rs\<close>, \<open>lock.rs\<close> and \<open>store.rs\<close> make, as functions on a tree of files, directories and
  symbolic links, with the path resolution of POSIX. Every call may be hit by a fault (a full
  disk, a denied permission, a broken device): the schedule of faults is part of the state, so
  that a theorem about an operation covers every place where it can fail. A failing write
  may have written a prefix, and a failing rename may have taken effect. Beside the tree that
  running programs see, the state has what the disk may hold of it after a crash.
\<close>

section \<open>The machine state\<close>

datatype fs_node = File bytes | Dir | Symlink "Component list"

type_synonym fs_tree = "string list \<Rightarrow> fs_node option"

datatype fault = Fault string nat

datatype LockMode = Shared | Exclusive

text \<open>
  What the disk may hold: the nodes an entry may have after a crash, and the files whose data has
  not been synced, of which a crash may leave anything.
\<close>

record fs_disk =
  dk_entry :: "string list \<Rightarrow> fs_node option \<Rightarrow> bool"
  dk_dirty :: "string list \<Rightarrow> bool"

fun is_file :: "fs_node option \<Rightarrow> bool" where
  "is_file (Some (File _)) = True"
| "is_file _ = False"

definition may_hold :: "fs_disk \<Rightarrow> string list \<Rightarrow> fs_node option \<Rightarrow> bool" where
  "may_hold k p v \<longleftrightarrow> dk_entry k p v \<or> dk_dirty k p \<and> is_file v"

record fs_state =
  fs_tree :: fs_tree
  fs_disk :: fs_disk
  fs_cwd :: "string list"
  fs_faults :: "fault option list"
  fs_locks :: "(string list \<times> LockMode) list"
  fs_uuids :: "nat \<Rightarrow> uuid"
  fs_drawn :: nat

text \<open>
  \<open>syscall damage act\<close>: without a fault the call does \<open>act\<close>; with one it fails, having done
  \<open>damage k\<close>.
\<close>

definition syscall ::
  "(nat \<Rightarrow> fs_state \<Rightarrow> fs_state) \<Rightarrow> (fs_state, io_error, 'a) comp \<Rightarrow> (fs_state, io_error, 'a) comp" where
  "syscall damage act s =
     (case fs_faults s of
        Some (Fault e k) # fs \<Rightarrow> (Err (IO_Other e), damage k (s\<lparr>fs_faults := fs\<rparr>))
      | None # fs \<Rightarrow> act (s\<lparr>fs_faults := fs\<rparr>)
      | [] \<Rightarrow> act s)"

definition unharmed :: "nat \<Rightarrow> fs_state \<Rightarrow> fs_state" where
  "unharmed k s = s"

text \<open>\<open>Uuid::now_v7()\<close>: the next identifier of the supply.\<close>

definition now_v7 :: "fs_state \<Rightarrow> uuid \<times> fs_state" where
  "now_v7 s = (fs_uuids s (fs_drawn s), s\<lparr>fs_drawn := Suc (fs_drawn s)\<rparr>)"

section \<open>Path resolution\<close>

text \<open>
  The file a path names, with symbolic links followed, at most forty of them as Linux does; the
  last component need not exist.
\<close>

function resolve :: "nat \<Rightarrow> fs_tree \<Rightarrow> string list \<Rightarrow> Component list \<Rightarrow> io_error + string list" where
  "resolve n T cur [] = Ok cur"
| "resolve n T cur (RootDir # cs) = resolve n T [] cs"
| "resolve n T cur (CurDir # cs) = resolve n T cur cs"
| "resolve n T cur (ParentDir # cs) = resolve n T (butlast cur) cs"
| "resolve n T cur (Normal c # cs) =
     (case T (cur @ [c]) of
        Some Dir \<Rightarrow> resolve n T (cur @ [c]) cs
      | Some (Symlink target) \<Rightarrow>
          (if n = 0 then Err (IO_Other ''too many levels of symbolic links'')
           else resolve (n - 1) T cur (target @ cs))
      | Some (File _) \<Rightarrow> if cs = [] then Ok (cur @ [c]) else Err IO_NotADirectory
      | None \<Rightarrow> if cs = [] then Ok (cur @ [c]) else Err IO_NotFound)"
  by pat_completeness auto
termination by (relation "measures [\<lambda>(n, _, _, cs). n, \<lambda>(n, _, _, cs). length cs]") auto

definition SYMLOOP_MAX :: nat where
  "SYMLOOP_MAX = 40"

definition walk :: "fs_state \<Rightarrow> Component list \<Rightarrow> io_error + string list" where
  "walk s p = resolve SYMLOOP_MAX (fs_tree s) (fs_cwd s) p"

text \<open>The directory entry a path names: its last component is not followed.\<close>

definition walk_entry :: "fs_state \<Rightarrow> Component list \<Rightarrow> io_error + string list" where
  "walk_entry s p =
     (case rev p of
        Normal c # ds \<Rightarrow> (case walk s (rev ds) of Err e \<Rightarrow> Err e
          | Ok d \<Rightarrow> (case fs_tree s d of Some Dir \<Rightarrow> Ok (d @ [c])
              | Some _ \<Rightarrow> Err IO_NotADirectory | None \<Rightarrow> Err IO_NotFound))
      | _ \<Rightarrow> walk s p)"

text \<open>
  A changed directory entry: it reaches the disk at some time, until its directory is synced the old
  entry may be there after a crash.
\<close>

definition entry_changed :: "string list \<Rightarrow> fs_node option \<Rightarrow> fs_disk \<Rightarrow> fs_disk" where
  "entry_changed p v k =
     k\<lparr>dk_entry := (dk_entry k)(p := (\<lambda>x. x = v \<or> may_hold k p x)), dk_dirty := (dk_dirty k)(p := False)\<rparr>"

definition set_node :: "string list \<Rightarrow> fs_node option \<Rightarrow> fs_state \<Rightarrow> fs_state" where
  "set_node p v s = s\<lparr>fs_tree := (fs_tree s)(p := v), fs_disk := entry_changed p v (fs_disk s)\<rparr>"

text \<open>Data that has not been synced.\<close>

definition mark_dirty :: "string list \<Rightarrow> fs_state \<Rightarrow> fs_state" where
  "mark_dirty h s = s\<lparr>fs_disk := (fs_disk s)\<lparr>dk_dirty := (dk_dirty (fs_disk s))(h := True)\<rparr>\<rparr>"

text \<open>
  \<open>fsync\<close>: of a file, its data is on the disk; of a directory, its entries are, as they are now.
\<close>

definition sync_node :: "string list \<Rightarrow> fs_state \<Rightarrow> fs_state" where
  "sync_node h s =
     (case fs_tree s h of
        Some Dir \<Rightarrow> s\<lparr>fs_disk := (fs_disk s)\<lparr>dk_entry := (\<lambda>q.
          if q \<noteq> [] \<and> butlast q = h then (\<lambda>x. x = fs_tree s q) else dk_entry (fs_disk s) q)\<rparr>\<rparr>
      | Some (File _) \<Rightarrow> s\<lparr>fs_disk := (fs_disk s)\<lparr>dk_dirty := (dk_dirty (fs_disk s))(h := False)\<rparr>\<rparr>
      | _ \<Rightarrow> s)"

text \<open>An absolute path without symbolic links.\<close>

definition absolute :: "string list \<Rightarrow> Component list" where
  "absolute p = RootDir # map Normal p"

section \<open>System calls\<close>

definition sys_symlink_metadata :: "Component list \<Rightarrow> (fs_state, io_error, fs_node) comp" where
  "sys_symlink_metadata p = syscall unharmed (\<lambda>s.
     (case walk_entry s p of Err e \<Rightarrow> (Err e, s)
      | Ok q \<Rightarrow> (case fs_tree s q of None \<Rightarrow> (Err IO_NotFound, s) | Some nd \<Rightarrow> (Ok nd, s))))"

definition sys_read :: "Component list \<Rightarrow> bool \<Rightarrow> (fs_state, io_error, bytes) comp" where
  "sys_read p slash = syscall unharmed (\<lambda>s.
     (case walk s p of Err e \<Rightarrow> (Err e, s)
      | Ok q \<Rightarrow> (case fs_tree s q of
            Some (File bs) \<Rightarrow> if slash then (Err IO_NotADirectory, s) else (Ok bs, s)
          | Some _ \<Rightarrow> (Err IO_IsADirectory, s)
          | None \<Rightarrow> (Err IO_NotFound, s))))"

definition sys_mkdir :: "Component list \<Rightarrow> (fs_state, io_error, unit) comp" where
  "sys_mkdir p = syscall unharmed (\<lambda>s.
     (case walk_entry s p of Err e \<Rightarrow> (Err e, s)
      | Ok q \<Rightarrow> (case fs_tree s q of None \<Rightarrow> (Ok (), set_node q (Some Dir) s)
          | Some _ \<Rightarrow> (Err IO_AlreadyExists, s))))"

text \<open>\<open>Path::is_dir\<close> answers \<open>false\<close> on an error.\<close>

definition is_dir :: "Component list \<Rightarrow> fs_state \<Rightarrow> bool \<times> fs_state" where
  "is_dir p s =
     (case syscall unharmed (\<lambda>s. (case walk s p of Err e \<Rightarrow> (Err e, s)
        | Ok q \<Rightarrow> (case fs_tree s q of None \<Rightarrow> (Err IO_NotFound, s) | Some nd \<Rightarrow> (Ok nd, s)))) s of
        (Err e, t) \<Rightarrow> (False, t)
      | (Ok nd, t) \<Rightarrow> (nd = Dir, t))"

text \<open>
  \<open>create_dir_all\<close> as the standard library implements it: \<open>mkdir\<close> first, the parent when it is
  missing, and an existing directory counts as success. The components are in reverse.
\<close>

definition mkdir_or_dir ::
  "Component list \<Rightarrow> (io_error \<Rightarrow> (fs_state, io_error, unit) comp) \<Rightarrow> (fs_state, io_error, unit) comp" where
  "mkdir_or_dir p other s =
     (case sys_mkdir p s of
        (Ok u, t) \<Rightarrow> (Ok u, t)
      | (Err e, t) \<Rightarrow> if e = IO_NotFound then other e t
                     else (case is_dir p t of (True, t') \<Rightarrow> (Ok (), t') | (False, t') \<Rightarrow> (Err e, t')))"

primrec create_dirs :: "Component list \<Rightarrow> (fs_state, io_error, unit) comp" where
  "create_dirs [] = ok ()"
| "create_dirs (c # cs) =
     mkdir_or_dir (rev (c # cs)) (\<lambda>e.
       and_then (create_dirs cs) (\<lambda>_.
       mkdir_or_dir (rev (c # cs)) (\<lambda>e t.
         (case is_dir (rev (c # cs)) t of (True, t') \<Rightarrow> (Ok (), t') | (False, t') \<Rightarrow> (Err e, t')))))"

definition create_dir_all :: "Component list \<Rightarrow> (fs_state, io_error, unit) comp" where
  "create_dir_all p = create_dirs (rev p)"

definition canonicalize :: "Component list \<Rightarrow> (fs_state, io_error, string list) comp" where
  "canonicalize p = syscall unharmed (\<lambda>s.
     if p = [] then (Err IO_NotFound, s)
     else (case walk s p of Err e \<Rightarrow> (Err e, s)
      | Ok q \<Rightarrow> (case fs_tree s q of None \<Rightarrow> (Err IO_NotFound, s) | Some _ \<Rightarrow> (Ok q, s))))"

text \<open>\<open>open\<close> with \<open>write(true).create_new(true)\<close>; the handle is the place of the new file.\<close>

definition sys_create_new :: "Component list \<Rightarrow> (fs_state, io_error, string list) comp" where
  "sys_create_new p = syscall unharmed (\<lambda>s.
     (case walk_entry s p of Err e \<Rightarrow> (Err e, s)
      | Ok q \<Rightarrow> (case fs_tree s q of None \<Rightarrow> (Ok q, set_node q (Some (File [])) s)
          | Some _ \<Rightarrow> (Err IO_AlreadyExists, s))))"

text \<open>\<open>open\<close> with \<open>read(true).write(true).create(true).truncate(false)\<close>.\<close>

definition sys_open_or_create :: "Component list \<Rightarrow> (fs_state, io_error, string list) comp" where
  "sys_open_or_create p = syscall unharmed (\<lambda>s.
     (case walk s p of Err e \<Rightarrow> (Err e, s)
      | Ok q \<Rightarrow> (case fs_tree s q of None \<Rightarrow> (Ok q, set_node q (Some (File [])) s)
          | Some (File _) \<Rightarrow> (Ok q, s)
          | Some _ \<Rightarrow> (Err IO_IsADirectory, s))))"

text \<open>\<open>File::open\<close> for reading, here of a directory.\<close>

definition sys_open :: "Component list \<Rightarrow> (fs_state, io_error, string list) comp" where
  "sys_open p = syscall unharmed (\<lambda>s.
     (case walk s p of Err e \<Rightarrow> (Err e, s)
      | Ok q \<Rightarrow> (case fs_tree s q of None \<Rightarrow> (Err IO_NotFound, s) | Some _ \<Rightarrow> (Ok q, s))))"

definition append_file :: "string list \<Rightarrow> bytes \<Rightarrow> fs_state \<Rightarrow> fs_state" where
  "append_file h bs s =
     (case fs_tree s h of Some (File old) \<Rightarrow> mark_dirty h (set_node h (Some (File (old @ bs))) s) | _ \<Rightarrow> s)"

definition write_all :: "string list \<Rightarrow> bytes \<Rightarrow> (fs_state, io_error, unit) comp" where
  "write_all h bs = syscall (\<lambda>k. append_file h (take k bs)) (\<lambda>s. (Ok (), append_file h bs s))"

definition sync_all :: "string list \<Rightarrow> (fs_state, io_error, unit) comp" where
  "sync_all h = syscall unharmed (\<lambda>s. (Ok (), sync_node h s))"

text \<open>\<open>lock_shared\<close> and \<open>lock_exclusive\<close> of an open file, and the release when it is closed.\<close>

definition lock_file :: "string list \<Rightarrow> LockMode \<Rightarrow> (fs_state, io_error, unit) comp" where
  "lock_file h mode = syscall unharmed (\<lambda>s. (Ok (), s\<lparr>fs_locks := (h, mode) # fs_locks s\<rparr>))"

definition unlock_file :: "string list \<Rightarrow> LockMode \<Rightarrow> fs_state \<Rightarrow> fs_state" where
  "unlock_file h mode s = s\<lparr>fs_locks := remove1 (h, mode) (fs_locks s)\<rparr>"

text \<open>
  \<open>rename\<close> of anything but a directory, which is all the store renames. After a crash the new name
  is the old file or the renamed one, whose data may be missing if it was not synced before.
\<close>

definition do_rename :: "Component list \<Rightarrow> Component list \<Rightarrow> bool \<Rightarrow> (fs_state, io_error, unit) comp" where
  "do_rename from to slash s =
     (case walk_entry s from of Err e \<Rightarrow> (Err e, s)
      | Ok p \<Rightarrow> (case walk_entry s to of Err e \<Rightarrow> (Err e, s)
      | Ok q \<Rightarrow> (case fs_tree s p of
            None \<Rightarrow> (Err IO_NotFound, s)
          | Some Dir \<Rightarrow> (Err IO_IsADirectory, s)
          | Some nd \<Rightarrow>
              if slash then (Err IO_NotADirectory, s)
              else if fs_tree s q = Some Dir then (Err IO_IsADirectory, s)
              else if p = q then (Ok (), s)
              else (Ok (), (if dk_dirty (fs_disk s) p then mark_dirty q else id)
                (set_node q (Some nd) (set_node p None s))))))"

definition sys_rename :: "Component list \<Rightarrow> Component list \<Rightarrow> bool \<Rightarrow> (fs_state, io_error, unit) comp" where
  "sys_rename from to slash =
     syscall (\<lambda>k s. if k = 0 then s else snd (do_rename from to slash s)) (do_rename from to slash)"

definition remove_file :: "Component list \<Rightarrow> (fs_state, io_error, unit) comp" where
  "remove_file p = syscall unharmed (\<lambda>s.
     (case walk_entry s p of Err e \<Rightarrow> (Err e, s)
      | Ok q \<Rightarrow> (case fs_tree s q of
            None \<Rightarrow> (Err IO_NotFound, s)
          | Some Dir \<Rightarrow> (Err IO_IsADirectory, s)
          | Some _ \<Rightarrow> (Ok (), set_node q None s))))"

end
