(* ===== verification/Filesystem_Store.thy ===== *)
theory Filesystem_Store
  imports Filesystem_Syscalls
begin

text \<open>
  \<open>path.rs\<close>, \<open>lock.rs\<close> and \<open>store.rs\<close> of the crate \<open>objsds-store-filesystem\<close>: the symbolic-link
  check, the advisory lock, the builder, and \<open>get\<close>, \<open>create\<close> and \<open>replace\<close> as the sequences of
  system calls the code makes. An operation holds its location's lock from its first look at
  the object until it returns, so it is one function on the machine state.
\<close>

section \<open>Symbolic links (\<open>path.rs\<close>)\<close>

fun is_symlink :: "fs_node \<Rightarrow> bool" where
  "is_symlink (Symlink _) = True"
| "is_symlink _ = False"

fun reject_loop :: "string list \<Rightarrow> string list \<Rightarrow> (fs_state, FsStoreError, unit) comp" where
  "reject_loop current [] s = (Ok (), s)"
| "reject_loop current (c # cs) s =
     (case sys_symlink_metadata (absolute (current @ [c])) s of
        (Ok node, t) \<Rightarrow>
          if is_symlink node then (Err FsS_InvalidLocation, t) else reject_loop (current @ [c]) cs t
      | (Err e, t) \<Rightarrow> if e = IO_NotFound then (Ok (), t) else (Err (FsStoreError_from e), t))"

definition reject_existing_symlinks :: "string list \<Rightarrow> fs_path \<Rightarrow> (fs_state, FsStoreError, unit) comp" where
  "reject_existing_symlinks root path =
     (if take (length root) (fp_names path) = root
      then reject_loop root (drop (length root) (fp_names path))
      else err FsS_InvalidLocation)"

definition object_path :: "string list \<Rightarrow> Location \<Rightarrow> (fs_state, FsStoreError, fs_path) comp" where
  "object_path root l =
     and_then (lift_result (object_path_of root l)) (\<lambda>path.
     and_then (reject_existing_symlinks root path) (\<lambda>_.
     ok path))"

section \<open>The lock (\<open>lock.rs\<close>)\<close>

record ObjectLock =
  lk_file :: "string list"
  lk_mode :: LockMode

definition ObjectLock_acquire :: "string list \<Rightarrow> LockMode \<Rightarrow> (fs_state, FsStoreError, ObjectLock) comp" where
  "ObjectLock_acquire path mode =
     (if path = [] then err FsS_InvalidLocation
      else map_err FsStoreError_from (
        and_then (create_dir_all (absolute (butlast path))) (\<lambda>_.
        and_then (sys_open_or_create (absolute path)) (\<lambda>file.
        and_then (lock_file file mode) (\<lambda>_.
        ok \<lparr>lk_file = file, lk_mode = mode\<rparr>)))))"

text \<open>The guard \<open>_lock\<close> is dropped when the operation returns, on every path.\<close>

definition with_lock ::
  "('e \<Rightarrow> 'f) \<Rightarrow> (fs_state, 'e, ObjectLock) comp \<Rightarrow> (fs_state, 'f, 'a) comp \<Rightarrow> (fs_state, 'f, 'a) comp" where
  "with_lock wrap acquire body =
     and_then (map_err wrap acquire) (\<lambda>lk s.
       (case body s of (r, t) \<Rightarrow> (r, unlock_file (lk_file lk) (lk_mode lk) t)))"

section \<open>The store (\<open>store.rs\<close>)\<close>

record FilesystemStore =
  fss_root :: "string list"

definition FilesystemStore_root :: "FilesystemStore \<Rightarrow> string list" where
  "FilesystemStore_root st = fss_root st"

definition debug_FilesystemStore :: "(string list \<Rightarrow> string) \<Rightarrow> FilesystemStore \<Rightarrow> string" where
  "debug_FilesystemStore dpath st = ''FilesystemStore { root: '' @ dpath (fss_root st) @ '' }''"

definition read_path :: "uuid_ops \<Rightarrow> fs_path \<Rightarrow> (fs_state, FsStoreError, Object option) comp" where
  "read_path Q path s =
     (case sys_read (absolute (fp_names path)) (fp_slash path) s of
        (Ok bs, t) \<Rightarrow> (map_sum id Some (fs_decode Q bs), t)
      | (Err e, t) \<Rightarrow> if e = IO_NotFound then (Ok None, t) else (Err (FsStoreError_from e), t))"

definition prepare_path :: "string list \<Rightarrow> Location \<Rightarrow> (fs_state, FsStoreError, fs_path) comp" where
  "prepare_path root l =
     and_then (object_path root l) (\<lambda>path.
     and_then (lift_result (ok_or FsS_InvalidLocation (fp_parent path))) (\<lambda>parent.
     and_then (map_err FsStoreError_from (create_dir_all (absolute parent))) (\<lambda>_.
     and_then (reject_existing_symlinks root path) (\<lambda>_.
     ok path))))"

definition temporary_name :: "uuid_ops \<Rightarrow> uuid \<Rightarrow> string" where
  "temporary_name Q u = ''.objsds-'' @ uu_to_string Q u @ ''.tmp''"

text \<open>The closure inside \<open>publish\<close>.\<close>

definition publish_file ::
  "string list \<Rightarrow> string list \<Rightarrow> fs_path \<Rightarrow> bytes \<Rightarrow> (fs_state, FsStoreError, unit) comp" where
  "publish_file parent temporary path encoded =
     map_err FsStoreError_from (
       and_then (sys_create_new (absolute temporary)) (\<lambda>file.
       and_then (write_all file encoded) (\<lambda>_.
       and_then (sync_all file) (\<lambda>_.
       and_then (sys_rename (absolute temporary) (absolute (fp_names path)) (fp_slash path)) (\<lambda>_.
       and_then (sys_open (absolute parent)) (\<lambda>dir.
       sync_all dir))))))"

definition publish :: "uuid_ops \<Rightarrow> fs_path \<Rightarrow> bytes \<Rightarrow> (fs_state, FsStoreError, unit) comp" where
  "publish Q path encoded =
     and_then (lift_result (ok_or FsS_InvalidLocation (fp_parent path))) (\<lambda>parent s.
       let (u, s1) = now_v7 s; temporary = parent @ [temporary_name Q u]
       in (case publish_file parent temporary path encoded s1 of
             (Ok x, t) \<Rightarrow> (Ok x, t)
           | (Err e, t) \<Rightarrow> (Err e, snd (remove_file (absolute temporary) t))))"

definition filesystem_get :: "uuid_ops \<Rightarrow> string list \<Rightarrow> Location \<Rightarrow> (fs_state, FsStoreError, Object option) comp" where
  "filesystem_get Q root l =
     and_then (object_path root l) (\<lambda>path.
     with_lock id (ObjectLock_acquire (lock_path root l) Shared) (read_path Q path))"

text \<open>\<open>encode\<close> with the revision it draws, then \<open>publish\<close>.\<close>

definition encode_and_publish :: "uuid_ops \<Rightarrow> fs_path \<Rightarrow> bytes \<Rightarrow> (fs_state, FsStoreError, Version) comp" where
  "encode_and_publish Q path bs s =
     (let (revision, s1) = now_v7 s; (version, encoded) = fs_encode Q revision bs
      in and_then (publish Q path encoded) (\<lambda>_. ok version) s1)"

definition filesystem_create ::
  "uuid_ops \<Rightarrow> string list \<Rightarrow> Location \<Rightarrow> bytes \<Rightarrow> (fs_state, FsStoreError CreateError, Version) comp" where
  "filesystem_create Q root l bs =
     and_then (map_err Create_Store (prepare_path root l)) (\<lambda>path.
     with_lock Create_Store (ObjectLock_acquire (lock_path root l) Exclusive) (
       and_then (map_err Create_Store (read_path Q path)) (\<lambda>found.
         case found of
           Some obj \<Rightarrow> err (Create_AlreadyExists (obj_version obj))
         | None \<Rightarrow> map_err Create_Store (encode_and_publish Q path bs))))"

definition filesystem_replace ::
  "uuid_ops \<Rightarrow> string list \<Rightarrow> Location \<Rightarrow> Version \<Rightarrow> bytes \<Rightarrow>
     (fs_state, FsStoreError ReplaceError, Version) comp" where
  "filesystem_replace Q root l expected bs =
     and_then (map_err Replace_Store (prepare_path root l)) (\<lambda>path.
     with_lock Replace_Store (ObjectLock_acquire (lock_path root l) Exclusive) (
       and_then (map_err Replace_Store (read_path Q path)) (\<lambda>current.
         if map_option obj_version current \<noteq> Some expected
         then err (Replace_Conflict (map_option obj_version current))
         else map_err Replace_Store (encode_and_publish Q path bs))))"

definition filesystem_store :: "uuid_ops \<Rightarrow> FilesystemStore \<Rightarrow> (fs_state, FsStoreError) object_store" where
  "filesystem_store Q st =
     \<lparr>os_get = filesystem_get Q (fss_root st), os_create = filesystem_create Q (fss_root st),
      os_replace = filesystem_replace Q (fss_root st)\<rparr>"

section \<open>The builder\<close>

record FilesystemStoreBuilder =
  fsb_root :: "string option"

definition FilesystemStore_builder :: FilesystemStoreBuilder where
  "FilesystemStore_builder = \<lparr>fsb_root = None\<rparr>"

definition FilesystemStoreBuilder_root :: "FilesystemStoreBuilder \<Rightarrow> string \<Rightarrow> FilesystemStoreBuilder" where
  "FilesystemStoreBuilder_root b root = b\<lparr>fsb_root := Some root\<rparr>"

definition FilesystemStoreBuilder_build :: "FilesystemStoreBuilder \<Rightarrow> (fs_state, FsBuildError, FilesystemStore) comp" where
  "FilesystemStoreBuilder_build b =
     and_then (lift_result (ok_or FsB_MissingRoot (fsb_root b))) (\<lambda>text.
     let given = path_components text in
     and_then (map_err FsB_Io (create_dir_all given)) (\<lambda>_.
     and_then (map_err FsB_Io (canonicalize given)) (\<lambda>root s.
       (case is_dir (absolute root) s of
          (False, t) \<Rightarrow> (Err (FsB_Io (IO_Other ''filesystem root is not a directory'')), t)
        | (True, t) \<Rightarrow>
            and_then (map_err FsB_Io (create_dir_all (absolute (root @ [''.objsds-locks''])))) (\<lambda>_.
            ok \<lparr>fss_root = root\<rparr>) t))))"

end
