(* ===== verification/Filesystem_Invariant.thy ===== *)
theory Filesystem_Invariant
  imports Filesystem_Store
begin

text \<open>
  What the system calls of the filesystem store keep: the shape of the tree, and, but for the
  rename that publishes an object, everything a location can show (\<open>calm\<close>). Paths without
  symbolic links name the file they spell.
\<close>

section \<open>Well-formed trees\<close>

definition fs_wf :: "fs_tree \<Rightarrow> bool" where
  "fs_wf T \<longleftrightarrow> T [] = Some Dir \<and> (\<forall>p c. T (p @ [c]) \<noteq> None \<longrightarrow> T p = Some Dir)"

definition fs_ok :: "fs_state \<Rightarrow> bool" where
  "fs_ok s \<longleftrightarrow> fs_wf (fs_tree s) \<and> fs_tree s (fs_cwd s) = Some Dir"

lemma fs_wf_parent: "fs_wf T \<Longrightarrow> T (p @ [c]) = Some nd \<Longrightarrow> T p = Some Dir"
  unfolding fs_wf_def by blast

lemma fs_wf_butlast: "fs_wf T \<Longrightarrow> T p = Some nd \<Longrightarrow> p \<noteq> [] \<Longrightarrow> T (butlast p) = Some Dir"
  using fs_wf_parent [of T "butlast p" "last p"] by simp

lemma fs_wf_missing: "fs_wf T \<Longrightarrow> T p \<noteq> Some Dir \<Longrightarrow> xs \<noteq> [] \<Longrightarrow> T (p @ xs) = None"
proof (induction xs rule: rev_induct)
  case (snoc x xs)
  then have "T (p @ xs) \<noteq> Some Dir" by (cases "xs = []") auto
  then have "T ((p @ xs) @ [x]) = None" using snoc.prems(1) unfolding fs_wf_def by blast
  then show ?case by simp
qed simp

lemma fs_wf_add:
  assumes "fs_wf T" "T q = None" "T (butlast q) = Some Dir"
  shows "fs_wf (T(q := v))"
proof -
  have "q \<noteq> []" "T (q @ [c]) = None" for c
    using assms fs_wf_missing [of T q "[c]"] by (auto simp: fs_wf_def)
  with assms show ?thesis by (auto simp: fs_wf_def)
qed

lemma fs_wf_change:
  assumes "fs_wf T" "T q = Some nd" "nd \<noteq> Dir"
  shows "fs_wf (T(q := v))"
proof -
  have "q \<noteq> []" "T (q @ [c]) = None" for c
    using assms fs_wf_missing [of T q "[c]"] by (auto simp: fs_wf_def)
  moreover have "T (butlast q) = Some Dir" using assms calculation fs_wf_butlast by blast
  ultimately show ?thesis using assms by (auto simp: fs_wf_def)
qed

lemma fs_wf_put:
  assumes "fs_wf T" "T q \<noteq> Some Dir" "T (butlast q) = Some Dir"
  shows "fs_wf (T(q := v))"
  using assms fs_wf_add [of T q v] fs_wf_change [of T q _ v] by (cases "T q") auto

section \<open>Resolution\<close>

lemma resolve_parent:
  "fs_wf T \<Longrightarrow> T cur = Some Dir \<Longrightarrow> resolve n T cur cs = Ok q \<Longrightarrow> T (butlast q) = Some Dir"
proof (induction n T cur cs rule: resolve.induct)
  case (1 n T cur)
  then show ?case using fs_wf_butlast [of T cur] by (cases "cur = []") auto
next
  case (4 n T cur cs)
  have "T (butlast cur) = Some Dir" using 4 fs_wf_butlast [of T cur] by (cases "cur = []") auto
  with 4 show ?case by simp
next
  case (5 n T cur c cs)
  then show ?case by (auto split: option.splits fs_node.splits if_splits)
qed (auto simp: fs_wf_def)

lemma resolve_dir:
  "fs_wf T \<Longrightarrow> T (cur @ p) = Some Dir \<Longrightarrow>
     resolve n T cur (map Normal p @ cs) = resolve n T (cur @ p) cs"
proof (induction p arbitrary: cur)
  case (Cons c p)
  have "T (cur @ [c]) = Some Dir"
    using Cons.prems fs_wf_missing [of T "cur @ [c]" p] by (cases "p = []") auto
  then show ?case using Cons.IH [of "cur @ [c]"] Cons.prems by simp
qed simp

lemma walk_absolute_dir: "fs_ok s \<Longrightarrow> fs_tree s d = Some Dir \<Longrightarrow> walk s (absolute d) = Ok d"
  using resolve_dir [of "fs_tree s" "[]" d SYMLOOP_MAX "[]"]
  by (simp add: walk_def absolute_def fs_ok_def)

lemma walk_entry_absolute:
  "walk_entry s (absolute (d @ [c])) =
     (case walk s (absolute d) of Err e \<Rightarrow> Err e
      | Ok d' \<Rightarrow> (case fs_tree s d' of Some Dir \<Rightarrow> Ok (d' @ [c])
          | Some _ \<Rightarrow> Err IO_NotADirectory | None \<Rightarrow> Err IO_NotFound))"
  by (simp add: walk_entry_def absolute_def rev_map)

lemma walk_entry_dir:
  "fs_ok s \<Longrightarrow> fs_tree s d = Some Dir \<Longrightarrow> walk_entry s (absolute (d @ [c])) = Ok (d @ [c])"
  by (simp add: walk_entry_absolute walk_absolute_dir)

lemma walk_parent: "fs_ok s \<Longrightarrow> walk s p = Ok q \<Longrightarrow> fs_tree s (butlast q) = Some Dir"
  unfolding walk_def fs_ok_def using resolve_parent by blast

lemma walk_entry_parent: "fs_ok s \<Longrightarrow> walk_entry s p = Ok q \<Longrightarrow> fs_tree s (butlast q) = Some Dir"
  by (auto simp: walk_entry_def walk_parent
      split: list.splits Component.splits sum.splits option.splits fs_node.splits)

text \<open>Below the root, a path free of symbolic links leads to the file it spells or nowhere.\<close>

primrec nosym :: "fs_tree \<Rightarrow> string list \<Rightarrow> string list \<Rightarrow> bool" where
  "nosym T cur [] = True"
| "nosym T cur (c # cs) = ((\<forall>x. T (cur @ [c]) \<noteq> Some (Symlink x)) \<and> nosym T (cur @ [c]) cs)"

lemma nosym_append: "nosym T cur (xs @ ys) \<longleftrightarrow> nosym T cur xs \<and> nosym T (cur @ xs) ys"
  by (induction xs arbitrary: cur) auto

lemma nosym_missing: "fs_wf T \<Longrightarrow> T cur \<noteq> Some Dir \<Longrightarrow> nosym T cur cs"
proof (induction cs arbitrary: cur)
  case (Cons c cs)
  then have "T (cur @ [c]) = None" using fs_wf_missing [of T cur "[c]"] by simp
  with Cons show ?case by simp
qed simp

lemma resolve_nosym:
  "fs_wf T \<Longrightarrow> T cur = Some Dir \<Longrightarrow> nosym T cur xs \<Longrightarrow>
     resolve n T cur (map Normal xs) = Ok (cur @ xs) \<or>
     (\<exists>e. resolve n T cur (map Normal xs) = Err e) \<and> T (cur @ xs) = None"
proof (induction xs arbitrary: cur)
  case (Cons c cs)
  show ?case
  proof (cases "T (cur @ [c]) = Some Dir")
    case True
    then show ?thesis using Cons.IH [of "cur @ [c]"] Cons.prems by simp
  next
    case False
    then have "cs \<noteq> [] \<Longrightarrow> T (cur @ c # cs) = None"
      using Cons.prems(1) fs_wf_missing [of T "cur @ [c]" cs] by simp
    with False Cons.prems show ?thesis by (auto split: option.splits fs_node.splits)
  qed
qed simp

lemma walk_nosym:
  assumes "fs_ok s" "fs_tree s root = Some Dir" "nosym (fs_tree s) root xs"
  shows "walk s (absolute (root @ xs)) = Ok (root @ xs) \<or>
     (\<exists>e. walk s (absolute (root @ xs)) = Err e) \<and> fs_tree s (root @ xs) = None"
proof -
  have "walk s (absolute (root @ xs)) = resolve SYMLOOP_MAX (fs_tree s) root (map Normal xs)"
    using assms resolve_dir [of "fs_tree s" "[]" root SYMLOOP_MAX "map Normal xs"]
    by (simp add: walk_def absolute_def fs_ok_def)
  then show ?thesis using assms resolve_nosym [of "fs_tree s" root xs SYMLOOP_MAX] by (simp add: fs_ok_def)
qed

section \<open>Calm steps\<close>

text \<open>
  The files only the adapter uses are those with its prefix. A calm step never touches another
  file: it may add directories and empty files.
\<close>

definition own_path :: "string list \<Rightarrow> bool" where
  "own_path q \<longleftrightarrow> q \<noteq> [] \<and> own_name (last q)"

definition hidden :: "fs_tree \<Rightarrow> fs_tree \<Rightarrow> bool" where
  "hidden T T' \<longleftrightarrow>
     (\<forall>q. T q = Some Dir \<longrightarrow> T' q = Some Dir) \<and>
     (\<forall>q x. T' q = Some (Symlink x) \<longrightarrow> T q = Some (Symlink x)) \<and>
     (\<forall>q. \<not> own_path q \<longrightarrow> T' q = T q \<or> T q = None \<and> (T' q = Some Dir \<or> T' q = Some (File [])))"

definition fs_frame :: "fs_state \<Rightarrow> fs_state \<Rightarrow> bool" where
  "fs_frame s t \<longleftrightarrow> fs_cwd t = fs_cwd s \<and> fs_locks t = fs_locks s \<and> fs_uuids t = fs_uuids s \<and>
     fs_drawn t = fs_drawn s"

text \<open>
  The disk may hold what the tree shows. What may be on the disk after a calm step was possible
  before it, is in the tree, or is a new directory or empty file; what was possible still is.
\<close>

definition disk_sound :: "fs_state \<Rightarrow> bool" where
  "disk_sound s \<longleftrightarrow> (\<forall>q. dk_entry (fs_disk s) q (fs_tree s q))"

definition disk_kept :: "fs_state \<Rightarrow> fs_state \<Rightarrow> bool" where
  "disk_kept s t \<longleftrightarrow>
     (\<forall>q v. \<not> own_path q \<or> fs_tree s q = Some Dir \<longrightarrow> may_hold (fs_disk t) q v \<longrightarrow>
        may_hold (fs_disk s) q v \<or> v = fs_tree s q \<or> fs_tree s q = None \<and> (v = Some Dir \<or> v = Some (File []))) \<and>
     (\<forall>q v. \<not> own_path q \<longrightarrow> may_hold (fs_disk s) q v \<longrightarrow> may_hold (fs_disk t) q v) \<and>
     (disk_sound s \<longrightarrow> disk_sound t)"

definition calm :: "fs_state \<Rightarrow> fs_state \<Rightarrow> bool" where
  "calm s t \<longleftrightarrow> (fs_ok s \<longrightarrow> fs_ok t \<and> hidden (fs_tree s) (fs_tree t) \<and> fs_frame s t \<and> disk_kept s t)"

lemma hidden_refl [simp]: "hidden T T"
  by (simp add: hidden_def)

lemma hidden_trans: "hidden T U \<Longrightarrow> hidden U V \<Longrightarrow> hidden T V"
  unfolding hidden_def by (intro conjI allI impI) metis+

lemma disk_kept_same: "fs_disk t = fs_disk s \<Longrightarrow> fs_tree t = fs_tree s \<Longrightarrow> disk_kept s t"
  by (simp add: disk_kept_def disk_sound_def)

lemma disk_kept_trans:
  assumes "disk_kept s t" "disk_kept t u" "hidden (fs_tree s) (fs_tree t)"
  shows "disk_kept s u"
proof -
  have "may_hold (fs_disk s) q v \<or> v = fs_tree s q \<or> fs_tree s q = None \<and> (v = Some Dir \<or> v = Some (File []))"
    if q: "\<not> own_path q \<or> fs_tree s q = Some Dir" "may_hold (fs_disk u) q v" for q v
  proof -
    have tree: "fs_tree t q = fs_tree s q \<or>
        fs_tree s q = None \<and> (fs_tree t q = Some Dir \<or> fs_tree t q = Some (File []))"
      using assms(3) q(1) unfolding hidden_def by metis
    then have "may_hold (fs_disk t) q v \<or> v = fs_tree t q \<or> fs_tree t q = None \<and> (v = Some Dir \<or> v = Some (File []))"
      using assms(2) q unfolding disk_kept_def by (metis option.distinct(1))
    then show ?thesis using assms(1) q(1) tree unfolding disk_kept_def by metis
  qed
  with assms(1,2) show ?thesis by (simp add: disk_kept_def)
qed

lemma calm_refl [simp]: "calm s s"
  by (simp add: calm_def fs_frame_def disk_kept_same)

lemma calm_trans: "calm s t \<Longrightarrow> calm t u \<Longrightarrow> calm s u"
  unfolding calm_def fs_frame_def using hidden_trans disk_kept_trans by metis

lemma calm_faults [simp]: "calm s (s\<lparr>fs_faults := fs\<rparr>)"
  by (simp add: calm_def fs_frame_def fs_ok_def disk_kept_same)

lemma calm_faults_left [simp]: "calm (s\<lparr>fs_faults := fs\<rparr>) t \<Longrightarrow> calm s t"
  using calm_trans calm_faults by blast

lemma calmD:
  assumes "calm s t" "fs_ok s"
  shows "fs_ok t" "hidden (fs_tree s) (fs_tree t)" "fs_frame s t"
    "fs_tree s q = Some Dir \<Longrightarrow> fs_tree t q = Some Dir"
  using assms by (auto simp: calm_def hidden_def)

lemma nosym_hidden: "hidden T T' \<Longrightarrow> nosym T cur cs \<Longrightarrow> nosym T' cur cs"
  by (induction cs arbitrary: cur) (auto simp: hidden_def)

lemma may_hold_set_node: "may_hold (entry_changed p v k) q x \<longleftrightarrow> may_hold k q x \<or> q = p \<and> x = v"
  by (auto simp: entry_changed_def may_hold_def)

lemma disk_sound_set_node: "disk_sound s \<Longrightarrow> disk_sound (set_node p v s)"
  by (auto simp: disk_sound_def set_node_def entry_changed_def)

lemmas set_node_disk = may_hold_set_node disk_sound_set_node [unfolded set_node_def]

lemma calm_mark_dirty:
  "own_path h \<Longrightarrow> fs_tree s h \<noteq> Some Dir \<Longrightarrow> calm s t \<Longrightarrow> calm s (mark_dirty h t)"
  by (auto simp: calm_def mark_dirty_def fs_ok_def fs_frame_def disk_kept_def may_hold_def disk_sound_def)

lemma calm_sync_node: "own_path h \<Longrightarrow> fs_tree s h = Some (File x) \<Longrightarrow> calm s (sync_node h s)"
  by (auto simp: calm_def sync_node_def fs_ok_def fs_frame_def disk_kept_def may_hold_def disk_sound_def)

lemma fs_tree_marks [simp]:
  "fs_tree (mark_dirty h s) = fs_tree s" "fs_tree (sync_node h s) = fs_tree s"
  "fs_cwd (mark_dirty h s) = fs_cwd s" "fs_cwd (sync_node h s) = fs_cwd s"
  "fs_faults (mark_dirty h s) = fs_faults s" "fs_faults (sync_node h s) = fs_faults s"
  by (simp_all add: mark_dirty_def sync_node_def split: option.splits fs_node.splits)

lemma calm_add:
  assumes "fs_tree s (butlast q) = Some Dir" "fs_tree s q = None" "v = Some Dir \<or> v = Some (File [])"
  shows "calm s (set_node q v s)"
  using assms fs_wf_add [of "fs_tree s" q v]
  by (auto simp: calm_def set_node_def fs_ok_def hidden_def fs_frame_def disk_kept_def set_node_disk)

lemma calm_own:
  assumes "own_path q" "fs_tree s q = Some nd" "nd \<noteq> Dir" "v = None \<or> v = Some (File bs)"
  shows "calm s (set_node q v s)"
  using assms fs_wf_change [of "fs_tree s" q nd v]
  by (auto simp: calm_def set_node_def fs_ok_def hidden_def fs_frame_def disk_kept_def set_node_disk)

text \<open>A system call is calm when what it does and the damage it may leave are.\<close>

lemma syscall_calm:
  assumes "syscall damage act s = (r, t)" "\<And>s r t. act s = (r, t) \<Longrightarrow> calm s t" "\<And>k s. calm s (damage k s)"
  shows "calm s t"
  using assms(1)
  by (auto simp: syscall_def split: list.splits option.splits fault.splits
      intro: assms(3) calm_faults_left dest!: assms(2) [of "s\<lparr>fs_faults := _\<rparr>"] assms(2) [of s])

lemma syscall_unharmed:
  assumes "syscall unharmed act s = (r, t)"
  obtains (fault) e fs where "r = Err (IO_Other e)" "t = s\<lparr>fs_faults := fs\<rparr>"
  | (ran) fs where "act (s\<lparr>fs_faults := fs\<rparr>) = (r, t)"
proof (cases "fs_faults s")
  case Nil
  have "s\<lparr>fs_faults := fs_faults s\<rparr> = s" by simp
  with Nil have "act (s\<lparr>fs_faults := fs_faults s\<rparr>) = (r, t)" using assms by (simp only: syscall_def list.case)
  then show ?thesis by (rule that(2))
next
  case (Cons f fs)
  then show ?thesis
    using assms that by (cases f; cases "the f") (auto simp: syscall_def unharmed_def)
qed

lemma unharmed_apply [simp]: "unharmed k s = s"
  by (simp add: unharmed_def)

lemma walk_faults [simp]:
  "walk (s\<lparr>fs_faults := fs\<rparr>) p = walk s p" "walk_entry (s\<lparr>fs_faults := fs\<rparr>) p = walk_entry s p"
  by (simp_all add: walk_def walk_entry_def split: list.splits Component.splits sum.splits)

section \<open>The calls, one by one\<close>

lemma calm_symlink_metadata: "sys_symlink_metadata p s = (r, t) \<Longrightarrow> fs_tree t = fs_tree s \<and> calm s t"
  unfolding sys_symlink_metadata_def
  by (erule syscall_unharmed) (auto split: sum.splits option.splits)

lemma calm_read: "sys_read p slash s = (r, t) \<Longrightarrow> fs_tree t = fs_tree s \<and> calm s t"
  unfolding sys_read_def
  by (erule syscall_unharmed) (auto split: sum.splits option.splits fs_node.splits if_splits)

lemma calm_is_dir: "is_dir p s = (b, t) \<Longrightarrow> calm s t"
  unfolding is_dir_def
  by (auto split: prod.splits sum.splits option.splits elim!: syscall_unharmed)

lemma fs_ok_faults [simp]: "fs_ok (s\<lparr>fs_faults := fs\<rparr>) = fs_ok s"
  by (simp add: fs_ok_def)

lemma calm_fs_okI: "(fs_ok s \<Longrightarrow> calm s t) \<Longrightarrow> calm s t"
  by (auto simp: calm_def)

lemma calm_syscall:
  assumes "syscall unharmed act s = (r, t)" "\<And>s. fs_ok s \<Longrightarrow> act s = (r, t) \<Longrightarrow> calm s t"
  shows "calm s t"
proof (rule calm_fs_okI)
  assume ok: "fs_ok s"
  from assms(1) show "calm s t"
  proof (cases rule: syscall_unharmed)
    case (ran fs)
    then show ?thesis using assms(2) [of "s\<lparr>fs_faults := fs\<rparr>"] ok by simp
  qed simp
qed

lemma calm_mkdir: "sys_mkdir p s = (r, t) \<Longrightarrow> calm s t"
  unfolding sys_mkdir_def
  by (erule calm_syscall) (auto split: sum.splits option.splits dest: walk_entry_parent intro: calm_add)

lemma calm_create_new: "sys_create_new p s = (r, t) \<Longrightarrow> calm s t"
  unfolding sys_create_new_def
  by (erule calm_syscall) (auto split: sum.splits option.splits dest: walk_entry_parent [OF _ sym] intro: calm_add)

lemma calm_open_or_create: "sys_open_or_create p s = (r, t) \<Longrightarrow> calm s t"
  unfolding sys_open_or_create_def
  by (erule calm_syscall)
    (auto split: sum.splits option.splits fs_node.splits dest: walk_parent [OF _ sym] intro: calm_add)

lemma calm_open: "sys_open p s = (r, t) \<Longrightarrow> fs_tree t = fs_tree s \<and> calm s t"
  unfolding sys_open_def
  by (erule syscall_unharmed) (auto split: sum.splits option.splits)

lemma calm_sync_all:
  assumes "sync_all h s = (r, t)" "own_path h" "fs_tree s h = Some (File x)"
  shows "fs_tree t = fs_tree s \<and> calm s t"
  using assms calm_trans [OF calm_faults [of s] calm_sync_node] unfolding sync_all_def
  by (elim syscall_unharmed) auto

lemma calm_canonicalize: "canonicalize p s = (r, t) \<Longrightarrow> fs_tree t = fs_tree s \<and> calm s t"
  unfolding canonicalize_def
  by (erule syscall_unharmed) (auto split: sum.splits option.splits if_splits)

lemma calm_mkdir_or_dir:
  assumes "mkdir_or_dir p other s = (r, t)" "\<And>e s r t. other e s = (r, t) \<Longrightarrow> calm s t"
  shows "calm s t"
  using assms(1)
  by (auto simp: mkdir_or_dir_def split: prod.splits sum.splits if_splits bool.splits
      dest!: calm_mkdir calm_is_dir assms(2) intro: calm_trans)

lemma calm_create_dirs: "create_dirs p s = (r, t) \<Longrightarrow> calm s t"
proof (induction p arbitrary: s r t)
  case (Cons c p)
  show ?case
    using Cons.prems unfolding create_dirs.simps
  proof (rule calm_mkdir_or_dir)
    fix e s r t
    assume "and_then (create_dirs p) (\<lambda>_. mkdir_or_dir (rev (c # p)) (\<lambda>e t.
         (case is_dir (rev (c # p)) t of (True, t') \<Rightarrow> (Ok (), t') | (False, t') \<Rightarrow> (Err e, t')))) s = (r, t)"
    then show "calm s t"
      by (auto simp: and_then_def split: prod.splits sum.splits bool.splits
          dest!: Cons.IH calm_mkdir_or_dir calm_is_dir intro: calm_trans)
  qed
qed simp

lemma calm_create_dir_all: "create_dir_all p s = (r, t) \<Longrightarrow> calm s t"
  unfolding create_dir_all_def by (rule calm_create_dirs)

lemma calm_append_file:
  assumes "own_path h"
  shows "calm s (append_file h bs s)"
proof (cases "\<exists>old. fs_tree s h = Some (File old)")
  case True
  then obtain old where old: "fs_tree s h = Some (File old)" by blast
  then have "calm s (set_node h (Some (File (old @ bs))) s)" by (intro calm_own [OF assms old]) simp_all
  then show ?thesis using old calm_mark_dirty [OF assms] by (simp add: append_file_def)
next
  case False
  then have "append_file h bs s = s" by (simp add: append_file_def split: option.splits fs_node.splits)
  then show ?thesis by simp
qed

lemma calm_write_all: "write_all h bs s = (r, t) \<Longrightarrow> own_path h \<Longrightarrow> calm s t"
  unfolding write_all_def by (erule syscall_calm) (auto intro: calm_append_file)

lemma calm_remove_file:
  assumes "remove_file (absolute (d @ [c])) s = (r, t)" "own_name c"
  shows "calm s t"
proof -
  have own: "own_path q" if "walk_entry u (absolute (d @ [c])) = Ok q" for u q
    using that assms(2)
    by (auto simp: walk_entry_absolute own_path_def split: sum.splits option.splits fs_node.splits)
  show ?thesis
    using assms(1) unfolding remove_file_def
    by (elim calm_syscall)
      (auto split: sum.splits option.splits fs_node.splits dest!: own intro: calm_own)
qed

end
