(* ===== verification/Filesystem_Contract.thy ===== *)
theory Filesystem_Contract
  imports Filesystem_Invariant
begin

text \<open>
  The filesystem store keeps the contract of \<open>ObjectStore\<close>, whatever faults hit it: a write is
  applied whole or not at all. What a location shows (\<open>fs_view\<close>) is the decoded file at its
  path; only the rename inside \<open>publish\<close> changes it.
\<close>

section \<open>The view\<close>

definition fs_object :: "uuid_ops \<Rightarrow> fs_node option \<Rightarrow> Object option" where
  "fs_object Q nd =
     (case nd of Some (File bs) \<Rightarrow> (case fs_decode Q bs of Ok obj \<Rightarrow> Some obj | Err _ \<Rightarrow> None)
      | _ \<Rightarrow> None)"

definition fs_view :: "uuid_ops \<Rightarrow> string list \<Rightarrow> fs_state \<Rightarrow> Location \<Rightarrow> Object option" where
  "fs_view Q root s l =
     (if fs_location l then fs_object Q (fs_tree s (root @ fs_names l)) else None)"

definition fs_inv :: "uuid_ops \<Rightarrow> string list \<Rightarrow> fs_state \<Rightarrow> bool" where
  "fs_inv Q root s \<longleftrightarrow> uuid_ops_ok Q \<and> fs_ok s \<and> fs_tree s root = Some Dir"

lemma fs_object_simps [simp]:
  "fs_object Q None = None" "fs_object Q (Some Dir) = None" "fs_object Q (Some (File [])) = None"
  "fs_object Q (Some (Symlink x)) = None"
  by (simp_all add: fs_object_def fs_decode_def HEADER_LEN_def)

lemma location_not_own: "fs_location l \<Longrightarrow> \<not> own_path (root @ fs_names l)"
  by (simp add: own_path_def fs_location_def)

lemma hidden_view:
  assumes "hidden (fs_tree s) (fs_tree t)"
  shows "fs_view Q root t = fs_view Q root s"
proof
  fix l
  show "fs_view Q root t l = fs_view Q root s l"
    using assms location_not_own [of l root] unfolding fs_view_def hidden_def
    by (metis fs_object_simps(1-3))
qed

lemma calm_inv: "calm s t \<Longrightarrow> fs_inv Q root s \<Longrightarrow> fs_inv Q root t \<and> fs_view Q root t = fs_view Q root s"
  using calmD hidden_view by (metis fs_inv_def)

section \<open>Finding the object's path\<close>

lemma symlink_metadata_dir:
  assumes "sys_symlink_metadata (absolute (d @ [c])) s = (r, t)" "fs_ok s" "fs_tree s d = Some Dir"
  shows "(r = Err IO_NotFound \<longrightarrow> fs_tree s (d @ [c]) = None) \<and>
         (\<forall>nd. r = Ok nd \<longrightarrow> fs_tree s (d @ [c]) = Some nd)"
  using assms(1) unfolding sys_symlink_metadata_def
  by (elim syscall_unharmed) (auto simp: walk_entry_dir assms split: option.splits)

lemma reject_loop_calm:
  "reject_loop cur cs s = (r, t) \<Longrightarrow> fs_tree t = fs_tree s \<and> calm s t"
proof (induction cs arbitrary: cur s)
  case (Cons c cs)
  then show ?case
    by (auto split: prod.splits sum.splits if_splits dest!: Cons.IH calm_symlink_metadata intro: calm_trans)
qed simp

lemma reject_loop_nosym:
  "reject_loop cur cs s = (Ok u, t) \<Longrightarrow> fs_ok s \<Longrightarrow> nosym (fs_tree s) cur cs"
proof (induction cs arbitrary: cur s)
  case (Cons c cs)
  obtain r s1 where m: "sys_symlink_metadata (absolute (cur @ [c])) s = (r, s1)" by fastforce
  have s1: "fs_tree s1 = fs_tree s" "fs_ok s1"
    using calm_symlink_metadata [OF m] calmD(1) Cons.prems(2) by auto
  show ?case
  proof (cases "fs_tree s cur = Some Dir")
    case True
    note dir = symlink_metadata_dir [OF m Cons.prems(2) True]
    show ?thesis
    proof (cases r)
      case (Inl e)
      then have "fs_tree s (cur @ [c]) = None"
        using Cons.prems(1) m dir by (auto split: if_splits)
      then show ?thesis
        using Cons.prems(2) nosym_missing [of "fs_tree s" "cur @ [c]" cs] by (simp add: fs_ok_def)
    next
      case (Inr nd)
      then have "\<not> is_symlink nd" "nosym (fs_tree s) (cur @ [c]) cs"
        using Cons.prems(1) m Cons.IH [of "cur @ [c]" s1] s1 by (auto split: if_splits)
      with dir Inr show ?thesis by auto
    qed
  next
    case False
    then show ?thesis using Cons.prems(2) nosym_missing [of "fs_tree s" cur "c # cs"] by (simp add: fs_ok_def)
  qed
qed simp

lemma reject_existing_symlinks_location:
  assumes "reject_existing_symlinks root \<lparr>fp_names = root @ names, fp_slash = b\<rparr> s = (r, t)"
  shows "fs_tree t = fs_tree s" "calm s t"
    "r = Ok u \<Longrightarrow> fs_ok s \<Longrightarrow> nosym (fs_tree t) root names"
  using assms reject_loop_calm [of root names s r t] reject_loop_nosym [of root names s u t]
  by (simp_all add: reject_existing_symlinks_def)

abbreviation location_path :: "string list \<Rightarrow> Location \<Rightarrow> fs_path" where
  "location_path root l \<equiv> \<lparr>fp_names = root @ fs_names l, fp_slash = False\<rparr>"

lemma object_path_location:
  assumes "object_path root l s = (r, t)" "fs_location l"
  shows "calm s t" "r = Ok p \<Longrightarrow> p = location_path root l"
    "r = Ok p \<Longrightarrow> fs_ok s \<Longrightarrow> nosym (fs_tree t) root (fs_names l)"
proof -
  obtain r' where rej: "reject_existing_symlinks root (location_path root l) s = (r', t)"
    and r: "r = (case r' of Err e \<Rightarrow> Err e | Ok _ \<Rightarrow> Ok (location_path root l))"
    using assms unfolding object_path_def
    by (auto simp: object_path_of_location and_then_def split: prod.splits sum.splits)
  show "calm s t" "r = Ok p \<Longrightarrow> p = location_path root l"
    "r = Ok p \<Longrightarrow> fs_ok s \<Longrightarrow> nosym (fs_tree t) root (fs_names l)"
    using reject_existing_symlinks_location [OF rej] r by (auto split: sum.splits)
qed

lemma fp_parent_location: "fp_parent (location_path root l) = Some (root @ butlast (fs_names l))"
  by (simp add: fp_parent_def butlast_append)

lemma prepare_path_location:
  assumes "prepare_path root l s = (r, t)" "fs_location l"
  shows "calm s t \<and> (\<forall>p. r = Ok p \<longrightarrow> fs_ok s \<longrightarrow>
    p = location_path root l \<and> nosym (fs_tree t) root (fs_names l))"
proof -
  obtain r1 s1 where p1: "object_path root l s = (r1, s1)" by fastforce
  note o = object_path_location [OF p1 assms(2)]
  show ?thesis
  proof (cases r1)
    case (Inl e)
    then show ?thesis using assms(1) p1 o(1) by (auto simp: prepare_path_def and_then_def)
  next
    case (Inr p)
    then have p: "p = location_path root l" using o(2) by blast
    obtain r2 s2 where p2: "create_dir_all (absolute (root @ butlast (fs_names l))) s1 = (r2, s2)"
      by fastforce
    note c2 = calm_create_dir_all [OF p2]
    obtain r3 s3 where p3: "reject_existing_symlinks root (location_path root l) s2 = (r3, s3)"
      by fastforce
    note c3 = reject_existing_symlinks_location [OF p3]
    have rt: "(r, t) = (case r2 of Err e \<Rightarrow> (Err (FsStoreError_from e), s2)
        | Ok _ \<Rightarrow> (case r3 of Err e \<Rightarrow> (Err e, s3) | Ok _ \<Rightarrow> (Ok (location_path root l), s3)))"
      using assms(1) p1 p2 p3 Inr
      by (auto simp: prepare_path_def and_then_def map_err_def p fp_parent_location simp del: fp_parent_def
          split: sum.splits)
    have "fs_ok s2" if "fs_ok s" using calmD(1) o(1) c2 that by blast
    then show ?thesis
      using rt o(1) c2 c3 calm_trans [of s s1 s2] calm_trans [of s s2 s3] by (auto split: sum.splits)
  qed
qed

section \<open>Reading\<close>

text \<open>Reading the path of a location gives what the location shows, or an error.\<close>

lemma read_path_location:
  assumes "read_path Q (location_path root l) s = (r, t)" "fs_inv Q root s" "fs_location l"
    and "nosym (fs_tree s) root (fs_names l)"
  shows "fs_tree t = fs_tree s \<and> calm s t \<and> (\<forall>y. r = Ok y \<longrightarrow> y = fs_view Q root s l)"
proof -
  obtain r1 where p: "sys_read (absolute (root @ fs_names l)) False s = (r1, t)"
    using assms(1) by (auto simp: read_path_def split: prod.splits sum.splits if_splits)
  have r: "r = (case r1 of Ok bs \<Rightarrow> map_sum id Some (fs_decode Q bs)
      | Err e \<Rightarrow> if e = IO_NotFound then Ok None else Err (FsStoreError_from e))"
    using assms(1) p by (auto simp: read_path_def split: sum.splits if_splits)
  note w = walk_nosym [of s root "fs_names l"]
  have "(r1 = Err IO_NotFound \<longrightarrow> fs_tree s (root @ fs_names l) = None) \<and>
      (\<forall>bs. r1 = Ok bs \<longrightarrow> fs_tree s (root @ fs_names l) = Some (File bs))"
    using p w assms(2,4) unfolding sys_read_def
    by (elim syscall_unharmed)
      (auto simp: fs_inv_def split: sum.splits option.splits fs_node.splits)
  then have "\<forall>y. r = Ok y \<longrightarrow> y = fs_view Q root s l"
    using r assms(3) by (auto simp: fs_view_def fs_object_def split: sum.splits if_splits)
  with calm_read [OF p] show ?thesis by simp
qed

section \<open>Locking\<close>

lemma lock_file_cases:
  assumes "lock_file h mode s = (r, t)"
  shows "(\<exists>fs. r = Ok () \<and> t = (s\<lparr>fs_faults := fs\<rparr>)\<lparr>fs_locks := (h, mode) # fs_locks s\<rparr>) \<or>
      (\<exists>e fs. r = Err e \<and> t = s\<lparr>fs_faults := fs\<rparr>)"
  using assms unfolding lock_file_def by (elim syscall_unharmed) auto

lemma ObjectLock_acquire_calm:
  assumes "ObjectLock_acquire path mode s = (r, t)"
  shows "(\<exists>lk u. r = Ok lk \<and> calm s u \<and> t = u\<lparr>fs_locks := (lk_file lk, lk_mode lk) # fs_locks u\<rparr>)
     \<or> (\<exists>e. r = Err e \<and> calm s t)"
proof -
  obtain r1 s1 where p1: "create_dir_all (absolute (butlast path)) s = (r1, s1)" by fastforce
  obtain r2 s2 where p2: "sys_open_or_create (absolute path) s1 = (r2, s2)" by fastforce
  obtain r3 s3 where p3: "lock_file (projr r2) mode s2 = (r3, s3)" by fastforce
  have c: "calm s s1" "calm s s2"
    using calm_create_dir_all [OF p1] calm_open_or_create [OF p2] calm_trans by blast+
  have "calm s (s2\<lparr>fs_faults := fs\<rparr>)" for fs using c(2) calm_faults calm_trans by blast
  then have ex: "\<exists>u. calm s u \<and>
      (s2\<lparr>fs_faults := fs\<rparr>)\<lparr>fs_locks := x # fs_locks s2\<rparr> = u\<lparr>fs_locks := x # fs_locks u\<rparr>" for fs x
    by (intro exI [of _ "s2\<lparr>fs_faults := fs\<rparr>"]) simp
  show ?thesis
  proof (cases "path = [] \<or> (\<exists>e. r1 = Err e) \<or> (\<exists>e. r2 = Err e)")
    case True
    then show ?thesis
      using assms p1 p2 c
      by (cases r1; cases r2; cases "path = []") (auto simp: ObjectLock_acquire_def and_then_def map_err_def)
  next
    case False
    then obtain h where "path \<noteq> []" "r1 = Ok ()" "r2 = Ok h" by (cases r1; cases r2) auto
    then have "r = (case r3 of Err e \<Rightarrow> Err (FsStoreError_from e) | Ok _ \<Rightarrow> Ok \<lparr>lk_file = h, lk_mode = mode\<rparr>)"
      "t = s3" "lock_file h mode s2 = (r3, s3)"
      using assms p1 p2 p3
      by (auto simp: ObjectLock_acquire_def and_then_def map_err_def split: sum.splits)
    then show ?thesis
      using lock_file_cases [of h mode s2 r3 s3] ex c(2) calm_trans [OF c(2) calm_faults] by auto
  qed
qed

lemma calm_unlock:
  "calm (u\<lparr>fs_locks := lk # fs_locks u\<rparr>) v \<Longrightarrow> calm u (v\<lparr>fs_locks := remove1 lk (fs_locks v)\<rparr>)"
  by (auto simp: calm_def fs_ok_def fs_frame_def disk_kept_def disk_sound_def)

lemma with_lock_cases:
  assumes "with_lock wrap (ObjectLock_acquire path mode) body s = (r, t)"
  shows "(\<exists>e. r = Err (wrap e) \<and> calm s t) \<or>
    (\<exists>u lk v. calm s u \<and> body (u\<lparr>fs_locks := lk # fs_locks u\<rparr>) = (r, v) \<and>
       t = v\<lparr>fs_locks := remove1 lk (fs_locks v)\<rparr>)"
proof -
  obtain r1 s1 where p: "ObjectLock_acquire path mode s = (r1, s1)" by fastforce
  show ?thesis
    using ObjectLock_acquire_calm [OF p] assms p
    by (fastforce simp: with_lock_def and_then_def map_err_def unlock_file_def split: prod.splits)
qed

section \<open>Publishing\<close>

text \<open>On the disk: like a calm step, but \<open>p\<close> may be the new file.\<close>

definition disk_put :: "string list \<Rightarrow> bytes \<Rightarrow> fs_state \<Rightarrow> fs_state \<Rightarrow> bool" where
  "disk_put p enc s t \<longleftrightarrow>
     (\<forall>q v. \<not> own_path q \<or> fs_tree s q = Some Dir \<longrightarrow> may_hold (fs_disk t) q v \<longrightarrow>
        may_hold (fs_disk s) q v \<or> v = fs_tree s q \<or> fs_tree s q = None \<and> (v = Some Dir \<or> v = Some (File [])) \<or>
        q = p \<and> fs_tree s p \<noteq> Some Dir \<and> v = Some (File enc)) \<and>
     (\<forall>q v. \<not> own_path q \<longrightarrow> butlast q \<noteq> butlast p \<longrightarrow> may_hold (fs_disk s) q v \<longrightarrow> may_hold (fs_disk t) q v) \<and>
     (disk_sound s \<longrightarrow> disk_sound t)"

lemma disk_kept_put:
  assumes "disk_kept s t" "hidden (fs_tree s) (fs_tree t)" "disk_put p enc t u"
  shows "disk_put p enc s u"
proof -
  have "may_hold (fs_disk s) q v \<or> v = fs_tree s q \<or> fs_tree s q = None \<and> (v = Some Dir \<or> v = Some (File [])) \<or>
      q = p \<and> fs_tree s p \<noteq> Some Dir \<and> v = Some (File enc)"
    if q: "\<not> own_path q \<or> fs_tree s q = Some Dir" "may_hold (fs_disk u) q v" for q v
  proof -
    have tree: "fs_tree t q = fs_tree s q \<or>
        fs_tree s q = None \<and> (fs_tree t q = Some Dir \<or> fs_tree t q = Some (File []))"
      using assms(2) q(1) unfolding hidden_def by metis
    then have "may_hold (fs_disk t) q v \<or> v = fs_tree t q \<or> fs_tree t q = None \<and> (v = Some Dir \<or> v = Some (File [])) \<or>
        q = p \<and> fs_tree t p \<noteq> Some Dir \<and> v = Some (File enc)"
      using assms(3) q unfolding disk_put_def by (metis option.distinct(1))
    then show ?thesis using assms(1) q(1) tree unfolding disk_kept_def by (metis option.distinct(1))
  qed
  with assms(1,3) show ?thesis by (simp add: disk_put_def disk_kept_def)
qed

lemma disk_put_kept:
  assumes "disk_put p enc s t" "disk_kept t u" "fs_tree t p = Some (File enc)"
    and "\<forall>q. fs_tree s q = Some Dir \<longrightarrow> fs_tree t q = Some Dir"
    and "\<forall>q. \<not> own_path q \<longrightarrow> q \<noteq> p \<longrightarrow> fs_tree t q = fs_tree s q \<or>
        fs_tree s q = None \<and> (fs_tree t q = Some Dir \<or> fs_tree t q = Some (File []))"
  shows "disk_put p enc s u"
proof -
  have "may_hold (fs_disk s) q v \<or> v = fs_tree s q \<or> fs_tree s q = None \<and> (v = Some Dir \<or> v = Some (File [])) \<or>
      q = p \<and> fs_tree s p \<noteq> Some Dir \<and> v = Some (File enc)"
    if q: "\<not> own_path q \<or> fs_tree s q = Some Dir" "may_hold (fs_disk u) q v" for q v
  proof -
    have "may_hold (fs_disk t) q v \<or> v = fs_tree t q \<or> fs_tree t q = None \<and> (v = Some Dir \<or> v = Some (File []))"
      using assms(2,4) q unfolding disk_kept_def by blast
    moreover have "fs_tree t q = fs_tree s q \<or>
        fs_tree s q = None \<and> (fs_tree t q = Some Dir \<or> fs_tree t q = Some (File []))" if "q \<noteq> p"
      using assms(4,5) q(1) that by metis
    moreover have "fs_tree s p \<noteq> Some Dir" using assms(3,4) by auto
    ultimately show ?thesis
      using assms(1,3) q(1) unfolding disk_put_def by (cases "q = p") (metis option.distinct(1))+
  qed
  with assms(1,2) show ?thesis by (simp add: disk_put_def disk_kept_def)
qed

text \<open>\<open>puts p enc\<close>: like a calm step, but the file at \<open>p\<close> then holds exactly \<open>enc\<close>.\<close>

definition puts :: "string list \<Rightarrow> bytes \<Rightarrow> fs_state \<Rightarrow> fs_state \<Rightarrow> bool" where
  "puts p enc s t \<longleftrightarrow> (fs_ok s \<longrightarrow> fs_ok t \<and> fs_frame s t \<and> fs_tree t p = Some (File enc) \<and>
     (\<forall>q. fs_tree s q = Some Dir \<longrightarrow> fs_tree t q = Some Dir) \<and>
     (\<forall>q. \<not> own_path q \<longrightarrow> q \<noteq> p \<longrightarrow> fs_tree t q = fs_tree s q \<or>
        fs_tree s q = None \<and> (fs_tree t q = Some Dir \<or> fs_tree t q = Some (File []))) \<and>
     disk_put p enc s t)"

lemma calm_puts:
  assumes "calm s t" "puts p enc t u"
  shows "puts p enc s u"
proof -
  have "disk_put p enc s u" if "fs_ok s"
    using disk_kept_put [of s t p enc u] assms that by (auto simp: calm_def puts_def)
  with assms show ?thesis unfolding puts_def calm_def hidden_def fs_frame_def by metis
qed

lemma puts_calm:
  assumes "puts p enc s t" "calm t u" "\<not> own_path p"
  shows "puts p enc s u"
proof -
  have "disk_put p enc s u" if "fs_ok s"
    using disk_put_kept [of p enc s t u] assms that by (auto simp: calm_def puts_def)
  with assms show ?thesis unfolding puts_def calm_def hidden_def fs_frame_def
    by (intro impI conjI allI) (metis option.distinct(1))+
qed

lemma puts_unlock:
  "puts p enc (u\<lparr>fs_locks := lk # fs_locks u\<rparr>) v \<Longrightarrow> puts p enc u (v\<lparr>fs_locks := remove1 lk (fs_locks v)\<rparr>)"
  by (auto simp: puts_def fs_ok_def fs_frame_def disk_put_def disk_sound_def)

lemma disk_sound_renamed:
  "disk_sound s \<Longrightarrow> disk_sound (s\<lparr>fs_tree := (fs_tree s)(p := u, q := v),
     fs_disk := entry_changed q v (entry_changed p u (fs_disk s))\<rparr>)"
  using disk_sound_set_node [OF disk_sound_set_node, of s q v p u] by (simp add: set_node_def)

text \<open>The entry of \<open>p\<close> is on the disk as it is in the tree.\<close>

definition settled :: "fs_state \<Rightarrow> string list \<Rightarrow> bool" where
  "settled s p \<longleftrightarrow> (\<forall>v. may_hold (fs_disk s) p v \<longrightarrow> v = fs_tree s p)"

text \<open>The sync of the directory that holds \<open>p\<close>: it settles the entry, and of other directories it keeps everything.\<close>

lemma puts_dir_sync:
  assumes "puts p enc s t" "p = d @ [n]" "fs_tree t d = Some Dir"
  shows "puts p enc s (sync_node d t)"
proof -
  have "may_hold (fs_disk (sync_node d t)) q v \<Longrightarrow> may_hold (fs_disk t) q v \<or> v = fs_tree t q" for q v
    using assms(3) by (auto simp: sync_node_def may_hold_def split: if_splits)
  moreover have "q \<noteq> [] \<longrightarrow> butlast q \<noteq> d \<Longrightarrow> may_hold (fs_disk t) q v \<Longrightarrow> may_hold (fs_disk (sync_node d t)) q v" for q v
    using assms(3) by (auto simp: sync_node_def may_hold_def)
  moreover have "disk_sound t \<Longrightarrow> disk_sound (sync_node d t)"
    using assms(3) by (auto simp: sync_node_def disk_sound_def)
  moreover have "fs_ok (sync_node d t) = fs_ok t" "fs_frame s (sync_node d t) = fs_frame s t"
    using assms(3) by (auto simp: sync_node_def fs_ok_def fs_frame_def)
  ultimately show ?thesis
    using assms(1,2) unfolding puts_def disk_put_def
    by (simp (no_asm_simp)) (metis butlast_snoc option.distinct(1))
qed

lemma settled_dir_sync:
  assumes "fs_tree t d = Some Dir" "\<not> dk_dirty (fs_disk t) (d @ [n])"
  shows "settled (sync_node d t) (d @ [n])"
  using assms by (simp add: settled_def sync_node_def may_hold_def)

lemma do_rename_clean:
  assumes "do_rename (absolute (d @ [c])) (absolute (d @ [n])) False s = (Ok u, t)"
    and "fs_ok s" "fs_tree s d = Some Dir" "c \<noteq> n" "\<not> dk_dirty (fs_disk s) (d @ [c])"
  shows "\<not> dk_dirty (fs_disk t) (d @ [n])"
  using assms
  by (auto simp: do_rename_def walk_entry_dir set_node_def entry_changed_def split: option.splits fs_node.splits if_splits)

lemma do_rename_puts:
  assumes "do_rename (absolute (d @ [c])) (absolute (d @ [n])) False s = (r, t)"
    and "fs_ok s" "fs_tree s d = Some Dir" "fs_tree s (d @ [c]) = Some (File enc)"
    and "own_name c" "\<not> own_name n" "\<not> dk_dirty (fs_disk s) (d @ [c])"
  shows "(\<exists>e. r = Err e) \<and> t = s \<or> puts (d @ [n]) enc s t"
proof -
  have "c \<noteq> n" using assms(5,6) by auto
  moreover have "puts (d @ [n]) enc s (set_node (d @ [n]) (Some (File enc)) (set_node (d @ [c]) None s))"
    if "fs_tree s (d @ [n]) \<noteq> Some Dir"
  proof -
    have "fs_wf ((fs_tree s)(d @ [c] := None))"
      using assms(2,4) fs_wf_change [of "fs_tree s"] by (auto simp: fs_ok_def)
    then have "fs_wf ((fs_tree s)(d @ [c] := None, d @ [n] := Some (File enc)))"
      using that assms(3,4) calculation
      by (intro fs_wf_put [of "(fs_tree s)(d @ [c] := None)"]) auto
    with that assms calculation show ?thesis
      by (auto simp: puts_def fs_ok_def set_node_def fs_frame_def own_path_def disk_put_def may_hold_set_node disk_sound_renamed)
  qed
  ultimately show ?thesis
    using assms by (auto simp: do_rename_def walk_entry_dir split: if_splits)
qed

lemma create_new_place:
  assumes "sys_create_new (absolute (d @ [c])) s = (Ok h, t)" "fs_ok s"
    and "walk s (absolute d) = Ok d \<or> (\<exists>e. walk s (absolute d) = Err e)"
  shows "h = d @ [c] \<and> fs_tree t d = Some Dir \<and> fs_tree t h = Some (File [])"
  using assms unfolding sys_create_new_def
  by (elim syscall_unharmed)
    (auto simp: walk_entry_absolute set_node_def split: option.splits sum.splits fs_node.splits)

lemma write_all_content:
  assumes "write_all h bs s = (Ok u, t)" "fs_tree s h = Some (File [])"
  shows "fs_tree t h = Some (File bs)"
  using assms
  by (auto simp: write_all_def syscall_def append_file_def set_node_def
      split: list.splits option.splits fault.splits)

text \<open>A synced file is not torn by a rename.\<close>

lemma sync_all_clean:
  assumes "sync_all h s = (Ok u, t)" "fs_tree s h = Some (File x)"
  shows "\<not> dk_dirty (fs_disk t) h"
  using assms unfolding sync_all_def by (elim syscall_unharmed) (auto simp: sync_node_def)

lemma sys_rename_puts:
  assumes "sys_rename (absolute (d @ [c])) (absolute (d @ [n])) False s = (r, t)"
    and "fs_ok s" "fs_tree s d = Some Dir" "fs_tree s (d @ [c]) = Some (File enc)"
    and "own_name c" "\<not> own_name n" "\<not> dk_dirty (fs_disk s) (d @ [c])"
  shows "(\<exists>e. r = Err e) \<and> calm s t \<or> puts (d @ [n]) enc s t"
proof -
  have run: "(\<exists>e. q = Err e) \<and> calm s v \<or> puts (d @ [n]) enc s v"
    if "do_rename (absolute (d @ [c])) (absolute (d @ [n])) False (s\<lparr>fs_faults := fs\<rparr>) = (q, v)" for fs q v
    using do_rename_puts [OF that] assms(2-7) calm_puts [OF calm_faults] by auto
  show ?thesis
  proof (cases "fs_faults s")
    case Nil
    have "s\<lparr>fs_faults := fs_faults s\<rparr> = s" by simp
    with Nil have "do_rename (absolute (d @ [c])) (absolute (d @ [n])) False (s\<lparr>fs_faults := fs_faults s\<rparr>) = (r, t)"
      using assms(1) by (simp only: sys_rename_def syscall_def list.case)
    then show ?thesis by (rule run)
  next
    case (Cons f fs)
    obtain q v where q: "do_rename (absolute (d @ [c])) (absolute (d @ [n])) False (s\<lparr>fs_faults := fs\<rparr>) = (q, v)"
      by fastforce
    show ?thesis
      using assms(1) run [OF q] Cons q by (cases f; cases "the f") (auto simp: sys_rename_def syscall_def split: if_splits)
  qed
qed

text \<open>
  The steps of \<open>publish\<close> from the write on: a failure before the rename is calm, after it the new
  file is there, and on success the entry is settled.
\<close>

definition published :: "string list \<Rightarrow> string \<Rightarrow> bytes \<Rightarrow> fs_state \<Rightarrow> 'e + 'a \<Rightarrow> fs_state \<Rightarrow> bool" where
  "published d n enc s r t \<longleftrightarrow> (\<exists>e. r = Err e) \<and> calm s t \<or>
     puts (d @ [n]) enc s t \<and> ((\<exists>e. r = Err e) \<or> settled t (d @ [n]))"

lemma calm_published: "calm s t \<Longrightarrow> published d n enc t r u \<Longrightarrow> published d n enc s r u"
  using calm_trans calm_puts unfolding published_def by blast

lemma sys_rename_clean:
  assumes "sys_rename (absolute (d @ [c])) (absolute (d @ [n])) False s = (Ok u, t)"
    and "fs_ok s" "fs_tree s d = Some Dir" "c \<noteq> n" "\<not> dk_dirty (fs_disk s) (d @ [c])"
  shows "\<not> dk_dirty (fs_disk t) (d @ [n])"
  using assms do_rename_clean [of d c n s u t] do_rename_clean [of d c n "s\<lparr>fs_faults := _\<rparr>" u t]
  by (auto simp: sys_rename_def syscall_def split: list.splits option.splits fault.splits)

lemma open_sync_dir:
  assumes "and_then (sys_open (absolute d)) sync_all s = (r, t)" "fs_ok s" "fs_tree s d = Some Dir"
  shows "\<exists>fs. t = s\<lparr>fs_faults := fs\<rparr> \<and> (\<exists>e. r = Err e) \<or> t = sync_node d (s\<lparr>fs_faults := fs\<rparr>)"
proof -
  have same: "\<exists>fs. s = s\<lparr>fs_faults := fs\<rparr>" by (rule exI [of _ "fs_faults s"]) simp
  have opened: "\<exists>fs. u = s\<lparr>fs_faults := fs\<rparr> \<and> (\<forall>h. q = Ok h \<longrightarrow> h = d)"
    if "sys_open (absolute d) s = (q, u)" for q u
    using that assms(2,3) unfolding sys_open_def
    by (elim syscall_unharmed) (auto simp: walk_absolute_dir)
  have synced: "\<exists>fs. t = u\<lparr>fs_faults := fs\<rparr> \<and> (\<exists>e. r = Err e) \<or> t = sync_node d (u\<lparr>fs_faults := fs\<rparr>)"
    if "sync_all d u = (r, t)" for u
    using that unfolding sync_all_def by (elim syscall_unharmed) auto
  from assms(1) show ?thesis
  proof (cases rule: and_then_cases)
    case (Err e)
    then show ?thesis using opened by blast
  next
    case (Ok h u)
    then obtain fs where "u = s\<lparr>fs_faults := fs\<rparr>" "h = d" using opened by blast
    with synced [of u] Ok(2) show ?thesis by auto
  qed
qed

lemma publish_rename_on:
  assumes "and_then (sys_rename (absolute (d @ [c])) (absolute (d @ [n])) False) (\<lambda>_.
      and_then (sys_open (absolute d)) sync_all) s = (r, t)"
    and "fs_ok s" "fs_tree s d = Some Dir" "fs_tree s (d @ [c]) = Some (File enc)"
    and "own_name c" "\<not> own_name n" "\<not> dk_dirty (fs_disk s) (d @ [c])"
  shows "published d n enc s r t"
  using assms(1)
proof (cases rule: and_then_cases)
  case (Err e)
  then show ?thesis using sys_rename_puts [OF Err(1) assms(2-)] by (auto simp: published_def)
next
  case (Ok x u)
  have u: "puts (d @ [n]) enc s u" using sys_rename_puts [OF Ok(1) assms(2-)] by auto
  then have dir: "fs_ok u" "fs_tree u d = Some Dir" using assms(2,3) by (auto simp: puts_def)
  have clean: "\<not> dk_dirty (fs_disk u) (d @ [n])"
    using sys_rename_clean [OF Ok(1) assms(2,3) _ assms(7)] assms(5,6) by auto
  have "puts (d @ [n]) enc s (u\<lparr>fs_faults := fs\<rparr>)" for fs
    using puts_calm [OF u calm_faults] assms(6) by (simp add: own_path_def)
  moreover from this have "puts (d @ [n]) enc s (sync_node d (u\<lparr>fs_faults := fs\<rparr>))" for fs
    using puts_dir_sync [OF _ refl, of d n enc s "u\<lparr>fs_faults := fs\<rparr>"] dir(2) by simp
  moreover have "settled (sync_node d (u\<lparr>fs_faults := fs\<rparr>)) (d @ [n])" for fs
    using settled_dir_sync [of "u\<lparr>fs_faults := fs\<rparr>" d n] dir(2) clean by simp
  ultimately show ?thesis using open_sync_dir [OF Ok(2) dir] by (auto simp: published_def)
qed

lemma publish_write_on:
  assumes "and_then (write_all (d @ [c]) enc) (\<lambda>_. and_then (sync_all (d @ [c])) (\<lambda>_.
      and_then (sys_rename (absolute (d @ [c])) (absolute (d @ [n])) False) (\<lambda>_.
      and_then (sys_open (absolute d)) sync_all))) s = (r, t)"
    and ok: "fs_ok s" and tree: "fs_tree s d = Some Dir" "fs_tree s (d @ [c]) = Some (File [])"
    and own: "own_name c" "\<not> own_name n"
  shows "published d n enc s r t"
  using assms(1)
proof (cases rule: and_then_cases)
  case (Err e)
  then show ?thesis using calm_write_all own(1) by (auto simp: own_path_def published_def)
next
  case (Ok x u)
  have u: "calm s u" using calm_write_all [OF Ok(1)] own(1) by (simp add: own_path_def)
  have content: "fs_tree u (d @ [c]) = Some (File enc)" "fs_tree u d = Some Dir"
    using write_all_content [OF Ok(1) tree(2)] calmD(4) [OF u ok tree(1)] by simp_all
  from Ok(2) show ?thesis
  proof (cases rule: and_then_cases)
    case (Err e)
    then show ?thesis
      using calm_sync_all [OF Err(1) _ content(1)] calm_trans [OF u] own(1) by (auto simp: own_path_def published_def)
  next
    case inner: (Ok y v)
    have v: "fs_tree v = fs_tree u" "calm s v"
      using calm_sync_all [OF inner(1) _ content(1)] calm_trans [OF u] own(1) by (auto simp: own_path_def)
    have "published d n enc v r t"
      using publish_rename_on [OF inner(2) calmD(1) [OF v(2) ok]] content own v(1)
        sync_all_clean [OF inner(1) content(1)] by simp
    then show ?thesis by (rule calm_published [OF v(2)])
  qed
qed

lemma publish_file_cases:
  assumes "publish_file d (d @ [c]) \<lparr>fp_names = d @ [n], fp_slash = False\<rparr> enc s = (r, t)"
    and ok: "fs_ok s" and walk: "walk s (absolute d) = Ok d \<or> (\<exists>e. walk s (absolute d) = Err e)"
    and own: "own_name c" "\<not> own_name n"
  shows "published d n enc s r t"
proof -
  obtain r' where run: "and_then (sys_create_new (absolute (d @ [c]))) (\<lambda>file.
       and_then (write_all file enc) (\<lambda>_.
       and_then (sync_all file) (\<lambda>_.
       and_then (sys_rename (absolute (d @ [c])) (absolute (d @ [n])) False) (\<lambda>_.
       and_then (sys_open (absolute d)) sync_all)))) s = (r', t)"
    and r: "(\<exists>e. r' = Err e) \<longleftrightarrow> (\<exists>e. r = Err e)"
    using assms(1) by (auto simp: publish_file_def map_err_def split: prod.splits sum.splits)
  from run have "published d n enc s r' t"
  proof (cases rule: and_then_cases)
    case (Err e)
    then show ?thesis using calm_create_new by (auto simp: published_def)
  next
    case (Ok h u)
    note place = create_new_place [OF Ok(1) ok walk]
    have u: "calm s u" "fs_ok u" using calm_create_new [OF Ok(1)] calmD(1) ok by blast+
    have "published d n enc u r' t"
      using publish_write_on [of d c enc n u r' t] Ok(2) u(2) place own by auto
    then show ?thesis by (rule calm_published [OF u(1)])
  qed
  with r show ?thesis by (simp add: published_def)
qed

end
