(* ===== verification/Filesystem_Laws.thy ===== *)
theory Filesystem_Laws
  imports Filesystem_Contract
begin

text \<open>
  The outcomes of \<open>get\<close>, \<open>create\<close> and \<open>replace\<close> of the filesystem store, and its interpretation
  as \<open>object_store_laws\<close> and \<open>versioned_store\<close>: every result about the data structures that is
  proved over those interfaces holds over files.
\<close>

section \<open>Outcomes\<close>

definition fs_quiet :: "uuid_ops \<Rightarrow> string list \<Rightarrow> fs_state \<Rightarrow> fs_state \<Rightarrow> bool" where
  "fs_quiet Q root s t \<longleftrightarrow> fs_inv Q root t \<and> fs_view Q root t = fs_view Q root s \<and>
     fs_locks t = fs_locks s \<and> fs_uuids t = fs_uuids s \<and> fs_drawn s \<le> fs_drawn t \<and> disk_kept s t"

definition fs_next_version :: "uuid_ops \<Rightarrow> fs_state \<Rightarrow> Version" where
  "fs_next_version Q s = Version (uu_to_string Q (fs_uuids s (fs_drawn s)))"

definition fs_next_file :: "uuid_ops \<Rightarrow> fs_state \<Rightarrow> bytes \<Rightarrow> bytes" where
  "fs_next_file Q s bs = snd (fs_encode Q (fs_uuids s (fs_drawn s)) bs)"

definition fs_writes :: "uuid_ops \<Rightarrow> string list \<Rightarrow> Location \<Rightarrow> bytes \<Rightarrow> fs_state \<Rightarrow> fs_state \<Rightarrow> bool" where
  "fs_writes Q root l bs s t \<longleftrightarrow> fs_inv Q root t \<and>
     fs_view Q root t = (fs_view Q root s)(l \<mapsto> \<lparr>obj_bytes = bs, obj_version = fs_next_version Q s\<rparr>) \<and>
     fs_locks t = fs_locks s \<and> fs_uuids t = fs_uuids s \<and> fs_drawn s < fs_drawn t \<and>
     disk_put (root @ fs_names l) (fs_next_file Q s bs) s t"

lemma disk_frames [simp]:
  "disk_kept (s\<lparr>fs_drawn := k\<rparr>) t = disk_kept s t" "disk_put p enc (s\<lparr>fs_drawn := k\<rparr>) t = disk_put p enc s t"
  "disk_kept (s\<lparr>fs_locks := ls\<rparr>) t = disk_kept s t" "disk_kept s (t\<lparr>fs_locks := ls\<rparr>) = disk_kept s t"
  "disk_put p enc (s\<lparr>fs_locks := ls\<rparr>) t = disk_put p enc s t"
  "disk_put p enc s (t\<lparr>fs_locks := ls\<rparr>) = disk_put p enc s t"
  "settled (s\<lparr>fs_locks := ls\<rparr>) p = settled s p" "fs_next_file Q (s\<lparr>fs_locks := ls\<rparr>) bs = fs_next_file Q s bs"
  by (simp_all add: disk_kept_def disk_put_def disk_sound_def settled_def fs_next_file_def)

lemma calm_quiet: "calm s t \<Longrightarrow> fs_inv Q root s \<Longrightarrow> fs_quiet Q root s t"
  using calm_inv [of s t Q root] calmD(3) [of s t]
  by (auto simp: fs_quiet_def fs_inv_def fs_frame_def calm_def)

text \<open>Before a write, only calm steps happen: the next version is still the one to be drawn.\<close>

lemma calm_next_version:
  assumes "calm s t" "fs_inv Q root s"
  shows "fs_next_version Q t = fs_next_version Q s" "fs_next_file Q t bs = fs_next_file Q s bs"
  using calmD(3) [of s t] assms by (simp_all add: fs_inv_def fs_frame_def fs_next_version_def fs_next_file_def)

lemma calm_writes:
  "calm s t \<Longrightarrow> fs_inv Q root s \<Longrightarrow> fs_writes Q root l bs t u \<Longrightarrow> fs_writes Q root l bs s u"
  using calm_quiet [of s t Q root] calm_next_version [of s t Q root] calmD(2,3) [of s t]
    disk_kept_put [of s t "root @ fs_names l" "fs_next_file Q s bs" u]
  by (auto simp: fs_writes_def fs_quiet_def fs_inv_def fs_frame_def)

lemma calm_quiet_trans: "calm s t \<Longrightarrow> fs_inv Q root s \<Longrightarrow> fs_quiet Q root t u \<Longrightarrow> fs_quiet Q root s u"
  using calm_quiet [of s t Q root] calmD(2) [of s t] disk_kept_trans [of s t u]
  by (auto simp: fs_quiet_def fs_inv_def)

section \<open>Publishing an object\<close>

lemma own_temporary: "own_name (temporary_name Q u)"
  by (simp add: own_name_def temporary_name_def)

lemma publish_location:
  assumes "publish Q (location_path root l) enc s = (r, t)" "fs_inv Q root s" "fs_location l"
    and "nosym (fs_tree s) root (fs_names l)"
  shows "published (root @ butlast (fs_names l)) (last (fs_names l)) enc (s\<lparr>fs_drawn := Suc (fs_drawn s)\<rparr>) r t"
proof -
  define s1 where "s1 = s\<lparr>fs_drawn := Suc (fs_drawn s)\<rparr>"
  define d where "d = root @ butlast (fs_names l)"
  define c where "c = temporary_name Q (fs_uuids s (fs_drawn s))"
  define n where "n = last (fs_names l)"
  have dn: "d @ [n] = root @ fs_names l" by (simp add: d_def n_def)
  have own: "own_name c" "\<not> own_name n"
    using assms(3) by (auto simp: c_def own_temporary n_def fs_location_def)
  have ok: "fs_ok s1" "fs_tree s1 root = Some Dir" using assms(2) by (auto simp: s1_def fs_inv_def fs_ok_def)
  have "fs_names l = butlast (fs_names l) @ [n]" by (simp add: n_def)
  then have "nosym (fs_tree s1) root (butlast (fs_names l))"
    using assms(4) nosym_append [of "fs_tree s" root "butlast (fs_names l)" "[n]"] by (simp add: s1_def)
  then have walk: "walk s1 (absolute d) = Ok d \<or> (\<exists>e. walk s1 (absolute d) = Err e)"
    using walk_nosym [OF ok] by (auto simp: d_def)
  obtain r1 s2 where p: "publish_file d (d @ [c]) \<lparr>fp_names = d @ [n], fp_slash = False\<rparr> enc s1 = (r1, s2)"
    by fastforce
  note cases = publish_file_cases [OF p ok(1) walk own]
  obtain r3 s3 where rm: "remove_file (absolute (d @ [c])) s2 = (r3, s3)" by fastforce
  have c3: "calm s2 s3" using calm_remove_file [OF rm own(1)] .
  have own_n: "\<not> own_path (d @ [n])" using own(2) by (simp add: own_path_def)
  have "(r, t) = (case r1 of Ok x \<Rightarrow> (Ok x, s2) | Err e \<Rightarrow> (Err e, s3))"
    using assms(1) p [unfolded dn] rm unfolding publish_def fp_parent_location d_def [symmetric]
    by (auto simp: and_then_def now_v7_def Let_def simp flip: s1_def c_def split: sum.splits)
  then have "published d n enc s1 r t"
    using cases calm_trans [OF _ c3] puts_calm [OF _ c3 own_n] by (cases r1) (auto simp: published_def)
  then show ?thesis unfolding d_def n_def s1_def .
qed

lemma puts_view:
  assumes "puts (root @ fs_names l) (snd (fs_encode Q u bs)) s t" "fs_inv Q root s" "fs_location l"
  shows "fs_inv Q root t \<and> fs_frame s t \<and>
    fs_view Q root t = (fs_view Q root s)(l \<mapsto> \<lparr>obj_bytes = bs, obj_version = fst (fs_encode Q u bs)\<rparr>)"
proof -
  let ?enc = "snd (fs_encode Q u bs)"
  have ok: "fs_ok s" "uuid_ops_ok Q" using assms(2) by (auto simp: fs_inv_def)
  have "fs_view Q root t l' =
      ((fs_view Q root s)(l \<mapsto> \<lparr>obj_bytes = bs, obj_version = fst (fs_encode Q u bs)\<rparr>)) l'" for l'
  proof (cases "l' = l")
    case True
    then show ?thesis
      using assms ok fs_decode_encode [OF ok(2), of u bs] by (simp add: puts_def fs_view_def fs_object_def)
  next
    case False
    then have "root @ fs_names l' \<noteq> root @ fs_names l" by (simp add: fs_names_inj)
    with False ok(1) assms(1) location_not_own [of l' root] show ?thesis
      unfolding puts_def fs_view_def by (auto dest!: spec [of _ "root @ fs_names l'"])
  qed
  moreover have "fs_inv Q root t" "fs_frame s t" using assms(1,2) ok by (auto simp: puts_def fs_inv_def)
  ultimately show ?thesis by auto
qed

lemma fs_drawn_inv [simp]:
  "fs_inv Q root (s\<lparr>fs_drawn := k\<rparr>) = fs_inv Q root s" "fs_view Q root (s\<lparr>fs_drawn := k\<rparr>) = fs_view Q root s"
  "nosym (fs_tree (s\<lparr>fs_drawn := k\<rparr>)) = nosym (fs_tree s)"
  by (auto simp: fs_inv_def fs_ok_def fs_view_def fun_eq_iff)

lemma encode_and_publish_location:
  assumes "encode_and_publish Q (location_path root l) bs s = (r, t)" "fs_inv Q root s" "fs_location l"
    and "nosym (fs_tree s) root (fs_names l)"
  shows "(\<exists>e. r = Err e) \<and> fs_quiet Q root s t \<or>
    fs_writes Q root l bs s t \<and>
      (\<forall>v. r = Ok v \<longrightarrow> v = fs_next_version Q s \<and> settled t (root @ fs_names l))"
proof -
  define u where "u = fs_uuids s (fs_drawn s)"
  define s1 where "s1 = s\<lparr>fs_drawn := Suc (fs_drawn s)\<rparr>"
  define s2 where "s2 = s1\<lparr>fs_drawn := Suc (fs_drawn s1)\<rparr>"
  have inv: "fs_inv Q root s1" "fs_inv Q root s2" "nosym (fs_tree s1) root (fs_names l)"
    using assms(2,4) by (simp_all add: s1_def s2_def)
  obtain r1 where p: "publish Q (location_path root l) (snd (fs_encode Q u bs)) s1 = (r1, t)"
    and r: "r = (case r1 of Ok _ \<Rightarrow> Ok (fst (fs_encode Q u bs)) | Err e \<Rightarrow> Err e)"
    using assms(1)
    by (auto simp: encode_and_publish_def now_v7_def u_def s1_def and_then_def split: prod.splits sum.splits)
  have v: "fst (fs_encode Q u bs) = fs_next_version Q s" by (simp add: fs_encode_def fs_next_version_def u_def)
  have enc: "snd (fs_encode Q u bs) = fs_next_file Q s bs" by (simp add: fs_next_file_def u_def)
  have s2: "fs_view Q root s2 = fs_view Q root s" "fs_locks s2 = fs_locks s" "fs_uuids s2 = fs_uuids s"
    "fs_drawn s2 = Suc (Suc (fs_drawn s))"
    "disk_kept s2 t = disk_kept s t" "disk_put pth enc s2 t = disk_put pth enc s t" for pth enc
    by (simp_all add: s1_def s2_def)
  have "published (root @ butlast (fs_names l)) (last (fs_names l)) (snd (fs_encode Q u bs)) s2 r1 t"
    using publish_location [OF p inv(1) assms(3) inv(3)] unfolding s2_def .
  then have "(\<exists>e. r1 = Err e) \<and> calm s2 t \<or>
      puts (root @ fs_names l) (snd (fs_encode Q u bs)) s2 t \<and>
        ((\<exists>e. r1 = Err e) \<or> settled t (root @ fs_names l))"
    by (simp add: published_def)
  then show ?thesis
  proof
    assume "(\<exists>e. r1 = Err e) \<and> calm s2 t"
    then show ?thesis using calm_quiet [OF _ inv(2), of t] s2 r by (auto simp: fs_quiet_def)
  next
    assume puts: "puts (root @ fs_names l) (snd (fs_encode Q u bs)) s2 t \<and>
        ((\<exists>e. r1 = Err e) \<or> settled t (root @ fs_names l))"
    then have "fs_writes Q root l bs s t"
      using puts_view [OF _ inv(2) assms(3), of u bs t] inv(2) s2 v enc
      by (auto simp: fs_writes_def fs_frame_def puts_def fs_inv_def)
    with puts r v show ?thesis by (auto split: sum.splits)
  qed
qed

section \<open>The operations\<close>

text \<open>What happens under the lock, seen from outside it.\<close>

lemma fs_locks_inv [simp]:
  "fs_inv Q root (s\<lparr>fs_locks := k\<rparr>) = fs_inv Q root s" "fs_view Q root (s\<lparr>fs_locks := k\<rparr>) = fs_view Q root s"
  "fs_next_version Q (s\<lparr>fs_locks := k\<rparr>) = fs_next_version Q s"
  by (auto simp: fs_inv_def fs_ok_def fs_view_def fs_next_version_def fun_eq_iff)

lemma quiet_unlock:
  "fs_quiet Q root (u\<lparr>fs_locks := lk # fs_locks u\<rparr>) v \<Longrightarrow>
     fs_quiet Q root u (v\<lparr>fs_locks := remove1 lk (fs_locks v)\<rparr>)"
  by (auto simp: fs_quiet_def)

lemma writes_unlock:
  "fs_writes Q root l bs (u\<lparr>fs_locks := lk # fs_locks u\<rparr>) v \<Longrightarrow>
     fs_writes Q root l bs u (v\<lparr>fs_locks := remove1 lk (fs_locks v)\<rparr>)"
  by (auto simp: fs_writes_def)

lemma filesystem_get_cases:
  assumes "filesystem_get Q root l s = (r, t)" "fs_inv Q root s" "fs_location l"
  shows "fs_quiet Q root s t \<and> (\<forall>y. r = Ok y \<longrightarrow> y = fs_view Q root s l)"
  using assms(1) unfolding filesystem_get_def
proof (cases rule: and_then_cases)
  case (Err e)
  then show ?thesis using object_path_location(1) [OF Err(1) assms(3)] calm_quiet assms(2) by simp
next
  case (Ok path u)
  have ok: "fs_ok s" using assms(2) by (simp add: fs_inv_def)
  note path = object_path_location [OF Ok(1) assms(3)]
  from with_lock_cases [OF Ok(2)] show ?thesis
  proof (elim disjE exE conjE)
    fix e assume "r = Err (id e)" "calm u t"
    then show ?thesis using calm_trans [OF path(1)] calm_quiet assms(2) by simp
  next
    fix u' lk v
    assume u': "calm u u'" and body: "read_path Q path (u'\<lparr>fs_locks := lk # fs_locks u'\<rparr>) = (r, v)"
      and t: "t = v\<lparr>fs_locks := remove1 lk (fs_locks v)\<rparr>"
    have c: "calm s u'" using calm_trans path(1) u' by blast
    note inv = calm_inv [OF c assms(2)]
    have "nosym (fs_tree u') root (fs_names l)"
      using path(3) [OF refl ok] nosym_hidden calmD(1,2) path(1) u' ok by metis
    then have "calm (u'\<lparr>fs_locks := lk # fs_locks u'\<rparr>) v \<and> (\<forall>y. r = Ok y \<longrightarrow> y = fs_view Q root u' l)"
      using read_path_location [OF body [unfolded path(2) [OF refl]] _ assms(3)] inv by simp
    then show ?thesis
      using calm_unlock calm_trans [OF c] calm_quiet [OF _ assms(2)] inv t by metis
  qed
qed

text \<open>
  The two writes share their frame: the path is prepared, the lock taken, the object read, and
  \<open>decide\<close> makes of what was read an answer or a write. First what happens under the lock.
\<close>

definition write_outcome ::
  "('e \<Rightarrow> 'f) \<Rightarrow> (Object option \<Rightarrow> bool) \<Rightarrow> (Object option \<Rightarrow> 'f) \<Rightarrow> uuid_ops \<Rightarrow> string list \<Rightarrow> Location \<Rightarrow>
     bytes \<Rightarrow> fs_state \<Rightarrow> 'f + Version \<Rightarrow> fs_state \<Rightarrow> bool" where
  "write_outcome W decide answer Q root l bs s r t \<longleftrightarrow>
     (\<exists>e. r = Err (W e)) \<and> fs_quiet Q root s t \<or>
     \<not> decide (fs_view Q root s l) \<and> r = Err (answer (fs_view Q root s l)) \<and> fs_quiet Q root s t \<or>
     decide (fs_view Q root s l) \<and> fs_writes Q root l bs s t \<and>
       (r = Ok (fs_next_version Q s) \<and> settled t (root @ fs_names l) \<or> (\<exists>e. r = Err (W e)))"

lemma calm_write_outcome:
  assumes "calm s t" "fs_inv Q root s" "write_outcome W decide answer Q root l bs t r u"
  shows "write_outcome W decide answer Q root l bs s r u"
  using assms(3) calm_quiet [OF assms(1,2)] calm_next_version [OF assms(1,2)]
    calm_quiet_trans [OF assms(1,2)] calm_writes [OF assms(1,2)]
  by (auto simp: write_outcome_def fs_quiet_def)

lemma unlock_write_outcome:
  assumes "write_outcome W decide answer Q root l bs (u\<lparr>fs_locks := lk # fs_locks u\<rparr>) r v"
  shows "write_outcome W decide answer Q root l bs u r (v\<lparr>fs_locks := remove1 lk (fs_locks v)\<rparr>)"
  using assms unfolding write_outcome_def by (auto dest: quiet_unlock writes_unlock)

lemma calm_store_error:
  "calm s t \<Longrightarrow> fs_inv Q root s \<Longrightarrow> write_outcome W decide answer Q root l bs s (Err (W e)) t"
  by (auto simp: write_outcome_def dest: calm_quiet)

lemma write_body_cases:
  assumes body: "and_then (map_err W (read_path Q (location_path root l))) (\<lambda>found.
      if decide found then map_err W (encode_and_publish Q (location_path root l) bs)
      else err (answer found)) s = (r, t)"
    and inv: "fs_inv Q root s" and loc: "fs_location l" and nosym: "nosym (fs_tree s) root (fs_names l)"
  shows "write_outcome W decide answer Q root l bs s r t"
  using body
proof (cases rule: and_then_cases)
  case (Err e)
  then have "calm s t" using read_path_location [OF _ inv loc nosym] by (auto simp: map_err_eq_Err)
  with Err inv show ?thesis by (auto simp: map_err_eq_Err intro: calm_store_error)
next
  case (Ok found u)
  then have read: "fs_tree u = fs_tree s" "calm s u" "found = fs_view Q root s l"
    using read_path_location [OF _ inv loc nosym] by (auto simp: map_err_eq_Ok)
  have u: "fs_inv Q root u" "fs_view Q root u = fs_view Q root s" "nosym (fs_tree u) root (fs_names l)"
    using calm_inv [OF read(2) inv] nosym read(1) by auto
  show ?thesis
  proof (cases "decide found")
    case False
    with Ok(2) read show ?thesis using calm_quiet [OF read(2) inv] by (simp add: write_outcome_def)
  next
    case True
    with Ok(2) obtain r' where pub: "encode_and_publish Q (location_path root l) bs u = (r', t)"
      and r: "r = (case r' of Ok y \<Rightarrow> Ok y | Err e \<Rightarrow> Err (W e))"
      by (auto simp: map_err_def split: prod.splits sum.splits)
    have "write_outcome W decide answer Q root l bs u r t"
      using encode_and_publish_location [OF pub u(1) loc u(3)] True read(3) r u(2)
      by (cases r') (auto simp: write_outcome_def)
    then show ?thesis by (rule calm_write_outcome [OF read(2) inv])
  qed
qed

lemma locked_write_cases:
  assumes run: "and_then (map_err W (prepare_path root l)) (\<lambda>path.
      with_lock W (ObjectLock_acquire (lock_path root l) mode)
        (and_then (map_err W (read_path Q path)) (\<lambda>found.
          if decide found then map_err W (encode_and_publish Q path bs) else err (answer found)))) s = (r, t)"
    and inv: "fs_inv Q root s" and loc: "fs_location l"
  shows "write_outcome W decide answer Q root l bs s r t"
  using run
proof (cases rule: and_then_cases)
  case (Err e)
  then show ?thesis
    using prepare_path_location [OF _ loc] inv by (auto simp: map_err_eq_Err intro: calm_store_error)
next
  case (Ok path u)
  have ok: "fs_ok s" using inv by (simp add: fs_inv_def)
  have path: "calm s u" "path = location_path root l" "nosym (fs_tree u) root (fs_names l)"
    using prepare_path_location [OF _ loc, of root s "Inr path" u] Ok(1) ok by (auto simp: map_err_eq_Ok)
  have "write_outcome W decide answer Q root l bs u r t"
    using with_lock_cases [OF Ok(2)]
  proof (elim disjE exE conjE)
    fix e assume "r = Err (W e)" "calm u t"
    then show ?thesis using calm_inv [OF path(1) inv] by (auto intro: calm_store_error)
  next
    fix u' lk v
    assume u': "calm u u'" and t: "t = v\<lparr>fs_locks := remove1 lk (fs_locks v)\<rparr>"
      and body: "and_then (map_err W (read_path Q path)) (\<lambda>found.
          if decide found then map_err W (encode_and_publish Q path bs) else err (answer found))
          (u'\<lparr>fs_locks := lk # fs_locks u'\<rparr>) = (r, v)"
    note inv_u = conjunct1 [OF calm_inv [OF path(1) inv]]
    have "nosym (fs_tree u') root (fs_names l)"
      using nosym_hidden [OF calmD(2) [OF u' calmD(1) [OF path(1) ok]] path(3)] .
    then have "write_outcome W decide answer Q root l bs (u'\<lparr>fs_locks := lk # fs_locks u'\<rparr>) r v"
      using write_body_cases [OF body [unfolded path(2)] _ loc] calm_inv [OF u' inv_u] by simp
    then show ?thesis
      unfolding t by (rule calm_write_outcome [OF u' inv_u unlock_write_outcome])
  qed
  then show ?thesis by (rule calm_write_outcome [OF path(1) inv])
qed

lemma filesystem_create_cases:
  assumes "filesystem_create Q root l bs s = (r, t)" "fs_inv Q root s" "fs_location l"
  shows "write_outcome Create_Store (\<lambda>x. x = None) (\<lambda>x. Create_AlreadyExists (obj_version (the x)))
    Q root l bs s r t"
proof (rule locked_write_cases [OF _ assms(2,3)])
  have "(\<lambda>found :: Object option. case found of None \<Rightarrow> map_err Create_Store (encode_and_publish Q path bs)
        | Some obj \<Rightarrow> err (Create_AlreadyExists (obj_version obj))) =
      (\<lambda>found. if found = None then map_err Create_Store (encode_and_publish Q path bs)
        else err (Create_AlreadyExists (obj_version (the found))))" for path
    by (rule ext) (simp split: option.split)
  with assms(1) show "and_then (map_err Create_Store (prepare_path root l)) (\<lambda>path.
      with_lock Create_Store (ObjectLock_acquire (lock_path root l) Exclusive)
        (and_then (map_err Create_Store (read_path Q path)) (\<lambda>found.
          if found = None then map_err Create_Store (encode_and_publish Q path bs)
          else err (Create_AlreadyExists (obj_version (the found)))))) s = (r, t)"
    by (simp add: filesystem_create_def)
qed

lemma filesystem_replace_cases:
  assumes "filesystem_replace Q root l expected bs s = (r, t)" "fs_inv Q root s" "fs_location l"
  shows "write_outcome Replace_Store (\<lambda>x. map_option obj_version x = Some expected)
    (\<lambda>x. Replace_Conflict (map_option obj_version x)) Q root l bs s r t"
proof (rule locked_write_cases [OF _ assms(2,3)])
  have "(\<lambda>found :: Object option. if map_option obj_version found \<noteq> Some expected
        then err (Replace_Conflict (map_option obj_version found))
        else map_err Replace_Store (encode_and_publish Q path bs)) =
      (\<lambda>found. if map_option obj_version found = Some expected
        then map_err Replace_Store (encode_and_publish Q path bs)
        else err (Replace_Conflict (map_option obj_version found)))" for path
    by (rule ext) auto
  with assms(1) show "and_then (map_err Replace_Store (prepare_path root l)) (\<lambda>path.
      with_lock Replace_Store (ObjectLock_acquire (lock_path root l) Exclusive)
        (and_then (map_err Replace_Store (read_path Q path)) (\<lambda>found.
          if map_option obj_version found = Some expected
          then map_err Replace_Store (encode_and_publish Q path bs)
          else err (Replace_Conflict (map_option obj_version found))))) s = (r, t)"
    by (simp add: filesystem_replace_def)
qed

section \<open>Interpretations\<close>

lemma filesystem_store_sel [simp]:
  "os_get (filesystem_store Q st) = filesystem_get Q (fss_root st)"
  "os_create (filesystem_store Q st) = filesystem_create Q (fss_root st)"
  "os_replace (filesystem_store Q st) = filesystem_replace Q (fss_root st)"
  by (simp_all add: filesystem_store_def)

interpretation fsl: object_store_laws "filesystem_store Q st" "fs_view Q (fss_root st)"
    "fs_inv Q (fss_root st)" fs_location for Q st
proof (unfold_locales, goal_cases)
  case (1 s l r t)
  then show ?case using filesystem_get_cases [of Q "fss_root st" l s r t] by (simp add: fs_quiet_def)
next
  case (2 s l b rc t)
  then show ?case
    using filesystem_create_cases [of Q "fss_root st" l b s rc t]
    by (auto simp: write_outcome_def fs_quiet_def fs_writes_def)
next
  case (3 s l b v t)
  then show ?case
    using filesystem_create_cases [of Q "fss_root st" l b s "Inr v" t]
    by (auto simp: write_outcome_def fs_quiet_def fs_writes_def)
next
  case (4 s l b v t)
  then show ?case
    using filesystem_create_cases [of Q "fss_root st" l b s "Inl (Create_AlreadyExists v)" t]
    by (auto simp: write_outcome_def fs_quiet_def fs_writes_def)
next
  case (5 s l b e t)
  then show ?case
    using filesystem_create_cases [of Q "fss_root st" l b s "Inl (Create_Store e)" t]
    by (auto simp: write_outcome_def fs_quiet_def fs_writes_def)
next
  case (6 s l x b rr t)
  then show ?case
    using filesystem_replace_cases [of Q "fss_root st" l x b s rr t]
    by (auto simp: write_outcome_def fs_quiet_def fs_writes_def)
next
  case (7 s l x b v t)
  then show ?case
    using filesystem_replace_cases [of Q "fss_root st" l x b s "Inr v" t]
    by (auto simp: write_outcome_def fs_quiet_def fs_writes_def)
next
  case (8 s l x b ob t)
  then show ?case
    using filesystem_replace_cases [of Q "fss_root st" l x b s "Inl (Replace_Conflict ob)" t]
    by (auto simp: write_outcome_def fs_quiet_def fs_writes_def)
next
  case (9 s l x b e t)
  then show ?case
    using filesystem_replace_cases [of Q "fss_root st" l x b s "Inl (Replace_Store e)" t]
    by (auto simp: write_outcome_def fs_quiet_def fs_writes_def)
qed

end
