(* ===== verification/Filesystem_Progress.thy ===== *)
theory Filesystem_Progress
  imports Filesystem_Laws "HOL-Library.Sublist"
begin

text \<open>
  Without faults the filesystem store does its work: on a tree where the directories it needs
  exist or are missing, where no symbolic link is in the way and where the lock and the
  temporary file can be made, reads, creations at an empty location and replacements at the
  current version succeed.
\<close>

section \<open>System calls without faults\<close>

lemma syscall_clear [simp]: "fs_faults s = [] \<Longrightarrow> syscall damage act s = act s"
  by (simp add: syscall_def)

definition with_dirs :: "string list \<Rightarrow> fs_tree \<Rightarrow> fs_tree" where
  "with_dirs p T = (\<lambda>q. if prefix q p then Some Dir else T q)"

text \<open>No file and no symbolic link is where the directories up to \<open>p\<close> should be.\<close>

definition free_dirs :: "fs_tree \<Rightarrow> string list \<Rightarrow> bool" where
  "free_dirs T p \<longleftrightarrow> (\<forall>q. prefix q p \<longrightarrow> T q = None \<or> T q = Some Dir)"

lemma free_dirs_snoc: "free_dirs T (p @ [c]) \<longleftrightarrow> free_dirs T p \<and> (T (p @ [c]) = None \<or> T (p @ [c]) = Some Dir)"
  by (auto simp: free_dirs_def)

lemma fs_wf_prefix: "fs_wf T \<Longrightarrow> T p = Some Dir \<Longrightarrow> prefix q p \<Longrightarrow> T q = Some Dir"
  by (metis append_Nil2 fs_wf_missing option.distinct(1) prefix_def)

lemma with_dirs_present: "fs_wf T \<Longrightarrow> T p = Some Dir \<Longrightarrow> with_dirs p T = T"
  by (auto simp: with_dirs_def fun_eq_iff fs_wf_prefix)

lemma with_dirs_snoc: "with_dirs (p @ [c]) T = (with_dirs p T)(p @ [c] := Some Dir)"
  by (auto simp: with_dirs_def fun_eq_iff)

lemma fs_wf_with_dirs:
  assumes "fs_wf T" "free_dirs T p"
  shows "fs_wf (with_dirs p T)"
proof -
  have "T q \<noteq> None \<Longrightarrow> prefix q p \<Longrightarrow> T q = Some Dir" for q
    using assms(2) by (auto simp: free_dirs_def)
  moreover have "prefix q p" if "prefix (q @ [c]) p" for q c
    using that prefix_order.trans by (auto intro: append_prefixD)
  ultimately show ?thesis
    using assms(1) unfolding fs_wf_def with_dirs_def by (auto split: if_splits) blast+
qed

lemma resolve_free:
  "fs_wf T \<Longrightarrow> T cur = Some Dir \<Longrightarrow> free_dirs T (cur @ xs) \<Longrightarrow>
     resolve n T cur (map Normal xs) = Ok (cur @ xs) \<or>
     resolve n T cur (map Normal xs) = Err IO_NotFound \<and> T (cur @ xs) = None"
proof (induction xs arbitrary: cur)
  case (Cons c xs)
  have "T (cur @ [c]) = None \<or> T (cur @ [c]) = Some Dir"
    using Cons.prems(3) by (auto simp: free_dirs_def)
  then show ?case
  proof
    assume "T (cur @ [c]) = Some Dir"
    then show ?thesis using Cons.IH [of "cur @ [c]"] Cons.prems by simp
  next
    assume "T (cur @ [c]) = None"
    then show ?thesis using Cons.prems(1) fs_wf_missing [of T "cur @ [c]" xs] by (cases "xs = []") auto
  qed
qed simp

lemma walk_free:
  assumes "fs_ok s" "free_dirs (fs_tree s) p"
  shows "walk s (absolute p) = Ok p \<or> walk s (absolute p) = Err IO_NotFound \<and> fs_tree s p = None"
  using resolve_free [of "fs_tree s" "[]" p SYMLOOP_MAX] assms
  by (auto simp: walk_def absolute_def fs_ok_def fs_wf_def)

text \<open>A directory that is there already is left alone, on the disk as well.\<close>

lemma mkdir_present:
  assumes "fs_ok s" "fs_faults s = []" "fs_tree s (d @ [c]) = Some Dir"
  shows "mkdir_or_dir (absolute (d @ [c])) other s = (Ok (), s)"
  using assms fs_wf_parent [of "fs_tree s" d c Dir]
  by (simp add: mkdir_or_dir_def sys_mkdir_def walk_entry_dir is_dir_def walk_absolute_dir fs_ok_def)

lemma create_dir_all_present:
  assumes "fs_ok s" "fs_faults s = []" "fs_tree s p = Some Dir"
  shows "create_dir_all (absolute p) s = (Ok (), s)"
proof (cases p rule: rev_cases)
  case Nil
  then show ?thesis
    using assms by (simp add: create_dir_all_def absolute_def mkdir_or_dir_def sys_mkdir_def walk_entry_def walk_def is_dir_def)
next
  case (snoc d c)
  then show ?thesis
    using assms mkdir_present by (simp add: create_dir_all_def absolute_def rev_map)
qed

lemma mkdir_below_dir:
  assumes "fs_ok s" "fs_faults s = []" "fs_tree s d = Some Dir" "free_dirs (fs_tree s) (d @ [c])"
  shows "\<exists>k. mkdir_or_dir (absolute (d @ [c])) other s =
    (Ok (), s\<lparr>fs_tree := with_dirs (d @ [c]) (fs_tree s), fs_disk := k\<rparr>)"
proof (cases "fs_tree s (d @ [c])")
  case None
  then show ?thesis
    using assms with_dirs_present [of "fs_tree s" d]
    by (auto simp: mkdir_or_dir_def sys_mkdir_def walk_entry_dir set_node_def with_dirs_snoc fs_ok_def)
next
  case (Some nd)
  then have dir: "fs_tree s (d @ [c]) = Some Dir" using assms(4) by (auto simp: free_dirs_snoc)
  then have "s\<lparr>fs_tree := with_dirs (d @ [c]) (fs_tree s), fs_disk := fs_disk s\<rparr> = s"
    using assms(1) with_dirs_present by (simp add: fs_ok_def)
  then show ?thesis using mkdir_present [OF assms(1,2) dir, of other] by metis
qed

lemma create_dir_all_ok:
  "fs_ok s \<Longrightarrow> fs_faults s = [] \<Longrightarrow> free_dirs (fs_tree s) p \<Longrightarrow>
     \<exists>k. create_dir_all (absolute p) s = (Ok (), s\<lparr>fs_tree := with_dirs p (fs_tree s), fs_disk := k\<rparr>)"
  unfolding create_dir_all_def
proof (induction p rule: rev_induct)
  case Nil
  then have "fs_tree s [] = Some Dir" "with_dirs [] (fs_tree s) = fs_tree s"
    using with_dirs_present by (auto simp: fs_ok_def fs_wf_def)
  then show ?case
    using create_dir_all_present [of s "[]"] Nil by (auto simp: create_dir_all_def intro: exI [of _ "fs_disk s"])
next
  case (snoc c d)
  have rev: "rev (absolute (d @ [c])) = Normal c # rev (absolute d)" by (simp add: absolute_def)
  have path: "rev (Normal c # rev (absolute d)) = absolute (d @ [c])" by (simp add: absolute_def)
  have free: "free_dirs (fs_tree s) d" using snoc.prems(3) by (simp add: free_dirs_snoc)
  show ?case
  proof (cases "fs_tree s d = Some Dir")
    case True
    then show ?thesis
      using mkdir_below_dir [OF snoc.prems(1,2) _ snoc.prems(3)] by (simp only: rev create_dirs.simps path)
  next
    case False
    then have none: "fs_tree s d = None" using free by (auto simp: free_dirs_def)
    obtain k where ih: "create_dirs (rev (absolute d)) s = (Ok (), s\<lparr>fs_tree := with_dirs d (fs_tree s), fs_disk := k\<rparr>)"
      using snoc.IH snoc.prems free by auto
    let ?s = "s\<lparr>fs_tree := with_dirs d (fs_tree s), fs_disk := k\<rparr>"
    have "walk_entry s (absolute (d @ [c])) = Err IO_NotFound"
      using walk_free [OF snoc.prems(1) free] none by (auto simp: walk_entry_absolute)
    then have "sys_mkdir (absolute (d @ [c])) s = (Err IO_NotFound, s)"
      using snoc.prems(2) by (simp add: sys_mkdir_def)
    with ih have run: "create_dirs (rev (absolute (d @ [c]))) s =
        mkdir_or_dir (absolute (d @ [c])) (\<lambda>e t.
         (case is_dir (absolute (d @ [c])) t of (True, t') \<Rightarrow> (Ok (), t') | (False, t') \<Rightarrow> (Err e, t'))) ?s"
      by (simp only: rev create_dirs.simps path)
        (simp add: mkdir_or_dir_def [of _ "\<lambda>e. and_then _ _"] and_then_def)
    have "fs_ok ?s"
      using snoc.prems(1) free fs_wf_with_dirs by (auto simp: fs_ok_def with_dirs_def)
    moreover have "free_dirs (fs_tree ?s) (d @ [c])"
      using snoc.prems(3) by (auto simp: free_dirs_def with_dirs_def)
    moreover have "with_dirs (d @ [c]) (with_dirs d (fs_tree s)) = with_dirs (d @ [c]) (fs_tree s)"
      by (auto simp: with_dirs_def fun_eq_iff)
    ultimately show ?thesis
      unfolding run using mkdir_below_dir [of ?s d c] snoc.prems(2) by (simp add: with_dirs_def)
  qed
qed

section \<open>The steps of an operation\<close>

definition file_or_none :: "fs_node option \<Rightarrow> bool" where
  "file_or_none x \<longleftrightarrow> x = None \<or> (\<exists>bs. x = Some (File bs))"

lemma walk_file:
  assumes "fs_ok s" "fs_tree s d = Some Dir" "file_or_none (fs_tree s (d @ [c]))"
  shows "walk s (absolute (d @ [c])) = Ok (d @ [c])"
  using assms resolve_dir [of "fs_tree s" "[]" d SYMLOOP_MAX "[Normal c]"]
  by (auto simp: walk_def absolute_def fs_ok_def file_or_none_def)

lemma reject_loop_ok:
  "fs_ok s \<Longrightarrow> fs_faults s = [] \<Longrightarrow> fs_tree s cur = Some Dir \<Longrightarrow> free_dirs (fs_tree s) (cur @ xs) \<Longrightarrow>
     file_or_none (fs_tree s (cur @ xs @ [c])) \<Longrightarrow> reject_loop cur (xs @ [c]) s = (Ok (), s)"
proof (induction xs arbitrary: cur)
  case Nil
  then show ?case
    by (auto simp: sys_symlink_metadata_def walk_entry_dir file_or_none_def)
next
  case (Cons x xs)
  have "fs_tree s (cur @ [x]) = None \<or> fs_tree s (cur @ [x]) = Some Dir"
    using Cons.prems(4) by (auto simp: free_dirs_def)
  then show ?case
    using Cons.IH [of "cur @ [x]"] Cons.prems
    by (auto simp: sys_symlink_metadata_def walk_entry_dir)
qed

lemma reject_location_ok:
  assumes "fs_ok s" "fs_faults s = []" "fs_tree s root = Some Dir"
    and "free_dirs (fs_tree s) (root @ butlast (fs_names l))" "file_or_none (fs_tree s (root @ fs_names l))"
  shows "reject_existing_symlinks root (location_path root l) s = (Ok (), s)"
proof -
  have "fs_names l = butlast (fs_names l) @ [last (fs_names l)]" by simp
  then show ?thesis
    using reject_loop_ok [OF assms(1-4), of "last (fs_names l)"] assms(5)
    by (simp add: reject_existing_symlinks_def)
qed

lemma acquire_ok:
  assumes "fs_ok s" "fs_faults s = []" "free_dirs (fs_tree s) d"
    and "file_or_none (fs_tree s (d @ [c]))"
  shows "\<exists>T k lk. ObjectLock_acquire (d @ [c]) mode s =
    (Ok lk, s\<lparr>fs_tree := T, fs_disk := k, fs_locks := (lk_file lk, lk_mode lk) # fs_locks s\<rparr>) \<and> fs_wf T \<and>
    (\<forall>q. \<not> prefix q d \<longrightarrow> q \<noteq> d @ [c] \<longrightarrow> T q = fs_tree s q) \<and>
    (\<forall>q. fs_tree s q = Some Dir \<longrightarrow> T q = Some Dir)"
proof -
  obtain k where mk: "create_dir_all (absolute d) s = (Ok (), s\<lparr>fs_tree := with_dirs d (fs_tree s), fs_disk := k\<rparr>)"
    using create_dir_all_ok [OF assms(1-3)] by blast
  let ?s = "s\<lparr>fs_tree := with_dirs d (fs_tree s), fs_disk := k\<rparr>"
  have ok: "fs_ok ?s" using assms(1,3) fs_wf_with_dirs by (auto simp: fs_ok_def with_dirs_def)
  have dir: "fs_tree ?s d = Some Dir" and lockfile: "file_or_none (fs_tree ?s (d @ [c]))"
    using assms(4) by (auto simp: with_dirs_def)
  have walk: "walk ?s (absolute (d @ [c])) = Ok (d @ [c])" using walk_file [OF ok dir lockfile] .
  define T where "T = (if fs_tree ?s (d @ [c]) = None then (fs_tree ?s)(d @ [c] := Some (File []))
    else fs_tree ?s)"
  obtain j where opened: "sys_open_or_create (absolute (d @ [c])) ?s = (Ok (d @ [c]), s\<lparr>fs_tree := T, fs_disk := j\<rparr>)"
    using assms(2) walk lockfile by (auto simp: sys_open_or_create_def T_def set_node_def file_or_none_def)
  have "fs_wf T" using ok dir fs_wf_add [of "fs_tree ?s" "d @ [c]"] by (auto simp: T_def fs_ok_def)
  moreover have "\<forall>q. \<not> prefix q d \<longrightarrow> q \<noteq> d @ [c] \<longrightarrow> T q = fs_tree s q"
    by (auto simp: T_def with_dirs_def)
  moreover have "\<forall>q. fs_tree s q = Some Dir \<longrightarrow> T q = Some Dir"
    using assms(4) by (auto simp: T_def with_dirs_def file_or_none_def)
  moreover have "ObjectLock_acquire (d @ [c]) mode s = (Ok \<lparr>lk_file = d @ [c], lk_mode = mode\<rparr>,
      s\<lparr>fs_tree := T, fs_disk := j, fs_locks := (d @ [c], mode) # fs_locks s\<rparr>)"
    using mk opened assms(2)
    by (simp add: ObjectLock_acquire_def and_then_def map_err_def lock_file_def)
  ultimately show ?thesis by (intro exI [of _ T] exI [of _ j] exI [of _ "\<lparr>lk_file = d @ [c], lk_mode = mode\<rparr>"]) simp
qed

lemma publish_ok:
  assumes "fs_ok s" "fs_faults s = []" "fs_tree s d = Some Dir"
    and "fs_tree s (d @ [temporary_name Q (fs_uuids s (fs_drawn s))]) = None"
    and "file_or_none (fs_tree s (d @ [n]))" "\<not> own_name n"
  shows "\<exists>t. publish Q \<lparr>fp_names = d @ [n], fp_slash = False\<rparr> enc s = (Ok (), t)"
proof -
  define c where "c = temporary_name Q (fs_uuids s (fs_drawn s))"
  define s1 where "s1 = s\<lparr>fs_drawn := Suc (fs_drawn s)\<rparr>"
  define s2 where "s2 = set_node (d @ [c]) (Some (File [])) s1"
  define s3 where "s3 = sync_node (d @ [c]) (mark_dirty (d @ [c]) (set_node (d @ [c]) (Some (File enc)) s2))"
  define s4 where "s4 = set_node (d @ [n]) (Some (File enc)) (set_node (d @ [c]) None s3)"
  have cn: "c \<noteq> n" using assms(6) own_temporary [of Q] by (auto simp: c_def)
  have wf: "fs_wf (fs_tree s)" using assms(1) by (simp add: fs_ok_def)
  have add: "fs_wf ((fs_tree s)(d @ [c] := v))" for v
    using fs_wf_add [OF wf] assms(3,4) by (simp add: c_def)
  have "fs_wf ((fs_tree s)(d @ [c] := None, d @ [n] := Some (File enc)))"
    using add [of None] assms(3,5) cn
    by (intro fs_wf_put [of "(fs_tree s)(d @ [c] := None)"]) (auto simp: file_or_none_def)
  then have ok: "fs_ok s1" "fs_ok s2" "fs_ok s3" "fs_ok s4"
    using assms(1,3,4,5) add by (auto simp: fs_ok_def s1_def s2_def s3_def s4_def set_node_def c_def file_or_none_def)
  have dir: "fs_tree s1 d = Some Dir" "fs_tree s2 d = Some Dir" "fs_tree s3 d = Some Dir" "fs_tree s4 d = Some Dir"
    using assms(3) by (simp_all add: s1_def s2_def s3_def s4_def set_node_def)
  have faults: "fs_faults s1 = []" "fs_faults s2 = []" "fs_faults s3 = []" "fs_faults s4 = []"
    using assms(2) by (simp_all add: s1_def s2_def s3_def s4_def set_node_def)
  have content: "fs_tree s2 (d @ [c]) = Some (File [])" "fs_tree s3 (d @ [c]) = Some (File enc)"
    by (simp_all add: s2_def s3_def set_node_def)
  have "fs_tree s1 (d @ [c]) = None" using assms(4) by (simp add: s1_def c_def)
  then have "sys_create_new (absolute (d @ [c])) s1 = (Ok (d @ [c]), s2)"
    using faults by (simp add: sys_create_new_def walk_entry_dir ok dir s2_def)
  moreover have "write_all (d @ [c]) enc s2 = (Ok (), mark_dirty (d @ [c]) (set_node (d @ [c]) (Some (File enc)) s2))"
    using faults content by (simp add: write_all_def append_file_def)
  moreover have "sync_all (d @ [c]) (mark_dirty (d @ [c]) (set_node (d @ [c]) (Some (File enc)) s2)) = (Ok (), s3)"
    using faults(2) by (simp add: sync_all_def s3_def mark_dirty_def set_node_def)
  moreover have "\<not> dk_dirty (fs_disk s3) (d @ [c])" "fs_tree s3 (d @ [n]) \<noteq> Some Dir"
    using assms(5) cn by (auto simp: s3_def s2_def s1_def sync_node_def set_node_def file_or_none_def)
  then have "sys_rename (absolute (d @ [c])) (absolute (d @ [n])) False s3 = (Ok (), s4)"
    using faults cn content(2) by (simp add: sys_rename_def do_rename_def walk_entry_dir ok dir s4_def)
  moreover have "sys_open (absolute d) s4 = (Ok d, s4)"
    using faults dir by (simp add: sys_open_def walk_absolute_dir ok)
  ultimately have "publish_file d (d @ [c]) \<lparr>fp_names = d @ [n], fp_slash = False\<rparr> enc s1 = (Ok (), sync_node d s4)"
    using faults by (simp add: publish_file_def and_then_def map_err_def sync_all_def [of d])
  then show ?thesis
    by (simp add: publish_def fp_parent_def now_v7_def flip: s1_def c_def)
qed

section \<open>Operations on a ready tree\<close>

text \<open>
  Nothing is in the way of the operations on \<open>l\<close>: directories where directories are needed, files
  or nothing where files are, no pending fault, and a new name for the temporary file.
\<close>

definition fs_ready :: "uuid_ops \<Rightarrow> string list \<Rightarrow> Location \<Rightarrow> fs_state \<Rightarrow> bool" where
  "fs_ready Q root l s \<longleftrightarrow> fs_inv Q root s \<and> fs_location l \<and> fs_faults s = [] \<and>
     free_dirs (fs_tree s) (root @ butlast (fs_names l)) \<and> file_or_none (fs_tree s (root @ fs_names l)) \<and>
     free_dirs (fs_tree s) (root @ [''.objsds-locks'']) \<and> file_or_none (fs_tree s (lock_path root l)) \<and>
     fs_tree s (root @ butlast (fs_names l) @ [temporary_name Q (fs_uuids s (Suc (fs_drawn s)))]) = None"

lemma object_path_ready:
  assumes "fs_ready Q root l s"
  shows "object_path root l s = (Ok (location_path root l), s)"
  using assms reject_location_ok [of s root l]
  by (simp add: object_path_def object_path_of_location and_then_def fs_ready_def fs_inv_def)

lemma free_dirs_with_dirs: "free_dirs T p \<Longrightarrow> free_dirs (with_dirs q T) p"
  by (auto simp: free_dirs_def with_dirs_def)

lemma not_prefix_parent: "\<not> prefix (root @ fs_names l) (root @ butlast (fs_names l))"
proof
  assume "prefix (root @ fs_names l) (root @ butlast (fs_names l))"
  then have "prefix (fs_names l) (butlast (fs_names l))" by simp
  then have "length (fs_names l) \<le> length (butlast (fs_names l))" by (rule prefix_length_le)
  then show False using fs_names_not_Nil [of l] by (cases "fs_names l") (auto split: if_splits)
qed

lemma prepare_path_ready:
  assumes "fs_ready Q root l s"
  shows "\<exists>k. prepare_path root l s = (Ok (location_path root l),
    s\<lparr>fs_tree := with_dirs (root @ butlast (fs_names l)) (fs_tree s), fs_disk := k\<rparr>)"
proof -
  have ready: "fs_ok s" "fs_faults s = []" "free_dirs (fs_tree s) (root @ butlast (fs_names l))"
      "fs_tree s root = Some Dir" "file_or_none (fs_tree s (root @ fs_names l))"
    using assms by (auto simp: fs_ready_def fs_inv_def)
  obtain k where mk: "create_dir_all (absolute (root @ butlast (fs_names l))) s =
      (Ok (), s\<lparr>fs_tree := with_dirs (root @ butlast (fs_names l)) (fs_tree s), fs_disk := k\<rparr>)"
    using create_dir_all_ok [OF ready(1-3)] by blast
  let ?s = "s\<lparr>fs_tree := with_dirs (root @ butlast (fs_names l)) (fs_tree s), fs_disk := k\<rparr>"
  have "fs_ok ?s" using ready fs_wf_with_dirs by (auto simp: fs_ok_def with_dirs_def)
  moreover have "fs_tree ?s root = Some Dir" using ready(4) by (simp add: with_dirs_def)
  moreover have "file_or_none (fs_tree ?s (root @ fs_names l))"
    using ready(5) not_prefix_parent [of root l] by (simp add: with_dirs_def)
  ultimately have "reject_existing_symlinks root (location_path root l) ?s = (Ok (), ?s)"
    using ready by (intro reject_location_ok) (auto intro: free_dirs_with_dirs)
  then show ?thesis
    using object_path_ready [OF assms] mk
    by (auto simp: prepare_path_def and_then_def map_err_def fp_parent_location)
qed

text \<open>The lock's files are apart from the object's.\<close>

lemma lock_apart:
  assumes "fs_location l"
  shows "\<not> prefix (lock_path root l) (root @ butlast (fs_names l))"
    "\<not> prefix (root @ fs_names l) (root @ [''.objsds-locks''])" "root @ fs_names l \<noteq> lock_path root l"
    "\<not> prefix (root @ butlast (fs_names l) @ [temporary_name Q u]) (root @ [''.objsds-locks''])"
    "root @ butlast (fs_names l) @ [temporary_name Q u] \<noteq> lock_path root l"
proof -
  obtain a xs where names: "fs_names l = a # xs" by (cases "fs_names l") auto
  then have a: "a \<noteq> ''.objsds-locks''" using assms by (simp add: fs_location_def)
  have tmp: "temporary_name Q u \<noteq> ''.objsds-locks''"
  proof
    assume "temporary_name Q u = ''.objsds-locks''"
    then have "last (temporary_name Q u) = CHR ''s''" by simp
    then show False by (simp add: temporary_name_def)
  qed
  show "\<not> prefix (lock_path root l) (root @ butlast (fs_names l))"
    "\<not> prefix (root @ fs_names l) (root @ [''.objsds-locks''])" "root @ fs_names l \<noteq> lock_path root l"
    using a by (auto simp: lock_path_def names)
  show "\<not> prefix (root @ butlast (fs_names l) @ [temporary_name Q u]) (root @ [''.objsds-locks''])"
    "root @ butlast (fs_names l) @ [temporary_name Q u] \<noteq> lock_path root l"
    using a tmp by (cases xs rule: rev_cases; auto simp: lock_path_def names butlast_append)+
qed

text \<open>The state in which the body of a write runs, and what it holds of the tree.\<close>

lemma write_reaches_body:
  assumes "fs_ready Q root l s"
  shows "\<exists>w (lk :: ObjectLock). fs_ok w \<and> fs_faults w = [] \<and> fs_uuids w = fs_uuids s \<and> fs_drawn w = fs_drawn s \<and>
    fs_tree w (root @ butlast (fs_names l)) = Some Dir \<and>
    fs_tree w (root @ fs_names l) = fs_tree s (root @ fs_names l) \<and>
    fs_tree w (root @ butlast (fs_names l) @ [temporary_name Q (fs_uuids s (Suc (fs_drawn s)))]) = None \<and>
    and_then (map_err W (prepare_path root l)) (\<lambda>path.
        with_lock W (ObjectLock_acquire (lock_path root l) mode) (body path)) s =
      (case body (location_path root l) w of (r, t) \<Rightarrow> (r, unlock_file (lk_file lk) (lk_mode lk) t))"
proof -
  let ?P = "root @ butlast (fs_names l)"
  let ?tmp = "root @ butlast (fs_names l) @ [temporary_name Q (fs_uuids s (Suc (fs_drawn s)))]"
  obtain k where prep: "prepare_path root l s = (Ok (location_path root l), s\<lparr>fs_tree := with_dirs ?P (fs_tree s), fs_disk := k\<rparr>)"
    using prepare_path_ready [OF assms] by blast
  let ?s = "s\<lparr>fs_tree := with_dirs ?P (fs_tree s), fs_disk := k\<rparr>"
  have ready: "fs_ok s" "fs_faults s = []" "free_dirs (fs_tree s) ?P" "fs_location l"
      "free_dirs (fs_tree s) (root @ [''.objsds-locks''])" "file_or_none (fs_tree s (lock_path root l))"
      "fs_tree s ?tmp = None"
    using assms by (auto simp: fs_ready_def fs_inv_def)
  note apart = lock_apart [OF ready(4), where root = root]
  have lock: "lock_path root l = (root @ [''.objsds-locks'']) @ [lock_name l]" by (simp add: lock_path_def)
  have ok: "fs_ok ?s" using ready fs_wf_with_dirs by (auto simp: fs_ok_def with_dirs_def)
  have "free_dirs (fs_tree ?s) (root @ [''.objsds-locks''])" using ready free_dirs_with_dirs by simp
  moreover have "file_or_none (fs_tree ?s (lock_path root l))" using ready(6) apart(1) by (simp add: with_dirs_def)
  ultimately obtain T j lk where acq: "ObjectLock_acquire (lock_path root l) mode ?s =
      (Ok lk, ?s\<lparr>fs_tree := T, fs_disk := j, fs_locks := (lk_file lk, lk_mode lk) # fs_locks ?s\<rparr>)" "fs_wf T"
      "\<forall>q. \<not> prefix q (root @ [''.objsds-locks'']) \<longrightarrow> q \<noteq> lock_path root l \<longrightarrow> T q = fs_tree ?s q"
      "\<forall>q. fs_tree ?s q = Some Dir \<longrightarrow> T q = Some Dir"
    using acquire_ok [OF ok, of "root @ [''.objsds-locks'']" "lock_name l" mode] ready(2) lock by auto
  let ?w = "?s\<lparr>fs_tree := T, fs_disk := j, fs_locks := (lk_file lk, lk_mode lk) # fs_locks ?s\<rparr>"
  have "fs_ok ?w" using acq(2,4) ok by (simp add: fs_ok_def)
  moreover have "fs_tree ?w ?P = Some Dir" using acq(4) by (simp add: with_dirs_def)
  moreover have "fs_tree ?w (root @ fs_names l) = fs_tree s (root @ fs_names l)"
    using acq(3) apart(2,3) not_prefix_parent [of root l] by (simp add: with_dirs_def)
  moreover have "\<not> prefix ?tmp ?P"
    using prefix_length_le [of ?tmp ?P] by auto
  then have "fs_tree ?w ?tmp = None" using acq(3) apart(4,5) ready(7) by (simp add: with_dirs_def)
  moreover have "and_then (map_err W (prepare_path root l)) (\<lambda>path.
        with_lock W (ObjectLock_acquire (lock_path root l) mode) (body path)) s =
      (case body (location_path root l) ?w of (r, t) \<Rightarrow> (r, unlock_file (lk_file lk) (lk_mode lk) t))"
    using prep acq(1) by (simp add: with_lock_def and_then_def map_err_def)
  ultimately show ?thesis using ready(2) by (intro exI [of _ ?w] exI [of _ lk]) simp
qed

lemma read_path_ok:
  assumes "fs_ok s" "fs_faults s = []" "fs_tree s (root @ butlast (fs_names l)) = Some Dir"
    and "fs_tree s (root @ fs_names l) = x" "file_or_none x"
  shows "read_path Q (location_path root l) s =
    ((case x of Some (File bs) \<Rightarrow> map_sum id Some (fs_decode Q bs) | _ \<Rightarrow> Ok None), s)"
proof -
  have "root @ fs_names l = (root @ butlast (fs_names l)) @ [last (fs_names l)]" by simp
  then have "walk s (absolute (root @ fs_names l)) = Ok (root @ fs_names l)"
    using walk_file [OF assms(1,3)] assms(4,5) by metis
  then show ?thesis
    using assms(2,4,5) by (auto simp: read_path_def sys_read_def file_or_none_def)
qed

lemma encode_and_publish_ok:
  assumes "fs_ok w" "fs_faults w = []" "fs_tree w (root @ butlast (fs_names l)) = Some Dir"
    and "fs_tree w (root @ butlast (fs_names l) @ [temporary_name Q (fs_uuids w (Suc (fs_drawn w)))]) = None"
    and "file_or_none (fs_tree w (root @ fs_names l))" "fs_location l"
  shows "\<exists>t. encode_and_publish Q (location_path root l) bs w = (Ok (fs_next_version Q w), t)"
proof -
  let ?w = "w\<lparr>fs_drawn := Suc (fs_drawn w)\<rparr>"
  have names: "(root @ butlast (fs_names l)) @ [last (fs_names l)] = root @ fs_names l" by simp
  have "fs_ok ?w" using assms(1) by (simp add: fs_ok_def)
  then have "\<exists>t. publish Q \<lparr>fp_names = (root @ butlast (fs_names l)) @ [last (fs_names l)], fp_slash = False\<rparr>
      (snd (fs_encode Q (fs_uuids w (fs_drawn w)) bs)) ?w = (Ok (), t)"
    using assms names by (intro publish_ok) (auto simp: fs_location_def)
  then show ?thesis
    unfolding names
    by (auto simp: encode_and_publish_def now_v7_def and_then_def fs_encode_def fs_next_version_def)
qed

lemma filesystem_create_ready:
  assumes "fs_ready Q root l s" "fs_tree s (root @ fs_names l) = None"
  shows "\<exists>t. filesystem_create Q root l bs s = (Ok (fs_next_version Q s), t)"
proof -
  have loc: "fs_location l" using assms(1) by (simp add: fs_ready_def)
  let ?body = "\<lambda>path. and_then (map_err Create_Store (read_path Q path)) (\<lambda>found.
         case found of
           Some obj \<Rightarrow> err (Create_AlreadyExists (obj_version obj))
         | None \<Rightarrow> map_err Create_Store (encode_and_publish Q path bs))"
  obtain w and lk :: ObjectLock where w: "fs_ok w" "fs_faults w = []" "fs_uuids w = fs_uuids s" "fs_drawn w = fs_drawn s"
      "fs_tree w (root @ butlast (fs_names l)) = Some Dir"
      "fs_tree w (root @ fs_names l) = fs_tree s (root @ fs_names l)"
      "fs_tree w (root @ butlast (fs_names l) @ [temporary_name Q (fs_uuids s (Suc (fs_drawn s)))]) = None"
    and run: "filesystem_create Q root l bs s =
      (case ?body (location_path root l) w of (r, t) \<Rightarrow> (r, unlock_file (lk_file lk) (lk_mode lk) t))"
    using write_reaches_body [OF assms(1), where mode = Exclusive and W = Create_Store and body = ?body]
    unfolding filesystem_create_def by (elim exE conjE) blast
  have "read_path Q (location_path root l) w = (Ok None, w)"
    using read_path_ok [OF w(1,2,5,6), of Q] assms(2) by (simp add: file_or_none_def)
  moreover obtain t where "encode_and_publish Q (location_path root l) bs w = (Ok (fs_next_version Q w), t)"
    using encode_and_publish_ok [OF w(1,2,5) _ _ loc, of Q bs] w assms(2) by (auto simp: file_or_none_def)
  moreover have "fs_next_version Q w = fs_next_version Q s" using w by (simp add: fs_next_version_def)
  ultimately show ?thesis unfolding run by (simp add: and_then_def map_err_def)
qed

lemma filesystem_replace_ready:
  assumes "fs_ready Q root l s" "fs_view Q root s l = Some obj"
  shows "\<exists>t. filesystem_replace Q root l (obj_version obj) bs s = (Ok (fs_next_version Q s), t)"
proof -
  have loc: "fs_location l" using assms(1) by (simp add: fs_ready_def)
  obtain enc where enc: "fs_tree s (root @ fs_names l) = Some (File enc)" "fs_decode Q enc = Ok obj"
    using assms(2) by (auto simp: fs_view_def fs_object_def split: if_splits option.splits fs_node.splits sum.splits)
  let ?body = "\<lambda>path. and_then (map_err Replace_Store (read_path Q path)) (\<lambda>current.
         if map_option obj_version current \<noteq> Some (obj_version obj)
         then err (Replace_Conflict (map_option obj_version current))
         else map_err Replace_Store (encode_and_publish Q path bs))"
  obtain w and lk :: ObjectLock where w: "fs_ok w" "fs_faults w = []" "fs_uuids w = fs_uuids s" "fs_drawn w = fs_drawn s"
      "fs_tree w (root @ butlast (fs_names l)) = Some Dir"
      "fs_tree w (root @ fs_names l) = fs_tree s (root @ fs_names l)"
      "fs_tree w (root @ butlast (fs_names l) @ [temporary_name Q (fs_uuids s (Suc (fs_drawn s)))]) = None"
    and run: "filesystem_replace Q root l (obj_version obj) bs s =
      (case ?body (location_path root l) w of (r, t) \<Rightarrow> (r, unlock_file (lk_file lk) (lk_mode lk) t))"
    using write_reaches_body [OF assms(1), where mode = Exclusive and W = Replace_Store and body = ?body]
    unfolding filesystem_replace_def by (elim exE conjE) blast
  have "read_path Q (location_path root l) w = (Ok (Some obj), w)"
    using read_path_ok [OF w(1,2,5,6), of Q] enc by (simp add: file_or_none_def)
  moreover obtain t where "encode_and_publish Q (location_path root l) bs w = (Ok (fs_next_version Q w), t)"
    using encode_and_publish_ok [OF w(1,2,5) _ _ loc, of Q bs] w enc by (auto simp: file_or_none_def)
  moreover have "fs_next_version Q w = fs_next_version Q s" using w by (simp add: fs_next_version_def)
  ultimately show ?thesis unfolding run by (simp add: and_then_def map_err_def)
qed

lemma acquire_present:
  assumes "fs_ok s" "fs_faults s = []" "fs_tree s d = Some Dir" "fs_tree s (d @ [c]) = Some (File x)"
  shows "ObjectLock_acquire (d @ [c]) mode s =
    (Ok \<lparr>lk_file = d @ [c], lk_mode = mode\<rparr>, s\<lparr>fs_locks := (d @ [c], mode) # fs_locks s\<rparr>)"
proof -
  have wf: "fs_wf (fs_tree s)" using assms(1) by (simp add: fs_ok_def)
  have "create_dir_all (absolute d) s = (Ok (), s)" using create_dir_all_present [OF assms(1-3)] .
  moreover have "walk s (absolute (d @ [c])) = Ok (d @ [c])"
    using walk_file [OF assms(1,3)] assms(4) by (simp add: file_or_none_def)
  ultimately show ?thesis
    using assms(2,4)
    by (simp add: ObjectLock_acquire_def and_then_def map_err_def lock_file_def sys_open_or_create_def)
qed

lemma filesystem_get_ready:
  assumes "fs_ready Q root l s" "fs_view Q root s l = Some obj"
    and "fs_tree s (lock_path root l) = Some (File x)"
  shows "filesystem_get Q root l s = (Ok (Some obj), s)"
proof -
  have ready: "fs_ok s" "fs_faults s = []" "fs_wf (fs_tree s)" "fs_tree s root = Some Dir"
    using assms(1) by (auto simp: fs_ready_def fs_inv_def fs_ok_def)
  have lock: "lock_path root l = (root @ [''.objsds-locks'']) @ [lock_name l]" by (simp add: lock_path_def)
  have dir: "fs_tree s (root @ [''.objsds-locks'']) = Some Dir"
    using fs_wf_parent [OF ready(3)] assms(3) unfolding lock by blast
  obtain enc where enc: "fs_tree s (root @ fs_names l) = Some (File enc)" "fs_decode Q enc = Ok obj"
    using assms(2) by (auto simp: fs_view_def fs_object_def split: if_splits option.splits fs_node.splits sum.splits)
  have parent: "fs_tree s (root @ butlast (fs_names l)) = Some Dir"
    using fs_wf_butlast [OF ready(3) enc(1)] by (simp add: butlast_append)
  let ?s = "s\<lparr>fs_locks := (lock_path root l, Shared) # fs_locks s\<rparr>"
  have "fs_ok ?s" using ready(1) by (simp add: fs_ok_def)
  then have "read_path Q (location_path root l) ?s = (Ok (Some obj), ?s)"
    using read_path_ok [of ?s root l "Some (File enc)" Q] ready(2) parent enc by (simp add: file_or_none_def)
  moreover have "ObjectLock_acquire (lock_path root l) Shared s = (Ok \<lparr>lk_file = lock_path root l, lk_mode = Shared\<rparr>, ?s)"
    using acquire_present [OF ready(1,2) dir, of "lock_name l" x Shared] assms(3) unfolding lock by blast
  ultimately show ?thesis
    using object_path_ready [OF assms(1)]
    by (simp add: filesystem_get_def with_lock_def and_then_def map_err_def unlock_file_def)
qed

end
