(* ===== verification/Filesystem_Properties.thy ===== *)
theory Filesystem_Properties
  imports Filesystem_Progress Concurrent_Structures
begin

text \<open>
  What the filesystem store guarantees: the outcome of every write under every schedule of
  faults, unique version tokens as long as the identifiers drawn are new, and the structures
  over files.
\<close>

section \<open>Version tokens\<close>

definition fs_issued :: "uuid_ops \<Rightarrow> fs_state \<Rightarrow> Version \<Rightarrow> bool" where
  "fs_issued Q s v \<longleftrightarrow> (\<exists>i < fs_drawn s. v = Version (uu_to_string Q (fs_uuids s i)))"

definition fs_vinv :: "uuid_ops \<Rightarrow> string list \<Rightarrow> fs_state \<Rightarrow> bool" where
  "fs_vinv Q root s \<longleftrightarrow> fs_inv Q root s \<and>
     (\<forall>l obj. fs_view Q root s l = Some obj \<longrightarrow> fs_issued Q s (obj_version obj))"

definition fs_snap :: "uuid_ops \<Rightarrow> string list \<Rightarrow> fs_state \<Rightarrow> Location \<Rightarrow> Object \<Rightarrow> bool" where
  "fs_snap Q root s l obj \<longleftrightarrow> fs_issued Q s (obj_version obj) \<and>
     (\<forall>obj'. fs_view Q root s l = Some obj' \<longrightarrow> obj_version obj' = obj_version obj \<longrightarrow> obj' = obj)"

text \<open>The next identifier has not been drawn before.\<close>

definition fs_mintable :: "fs_state \<Rightarrow> bool" where
  "fs_mintable s \<longleftrightarrow> (\<forall>i < fs_drawn s. fs_uuids s i \<noteq> fs_uuids s (fs_drawn s))"

lemma fs_issued_mono:
  "fs_issued Q s v \<Longrightarrow> fs_uuids t = fs_uuids s \<Longrightarrow> fs_drawn s \<le> fs_drawn t \<Longrightarrow> fs_issued Q t v"
  unfolding fs_issued_def by (metis order_less_le_trans)

lemma fs_next_not_issued:
  assumes "fs_inv Q root s" "fs_mintable s"
  shows "\<not> fs_issued Q s (fs_next_version Q s)"
proof
  assume "fs_issued Q s (fs_next_version Q s)"
  then obtain i where "i < fs_drawn s" "uu_to_string Q (fs_uuids s i) = uu_to_string Q (fs_uuids s (fs_drawn s))"
    by (auto simp: fs_issued_def fs_next_version_def)
  moreover have "inj (uu_to_string Q)" using assms(1) by (simp add: fs_inv_def uuid_ops_ok_def)
  ultimately show False using assms(2) by (auto simp: fs_mintable_def dest: injD)
qed

lemma fs_quiet_tokens:
  assumes "fs_quiet Q root s t"
  shows "fs_vinv Q root s \<Longrightarrow> fs_vinv Q root t" "fs_snap Q root s l obj \<Longrightarrow> fs_snap Q root t l obj"
  using assms fs_issued_mono [of Q s _ t] by (auto simp: fs_quiet_def fs_vinv_def fs_snap_def)

lemma fs_writes_tokens:
  assumes "fs_writes Q root l' bs s t"
  shows "fs_vinv Q root s \<Longrightarrow> fs_vinv Q root t"
    "fs_vinv Q root s \<Longrightarrow> fs_mintable s \<Longrightarrow> fs_snap Q root s l obj \<Longrightarrow> fs_snap Q root t l obj"
proof -
  have mono: "fs_issued Q s v \<Longrightarrow> fs_issued Q t v" for v
    using assms fs_issued_mono [of Q s v t] by (simp add: fs_writes_def)
  have "fs_issued Q t (fs_next_version Q s)"
    using assms by (auto simp: fs_writes_def fs_issued_def fs_next_version_def)
  with mono assms show "fs_vinv Q root s \<Longrightarrow> fs_vinv Q root t" by (auto simp: fs_writes_def fs_vinv_def)
  assume "fs_vinv Q root s" "fs_mintable s" "fs_snap Q root s l obj"
  then have "obj_version obj \<noteq> fs_next_version Q s"
    using fs_next_not_issued by (auto simp: fs_vinv_def fs_snap_def)
  with mono assms \<open>fs_snap Q root s l obj\<close> show "fs_snap Q root t l obj"
    by (auto simp: fs_writes_def fs_snap_def)
qed

lemma write_outcome_tokens:
  assumes "write_outcome W decide answer Q root l' bs s r t" "fs_vinv Q root s"
  shows "fs_vinv Q root t" "fs_mintable s \<Longrightarrow> fs_snap Q root s l obj \<Longrightarrow> fs_snap Q root t l obj"
proof -
  have "fs_quiet Q root s t \<or> fs_writes Q root l' bs s t" using assms(1) by (auto simp: write_outcome_def)
  then show "fs_vinv Q root t" "fs_mintable s \<Longrightarrow> fs_snap Q root s l obj \<Longrightarrow> fs_snap Q root t l obj"
    using assms(2) fs_quiet_tokens [of Q root s t] fs_writes_tokens [of Q root l' bs s t] by auto
qed

interpretation fsv: versioned_store "filesystem_store Q st" "fs_view Q (fss_root st)"
    "fs_inv Q (fss_root st)" fs_location "fs_vinv Q (fss_root st)" "fs_snap Q (fss_root st)" fs_mintable
  for Q st
proof (unfold_locales, goal_cases)
  case (1 s)
  then show ?case by (simp add: fs_vinv_def)
next
  case (2 s l r t)
  then show ?case
    using filesystem_get_cases [of Q "fss_root st" l s r t] fs_quiet_tokens(1) by (auto simp: fs_vinv_def)
next
  case (3 s l b rc t)
  then show ?case
    using write_outcome_tokens(1) [OF filesystem_create_cases [of Q "fss_root st" l b s rc t]]
    by (auto simp: fs_vinv_def)
next
  case (4 s l x b rr t)
  then show ?case
    using write_outcome_tokens(1) [OF filesystem_replace_cases [of Q "fss_root st" l x b s rr t]]
    by (auto simp: fs_vinv_def)
next
  case (5 s l obj)
  then show ?case by (auto simp: fs_vinv_def fs_snap_def)
next
  case (6 s l obj obj')
  then show ?case by (simp add: fs_snap_def)
next
  case (7 s l obj l' r t)
  then show ?case
    using filesystem_get_cases [of Q "fss_root st" l' s r t] fs_quiet_tokens(2) by (auto simp: fs_vinv_def)
next
  case (8 s l obj l' b rc t)
  then show ?case
    using write_outcome_tokens(2) [OF filesystem_create_cases [of Q "fss_root st" l' b s rc t]]
    by (auto simp: fs_vinv_def)
next
  case (9 s l obj l' x b rr t)
  then show ?case
    using write_outcome_tokens(2) [OF filesystem_replace_cases [of Q "fss_root st" l' x b s rr t]]
    by (auto simp: fs_vinv_def)
qed

section \<open>Writes\<close>


text \<open>
  C13: a \<open>replace\<close> on the filesystem is all or nothing, wherever a system call fails: it answers \<open>Ok\<close>
  only if the expected version was there, and then the location shows exactly the new bytes; a
  conflict names the version that is there, or that there is none; after a failure the
  location either shows the old object or exactly the new bytes, never a part of them. No
  other object changes, the tree stays well formed and every lock is released.
\<close>

theorem filesystem_replace_all_or_nothing:
  assumes "fs_inv Q root s" "fs_location l" "filesystem_replace Q root l expected bs s = (r, t)"
  shows "fs_inv Q root t \<and> fs_locks t = fs_locks s \<and>
    (case r of
       Ok v \<Rightarrow> map_option obj_version (fs_view Q root s l) = Some expected \<and>
         fs_view Q root t = (fs_view Q root s)(l \<mapsto> \<lparr>obj_bytes = bs, obj_version = v\<rparr>)
     | Err (Replace_Conflict observed) \<Rightarrow> fs_view Q root t = fs_view Q root s \<and>
         observed = map_option obj_version (fs_view Q root s l) \<and> observed \<noteq> Some expected
     | Err (Replace_Store e) \<Rightarrow> fs_view Q root t = fs_view Q root s \<or>
         map_option obj_version (fs_view Q root s l) = Some expected \<and>
         (\<exists>v. fs_view Q root t = (fs_view Q root s)(l \<mapsto> \<lparr>obj_bytes = bs, obj_version = v\<rparr>)))"
  using filesystem_replace_cases [OF assms(3,1,2)]
  by (auto simp: write_outcome_def fs_quiet_def fs_writes_def)

section \<open>A sample tree\<close>

definition sample_bytes :: bytes where
  "sample_bytes = put_fields [''1'', ''queue'', ''job-v1'', ''10'', ''a'', ''0'', ''none'', ''20'', ''b'', ''0'', ''none'']"

definition sample_tree :: fs_tree where
  "sample_tree p =
     (if p \<in> {[], [''srv''], [''srv'', ''prod''], [''srv'', ''prod'', ''queues''], [''srv'', ''.objsds-locks'']}
      then Some Dir
      else if p = [''srv'', ''prod'', ''queues'', ''jobs.json'']
      then Some (File (snd (fs_encode sample_uuid_ops 0 sample_bytes)))
      else if p = lock_path [''srv''] jobs then Some (File [])
      else None)"

definition sample_fs :: fs_state where
  "sample_fs = \<lparr>fs_tree = sample_tree, fs_disk = \<lparr>dk_entry = (\<lambda>p v. v = sample_tree p), dk_dirty = (\<lambda>_. False)\<rparr>,
     fs_cwd = [], fs_faults = [], fs_locks = [], fs_uuids = of_nat, fs_drawn = 1\<rparr>"

definition sample_object :: Object where
  "sample_object = \<lparr>obj_bytes = sample_bytes, obj_version = fst (fs_encode sample_uuid_ops 0 sample_bytes)\<rparr>"

lemma jobs_names: "fs_names jobs = [''prod'', ''queues'', ''jobs.json'']"
  unfolding fs_names_def by code_simp

lemma jobs_location: "fs_location jobs"
  by (simp add: fs_location_def jobs_names is_path_segment_def own_name_def)

lemma sample_tree_wf: "fs_wf sample_tree"
  unfolding fs_wf_def
proof (intro conjI allI impI)
  show "sample_tree [] = Some Dir" by (simp add: sample_tree_def)
  fix p c assume "sample_tree (p @ [c]) \<noteq> None"
  then have "p @ [c] \<in> {[''srv''], [''srv'', ''prod''], [''srv'', ''prod'', ''queues''], [''srv'', ''.objsds-locks''],
      [''srv'', ''prod'', ''queues'', ''jobs.json''], [''srv'', ''.objsds-locks'', lock_name jobs]}"
    by (auto simp: sample_tree_def lock_path_def split: if_splits)
  then have "p \<in> {[], [''srv''], [''srv'', ''prod''], [''srv'', ''prod'', ''queues''], [''srv'', ''.objsds-locks'']}"
    by (auto simp: append_eq_Cons_conv)
  then show "sample_tree p = Some Dir" by (auto simp: sample_tree_def)
qed

lemma sample_fs_inv: "fs_inv sample_uuid_ops [''srv''] sample_fs"
  using sample_tree_wf sample_uuid_ops_ok
  by (simp add: fs_inv_def fs_ok_def sample_fs_def) (simp add: sample_tree_def)

lemma sample_jobs_view: "fs_view sample_uuid_ops [''srv''] sample_fs jobs = Some sample_object"
  using fs_decode_encode [OF sample_uuid_ops_ok, of 0 sample_bytes] jobs_location
  by (simp add: fs_view_def jobs_names sample_fs_def sample_tree_def fs_object_def sample_object_def lock_path_def)

lemma sample_view: "fs_view sample_uuid_ops [''srv''] sample_fs = [jobs \<mapsto> sample_object]"
proof
  fix l
  have "sample_tree (''srv'' # fs_names l) = None \<or> sample_tree (''srv'' # fs_names l) = Some Dir \<or>
      sample_tree (''srv'' # fs_names l) = Some (File []) \<or> fs_names l = fs_names jobs"
    by (auto simp: sample_tree_def jobs_names lock_path_def)
  then show "fs_view sample_uuid_ops [''srv''] sample_fs l = [jobs \<mapsto> sample_object] l"
    using sample_jobs_view fs_names_inj [of l jobs]
    by (auto simp: fs_view_def sample_fs_def)
qed

lemma sample_fs_ready: "fs_ready sample_uuid_ops [''srv''] jobs sample_fs"
proof -
  have free: "free_dirs sample_tree d" if "sample_tree d = Some Dir" for d
    using fs_wf_prefix [OF sample_tree_wf that] by (simp add: free_dirs_def)
  have "temporary_name sample_uuid_ops u \<noteq> ''jobs.json''" for u by (simp add: temporary_name_def)
  then have "sample_tree [''srv'', ''prod'', ''queues'', temporary_name sample_uuid_ops u] = None" for u
    by (simp add: sample_tree_def lock_path_def)
  moreover have "sample_tree [''srv'', ''prod'', ''queues''] = Some Dir" "sample_tree [''srv'', ''.objsds-locks''] = Some Dir"
    "sample_tree (lock_path [''srv''] jobs) = Some (File [])"
    by (simp_all add: sample_tree_def lock_path_def)
  moreover have "file_or_none (sample_tree [''srv'', ''prod'', ''queues'', ''jobs.json''])"
    by (simp add: sample_tree_def file_or_none_def)
  ultimately show ?thesis
    using sample_fs_inv jobs_location free
    by (simp add: fs_ready_def jobs_names sample_fs_def file_or_none_def)
qed

section \<open>Examples of the writes\<close>


theorem filesystem_replace_all_or_nothing_witness:
  "\<exists>v t. filesystem_replace sample_uuid_ops [''srv''] jobs (obj_version sample_object) [1, 2] sample_fs = (Ok v, t) \<and>
    fs_view sample_uuid_ops [''srv''] t = [jobs \<mapsto> \<lparr>obj_bytes = [1, 2], obj_version = v\<rparr>] \<and> fs_locks t = []"
proof -
  obtain v t where run: "filesystem_replace sample_uuid_ops [''srv''] jobs (obj_version sample_object) [1, 2] sample_fs = (Ok v, t)"
    using filesystem_replace_ready [OF sample_fs_ready sample_jobs_view] by blast
  from filesystem_replace_all_or_nothing [OF sample_fs_inv jobs_location run] run show ?thesis
    by (auto simp: sample_view) (simp add: sample_fs_def)
qed

section \<open>Progress\<close>

text \<open>
  C36: without faults writes succeed: where nothing is in the way, a \<open>create\<close> at an empty location
  and a \<open>replace\<close> at the current version answer \<open>Ok\<close> with a version made from the next
  identifier, and the location then shows the new bytes.
\<close>

theorem filesystem_writes_succeed:
  assumes "fs_ready Q root l s"
  shows "(fs_tree s (root @ fs_names l) = None \<longrightarrow>
      (\<exists>v t. filesystem_create Q root l bs s = (Ok v, t) \<and>
        fs_view Q root t l = Some \<lparr>obj_bytes = bs, obj_version = v\<rparr>)) \<and>
    (\<forall>obj. fs_view Q root s l = Some obj \<longrightarrow>
      (\<exists>v t. filesystem_replace Q root l (obj_version obj) bs s = (Ok v, t) \<and>
        fs_view Q root t l = Some \<lparr>obj_bytes = bs, obj_version = v\<rparr>))"
proof (intro conjI impI allI)
  have pre: "fs_inv Q root s" "fs_location l" using assms by (simp_all add: fs_ready_def)
  {
    assume "fs_tree s (root @ fs_names l) = None"
    then obtain t where t: "filesystem_create Q root l bs s = (Ok (fs_next_version Q s), t)"
      using filesystem_create_ready [OF assms] by blast
    then show "\<exists>v t. filesystem_create Q root l bs s = (Ok v, t) \<and>
        fs_view Q root t l = Some \<lparr>obj_bytes = bs, obj_version = v\<rparr>"
      using filesystem_create_cases [OF t pre] by (auto simp: write_outcome_def fs_writes_def)
  }
  fix obj assume "fs_view Q root s l = Some obj"
  then obtain t where t: "filesystem_replace Q root l (obj_version obj) bs s = (Ok (fs_next_version Q s), t)"
    using filesystem_replace_ready [OF assms] by blast
  then show "\<exists>v t. filesystem_replace Q root l (obj_version obj) bs s = (Ok v, t) \<and>
      fs_view Q root t l = Some \<lparr>obj_bytes = bs, obj_version = v\<rparr>"
    using filesystem_replace_cases [OF t pre] by (auto simp: write_outcome_def fs_writes_def)
qed

theorem filesystem_writes_succeed_witness:
  "\<exists>v t. filesystem_replace sample_uuid_ops [''srv''] jobs (obj_version sample_object) [1, 2] sample_fs = (Ok v, t) \<and>
    fs_view sample_uuid_ops [''srv''] t jobs = Some \<lparr>obj_bytes = [1, 2], obj_version = v\<rparr>"
  using filesystem_writes_succeed [OF sample_fs_ready, of "[1, 2]"] sample_jobs_view by blast

section \<open>Symbolic links\<close>



section \<open>Building a store\<close>

lemma resolve_not_symlink:
  "fs_wf T \<Longrightarrow> T cur = Some Dir \<Longrightarrow> resolve n T cur cs = Ok q \<Longrightarrow> T q \<noteq> Some (Symlink x)"
proof (induction n T cur cs rule: resolve.induct)
  case (4 n T cur cs)
  have "T (butlast cur) = Some Dir" using 4 fs_wf_butlast [of T cur] by (cases "cur = []") auto
  with 4 show ?case by simp
next
  case (5 n T cur c cs)
  then show ?case by (auto split: option.splits fs_node.splits if_splits)
qed (auto simp: fs_wf_def)

lemma canonicalize_file:
  assumes "canonicalize p s = (Ok q, t)" "fs_ok s"
  shows "fs_tree t q = Some Dir \<or> q \<noteq> [] \<and> fs_tree t (butlast q) = Some Dir \<and> (\<exists>bs. fs_tree t q = Some (File bs))"
proof -
  have w: "walk s p = Ok q" "fs_tree s q \<noteq> None" "fs_tree t = fs_tree s"
    using assms(1) calm_canonicalize [OF assms(1)] unfolding canonicalize_def
    by (auto elim!: syscall_unharmed split: if_splits sum.splits option.splits)
  have "fs_tree s q \<noteq> Some (Symlink x)" for x
    using resolve_not_symlink w(1) assms(2) unfolding walk_def fs_ok_def by blast
  moreover have "fs_tree s [] = Some Dir" using assms(2) by (simp add: fs_ok_def fs_wf_def)
  ultimately show ?thesis
    using w walk_parent [OF assms(2) w(1)] by (cases "fs_tree s q"; cases "the (fs_tree s q)") auto
qed

lemma is_dir_absolute_file:
  assumes "fs_ok s" "fs_tree s d = Some Dir" "fs_tree s (d @ [c]) = Some (File bs)"
  shows "is_dir (absolute (d @ [c])) s \<noteq> (True, t)"
proof
  assume "is_dir (absolute (d @ [c])) s = (True, t)"
  moreover have "walk s (absolute (d @ [c])) = Ok (d @ [c])"
    using walk_file [OF assms(1,2)] assms(3) by (simp add: file_or_none_def)
  ultimately show False
    using assms(3) unfolding is_dir_def
    by (auto split: prod.splits sum.splits elim!: syscall_unharmed)
qed

text \<open>
  C38: a store that was built is usable and building it loses nothing: when \<open>build\<close> answers \<open>Ok\<close>, the
  root is the path of a directory with no symbolic link in it, the tree is well formed, and
  every object stored below that root before is still there.
\<close>

theorem filesystem_build_establishes_invariant:
  assumes "fs_ok s" "uuid_ops_ok Q" "FilesystemStoreBuilder_build b s = (Ok st, t)"
  shows "fs_inv Q (fss_root st) t \<and> fs_view Q (fss_root st) t = fs_view Q (fss_root st) s"
proof -
  obtain p u v root where mk: "create_dir_all p s = (Ok (), u)" and can': "canonicalize p u = (Ok root, v)"
    and rest: "(case is_dir (absolute root) v of
          (False, t) \<Rightarrow> (Err (FsB_Io (IO_Other ''filesystem root is not a directory'')), t)
        | (True, t) \<Rightarrow>
            and_then (map_err FsB_Io (create_dir_all (absolute (root @ [''.objsds-locks''])))) (\<lambda>_.
            ok \<lparr>fss_root = root\<rparr>) t) = (Ok st, t)"
    using assms(3) by (auto simp: FilesystemStoreBuilder_build_def comp_eqs Let_def)
  obtain isd w where isd: "is_dir (absolute root) v = (isd, w)" by fastforce
  with rest have dir': "isd" "fss_root st = root"
    and locks': "create_dir_all (absolute (root @ [''.objsds-locks''])) w = (Ok (), t)"
    by (cases isd; auto simp: comp_eqs)+
  note can = can' [folded dir'(2)] and locks = locks' [folded dir'(2)]
  have dir: "is_dir (absolute (fss_root st)) v = (True, w)" using isd dir' by simp
  have c: "calm s u" "calm u v" "calm v w" "calm w t"
    using calm_create_dir_all [OF mk] calm_canonicalize [OF can] calm_is_dir [OF dir]
      calm_create_dir_all [OF locks] by auto
  have ok: "fs_ok u" "fs_ok v" "fs_ok w" "fs_ok t" using calmD(1) c assms(1) by blast+
  have "fs_tree v (fss_root st) = Some Dir"
    using canonicalize_file [OF can ok(1)] dir
      is_dir_absolute_file [OF ok(2), of "butlast (fss_root st)" "last (fss_root st)" _ w] by auto
  then have "fs_tree t (fss_root st) = Some Dir" using calmD(4) c ok by blast
  moreover have "calm s t" using c calm_trans by blast
  ultimately show ?thesis
    using ok assms(1,2) hidden_view [OF calmD(2)] by (auto simp: fs_inv_def)
qed

theorem filesystem_build_establishes_invariant_witness:
  "\<exists>st t. FilesystemStoreBuilder_build (FilesystemStoreBuilder_root FilesystemStore_builder ''/srv'') sample_fs = (Ok st, t) \<and>
    fs_inv sample_uuid_ops (fss_root st) t"
proof -
  have ok: "fs_ok sample_fs" using sample_fs_inv by (simp add: fs_inv_def)
  have comps: "path_components ''/srv'' = absolute [''srv'']" unfolding absolute_def by code_simp
  have srv: "fs_tree sample_fs [''srv''] = Some Dir" "fs_tree sample_fs [''srv'', ''.objsds-locks''] = Some Dir"
    by (simp_all add: sample_fs_def sample_tree_def)
  have faults: "fs_faults sample_fs = []" by (simp add: sample_fs_def)
  note mk = create_dir_all_present [OF ok faults]
  have "canonicalize (absolute [''srv'']) sample_fs = (Ok [''srv''], sample_fs)"
    using walk_absolute_dir [OF ok srv(1)] faults srv by (simp add: canonicalize_def) (simp add: absolute_def)
  moreover have "is_dir (absolute [''srv'']) sample_fs = (True, sample_fs)"
    using walk_absolute_dir [OF ok srv(1)] faults srv by (simp add: is_dir_def)
  ultimately have run: "FilesystemStoreBuilder_build (FilesystemStoreBuilder_root FilesystemStore_builder ''/srv'') sample_fs
      = (Ok \<lparr>fss_root = [''srv'']\<rparr>, sample_fs)"
    using mk srv
    by (simp add: FilesystemStoreBuilder_build_def FilesystemStoreBuilder_root_def FilesystemStore_builder_def
        comps and_then_def map_err_def Let_def)
  from filesystem_build_establishes_invariant [OF ok sample_uuid_ops_ok run] run show ?thesis by blast
qed

section \<open>Structures over files\<close>


lemma sample_fs_vinv: "fs_vinv sample_uuid_ops [''srv''] sample_fs"
  using sample_fs_inv
  by (auto simp: fs_vinv_def sample_view sample_object_def fs_issued_def fs_encode_def split: if_splits)
    (simp add: sample_fs_def)


end
