(* ===== verification/Conformance.thy ===== *)
theory Conformance
  imports Test_Harness Filesystem_Properties S3_Properties
begin

text \<open>
  The crate \<open>objsds-tests\<close>: the contract test that every backend has to pass, with its panics as
  errors, and the set-up of the RustFS tests. The locale \<open>contract_tested\<close> proves once that the test can
  only fail after the backend itself reported a failure; it is interpreted on the filesystem store
  and applied to the S3 store; the in-memory store, which never fails, passes by computation.
\<close>

section \<open>The test\<close>

definition assert_backend_contract :: "('s, 'e) object_store \<Rightarrow> Location \<Rightarrow> ('s, panic, unit) comp" where
  "assert_backend_contract S l =
     and_then (expect ''initial read should succeed'' (os_get S l)) (\<lambda>found.
     and_then (assert_that (found = None)) (\<lambda>_.
     and_then (expect ''initial create should succeed'' (os_create S l (byte_str ''one''))) (\<lambda>first.
     and_then (attempt (os_create S l (byte_str ''duplicate''))) (\<lambda>r.
     and_then (assert_that (case r of Err (Create_AlreadyExists _) \<Rightarrow> True | _ \<Rightarrow> False)) (\<lambda>_.
     and_then (expect ''current replacement should succeed'' (os_replace S l first (byte_str ''two''))) (\<lambda>second.
     and_then (attempt (os_replace S l first (byte_str ''stale''))) (\<lambda>r.
     and_then (assert_that (case r of Err (Replace_Conflict (Some observed)) \<Rightarrow> observed = second | _ \<Rightarrow> False)) (\<lambda>_.
     and_then (expect ''final read should succeed'' (os_get S l)) (\<lambda>found.
     and_then (expect_some ''object should exist'' found) (\<lambda>obj.
     assert_that (obj_bytes obj = byte_str ''two'')))))))))))"

section \<open>Set-up of the RustFS tests\<close>

definition RUSTFS_ENDPOINT :: string where "RUSTFS_ENDPOINT = ''http://localhost:9000''"
definition RUSTFS_BUCKET :: string where "RUSTFS_BUCKET = ''objsds-e2e''"
definition RUSTFS_ACCESS_KEY :: string where "RUSTFS_ACCESS_KEY = ''rustfsadmin''"
definition RUSTFS_SECRET_KEY :: string where "RUSTFS_SECRET_KEY = ''rustfsadmin''"

text \<open>\<open>env\<close> is the process environment, \<open>pid\<close> the process identifier.\<close>

definition rustfs_enabled :: "(string \<Rightarrow> string option) \<Rightarrow> bool" where
  "rustfs_enabled env \<longleftrightarrow> env ''OBJSDS_RUSTFS_E2E'' = Some ''1''"

definition unique_namespace :: "u32 \<Rightarrow> string \<Rightarrow> string" where
  "unique_namespace pid label = label @ ''-'' @ show_word pid"

definition rustfs_store :: "('x, 'cr, 'au, 'b, 'c) s3_setup \<Rightarrow> 'x S3BuildError + 'c S3Store" where
  "rustfs_store U =
     S3StoreBuilder_build U
       (S3StoreBuilder_path_style
         (S3StoreBuilder_credentials
           (S3StoreBuilder_endpoint
             (S3StoreBuilder_region
               (S3StoreBuilder_bucket S3Store_builder RUSTFS_BUCKET) ''us-east-1'') RUSTFS_ENDPOINT)
           (Credentials_new RUSTFS_ACCESS_KEY RUSTFS_SECRET_KEY)) True)"

text \<open>
  \<open>create_bucket client name\<close> is the request of the client library that creates a bucket, \<open>status\<close> the
  HTTP status of its error.
\<close>

definition ensure_rustfs_bucket ::
  "('x, 'cr, 'au, 'b, 'c) s3_setup \<Rightarrow> ('c \<Rightarrow> string \<Rightarrow> ('s, 'x, 'r) comp) \<Rightarrow> ('x \<Rightarrow> nat option) \<Rightarrow> ('s, 'x, unit) comp" where
  "ensure_rustfs_bucket U create_bucket status =
     and_then (lift_result (su_credentials U RUSTFS_ACCESS_KEY RUSTFS_SECRET_KEY)) (\<lambda>credentials.
     and_then (lift_result (su_builder U RUSTFS_ENDPOINT)) (\<lambda>builder.
     and_then (lift_result (su_build U (su_addressing_style U
       (su_auth U (su_region U builder ''us-east-1'') (su_static U credentials)) Path))) (\<lambda>client s.
       (case create_bucket client RUSTFS_BUCKET s of
          (Ok _, t) \<Rightarrow> (Ok (), t)
        | (Err e, t) \<Rightarrow> if status e = Some 409 then (Ok (), t) else (Err e, t)))))"

text \<open>
  The set-up creates the bucket with the client that the store under test is built with; a bucket
  that is there already (409) is fine.
\<close>

lemma rustfs_bucket_of_store:
  assumes "rustfs_store U = Ok st"
  shows "S3Store_config st = \<lparr>cfg_bucket = RUSTFS_BUCKET, cfg_region = ''us-east-1'', cfg_endpoint = Some RUSTFS_ENDPOINT,
      cfg_credentials = Static RUSTFS_ACCESS_KEY RUSTFS_SECRET_KEY None, cfg_path_style = True\<rparr>"
    "ensure_rustfs_bucket U create_bucket status s =
      (case create_bucket (s3_client st) (cfg_bucket (S3Store_config st)) s of
         (Ok _, t) \<Rightarrow> (Ok (), t)
       | (Err e, t) \<Rightarrow> if status e = Some 409 then (Ok (), t) else (Err e, t))"
  using assms
  by (auto simp: rustfs_store_def S3StoreBuilder_build_def S3StoreBuilder_path_style_def S3StoreBuilder_credentials_def
      S3StoreBuilder_endpoint_def S3StoreBuilder_region_def S3StoreBuilder_bucket_def S3Store_builder_def S3StoreBuilder_default_def
      ok_or_def to_auth_def Credentials_new_def map_error_def S3Store_config_def ensure_rustfs_bucket_def and_then_def lift_result_def
      split: sum.splits)

text \<open>The namespace of a test run is a valid segment, and other processes have other namespaces.\<close>

lemma unique_namespace_segment:
  assumes "CHR ''/'' \<notin> set label"
  shows "is_path_segment (unique_namespace pid label)"
    "unique_namespace pid label = unique_namespace pid' label \<longleftrightarrow> pid = pid'"
proof -
  have digit: "digit_char d \<noteq> CHR ''/''" if "d < 10" for d
    using of_digit_char [OF that] by auto
  have "CHR ''/'' \<notin> set (show_nat n)" for n
  proof (induction n rule: show_nat.induct)
    case (1 n)
    then show ?case using digit [of n] digit [of "n mod 10"] by (subst show_nat.simps) auto
  qed
  moreover have "CHR ''-'' \<in> set (unique_namespace pid label)" by (simp add: unique_namespace_def)
  then have "unique_namespace pid label \<noteq> []" "unique_namespace pid label \<noteq> ''.''" "unique_namespace pid label \<noteq> ''..''"
    by auto
  ultimately show "is_path_segment (unique_namespace pid label)"
    using assms by (simp add: is_path_segment_def) (simp add: unique_namespace_def show_word_def)
qed (simp add: unique_namespace_def)

section \<open>Watching a backend for failures\<close>

text \<open>A store that remembers in a flag whether one of its operations reported a failure of the backend.\<close>

definition watched :: "('s, 'e) object_store \<Rightarrow> ('s \<times> bool, 'e) object_store" where
  "watched S =
     \<lparr>os_get = (\<lambda>l (s, f). case os_get S l s of
        (Ok x, t) \<Rightarrow> (Ok x, (t, f)) | (Err e, t) \<Rightarrow> (Err e, (t, True))),
      os_create = (\<lambda>l b (s, f). case os_create S l b s of
        (Err (Create_Store e), t) \<Rightarrow> (Err (Create_Store e), (t, True)) | (r, t) \<Rightarrow> (r, (t, f))),
      os_replace = (\<lambda>l x b (s, f). case os_replace S l x b s of
        (Err (Replace_Store e), t) \<Rightarrow> (Err (Replace_Store e), (t, True)) | (r, t) \<Rightarrow> (r, (t, f)))\<rparr>"

text \<open>
  \<open>runs c s Q\<close>: from \<open>s\<close>, either a failure of the backend is reported in \<open>c\<close> or \<open>c\<close> succeeds with \<open>Q\<close>.
  \<open>keeps c\<close>: \<open>c\<close> does not forget a reported failure.
\<close>

definition runs :: "('s \<times> bool, 'e, 'a) comp \<Rightarrow> 's \<times> bool \<Rightarrow> ('a \<Rightarrow> 's \<Rightarrow> bool) \<Rightarrow> bool" where
  "runs c s Q \<longleftrightarrow> (\<forall>r t f. c s = (r, (t, f)) \<longrightarrow> f \<or> (\<exists>x. r = Ok x \<and> Q x t))"

definition keeps :: "('s \<times> bool, 'e, 'a) comp \<Rightarrow> bool" where
  "keeps c \<longleftrightarrow> (\<forall>s r t f. c (s, True) = (r, (t, f)) \<longrightarrow> f)"

lemma keeps_and_then [intro]:
  assumes "keeps m" "\<And>x. keeps (k x)"
  shows "keeps (and_then m k)"
  using assms unfolding keeps_def and_then_def by (force split: prod.splits sum.splits)

lemma runs_and_then:
  assumes "runs m s P" "\<And>x. keeps (k x)" "\<And>x t. P x t \<Longrightarrow> runs (k x) (t, False) Q"
  shows "runs (and_then m k) s Q"
  unfolding runs_def
proof (intro allI impI)
  fix r t f
  assume "and_then m k s = (r, (t, f))"
  then show "f \<or> (\<exists>x. r = Ok x \<and> Q x t)"
  proof (cases rule: and_then_cases)
    case (Err e)
    then show ?thesis using assms(1) by (auto simp: runs_def)
  next
    case (Ok x u)
    obtain v g where u: "u = (v, g)" by fastforce
    show ?thesis
    proof (cases g)
      case True
      then show ?thesis using assms(2) [of x] Ok(2) u by (simp add: keeps_def) blast
    next
      case False
      then have "P x v" using assms(1) Ok(1) u by (auto simp: runs_def)
      from assms(3) [OF this] show ?thesis using Ok(2) u False by (simp add: runs_def)
    qed
  qed
qed

lemma runs_mono: "runs c s P \<Longrightarrow> (\<And>x t. P x t \<Longrightarrow> Q x t) \<Longrightarrow> runs c s Q"
  unfolding runs_def by blast

lemma keeps_tests [intro]:
  "keeps c \<Longrightarrow> keeps (expect msg c)" "keeps (assert_that b)" "keeps (expect_some msg x)" "keeps c \<Longrightarrow> keeps (attempt c)"
  by (auto simp: keeps_def expect_def expect_some_def assert_that_def attempt_def map_err_def lift_result_def ok_def err_def
      split: prod.splits sum.splits if_splits)

lemma keeps_watched [intro]:
  "keeps (os_get (watched S) l)" "keeps (os_create (watched S) l b)" "keeps (os_replace (watched S) l x b)"
  by (auto simp: keeps_def watched_def split: prod.splits sum.splits CreateError.splits ReplaceError.splits)

lemma runs_assert: "runs (assert_that True) (s, False) (\<lambda>_ t. t = s)"
  by (simp add: runs_def)

section \<open>Stores that keep the contract pass\<close>

text \<open>\<open>budget n s\<close>: the store can still issue \<open>n\<close> fresh version tokens, one per write.\<close>

locale contract_tested = versioned_store +
  fixes budget :: "nat \<Rightarrow> 'a \<Rightarrow> bool"
  assumes budget_mintable: "budget (Suc n) s \<Longrightarrow> mintable s"
    and budget_get: "vinv s \<Longrightarrow> locs l \<Longrightarrow> budget n s \<Longrightarrow> os_get S l s = (r, t) \<Longrightarrow> budget n t"
    and budget_create: "vinv s \<Longrightarrow> locs l \<Longrightarrow> budget (Suc n) s \<Longrightarrow> os_create S l b s = (rc, t) \<Longrightarrow> budget n t"
    and budget_replace: "vinv s \<Longrightarrow> locs l \<Longrightarrow> budget (Suc n) s \<Longrightarrow> os_replace S l x b s = (rr, t) \<Longrightarrow> budget n t"
begin

definition ready :: "nat \<Rightarrow> 'a \<Rightarrow> bool" where
  "ready n s \<longleftrightarrow> vinv s \<and> budget n s"

lemma watched_get:
  assumes "ready n s" "locs l"
  shows "runs (expect msg (os_get (watched S) l)) (s, False)
    (\<lambda>x t. ready n t \<and> view t = view s \<and> x = view s l)"
  using assms get_law vinv_get budget_get vinv_inv
  by (fastforce simp: runs_def expect_def map_err_def watched_def ready_def split: prod.splits sum.splits)

lemma watched_create_absent:
  assumes "ready (Suc n) s" "locs l" "view s l = None"
  shows "runs (expect msg (os_create (watched S) l b)) (s, False)
    (\<lambda>v t. ready n t \<and> view t = (view s)(l \<mapsto> \<lparr>obj_bytes = b, obj_version = v\<rparr>))"
proof -
  have s: "vinv s" "inv s" "mintable s" "budget (Suc n) s" using assms(1) vinv_inv budget_mintable by (auto simp: ready_def)
  show ?thesis
    using vinv_create [OF s(1,3) assms(2)] budget_create [OF s(1) assms(2) s(4)] create_Ok [OF s(2) assms(2)]
      create_AlreadyExists [OF s(2) assms(2)] assms(3)
    by (fastforce simp: runs_def expect_def map_err_def watched_def ready_def split: prod.splits sum.splits CreateError.splits)
qed

lemma watched_create_present:
  assumes "ready (Suc n) s" "locs l" "view s l = Some obj"
  shows "runs (attempt (os_create (watched S) l b)) (s, False)
    (\<lambda>r t. ready n t \<and> view t = view s \<and> (\<exists>v. r = Err (Create_AlreadyExists v)))"
proof -
  have s: "vinv s" "inv s" "mintable s" "budget (Suc n) s" using assms(1) vinv_inv budget_mintable by (auto simp: ready_def)
  show ?thesis
    using vinv_create [OF s(1,3) assms(2)] budget_create [OF s(1) assms(2) s(4)] create_Ok [OF s(2) assms(2)]
      create_AlreadyExists [OF s(2) assms(2)] assms(3)
    by (fastforce simp: runs_def attempt_def watched_def ready_def split: prod.splits sum.splits CreateError.splits)
qed

lemma watched_replace_current:
  assumes "ready (Suc n) s" "locs l" "view s l = Some obj"
  shows "runs (expect msg (os_replace (watched S) l (obj_version obj) b)) (s, False)
    (\<lambda>v t. ready n t \<and> snap t l obj \<and> view t = (view s)(l \<mapsto> \<lparr>obj_bytes = b, obj_version = v\<rparr>))"
proof -
  have s: "vinv s" "inv s" "mintable s" "budget (Suc n) s" using assms(1) vinv_inv budget_mintable by (auto simp: ready_def)
  show ?thesis
    using vinv_replace [OF s(1,3) assms(2)] budget_replace [OF s(1) assms(2) s(4)] replace_Ok [OF s(2) assms(2)]
      replace_Conflict [OF s(2) assms(2)] snap_replace [OF s(1,3) snap_view [OF s(1) assms(3)] assms(2)] assms(3)
    by (fastforce simp: runs_def expect_def map_err_def watched_def ready_def split: prod.splits sum.splits ReplaceError.splits)
qed

lemma watched_replace_stale:
  assumes "ready (Suc n) s" "locs l" "view s l = Some obj'" "snap s l obj" "obj_bytes obj' \<noteq> obj_bytes obj"
  shows "runs (attempt (os_replace (watched S) l (obj_version obj) b)) (s, False)
    (\<lambda>r t. ready n t \<and> view t = view s \<and> r = Err (Replace_Conflict (Some (obj_version obj'))))"
proof -
  have s: "vinv s" "inv s" "mintable s" "budget (Suc n) s" using assms(1) vinv_inv budget_mintable by (auto simp: ready_def)
  have "obj_version obj' \<noteq> obj_version obj" using snap_agree [OF s(1) assms(4,3)] assms(5) by auto
  then show ?thesis
    using vinv_replace [OF s(1,3) assms(2)] budget_replace [OF s(1) assms(2) s(4)] replace_Ok [OF s(2) assms(2)]
      replace_Conflict [OF s(2) assms(2)] assms(3)
    by (fastforce simp: runs_def attempt_def watched_def ready_def split: prod.splits sum.splits ReplaceError.splits)
qed

text \<open>The test in three parts, from its end: the last read, the replacements, the creates.\<close>

lemma contract_final:
  assumes "ready 0 s" "locs l" "view s l = Some obj" "obj_bytes obj = byte_str ''two''"
  shows "runs (and_then (expect msg (os_get (watched S) l)) (\<lambda>found.
      and_then (expect_some msg' found) (\<lambda>obj.
      assert_that (obj_bytes obj = byte_str ''two'')))) (s, False) (\<lambda>_ t. vinv t \<and> view t = view s)"
  by (rule runs_and_then [OF watched_get [OF assms(1,2)]], (intro keeps_and_then keeps_tests))
    (use assms(3,4) in \<open>auto simp: ready_def runs_def and_then_def\<close>)

lemma contract_replacements:
  assumes "ready 2 s" "locs l" "view s l = Some \<lparr>obj_bytes = byte_str ''one'', obj_version = first\<rparr>"
  shows "runs (and_then (expect msg (os_replace (watched S) l first (byte_str ''two''))) (\<lambda>second.
      and_then (attempt (os_replace (watched S) l first (byte_str ''stale''))) (\<lambda>r.
      and_then (assert_that (case r of Err (Replace_Conflict (Some observed)) \<Rightarrow> observed = second | _ \<Rightarrow> False)) (\<lambda>_.
      and_then (expect msg' (os_get (watched S) l)) (\<lambda>found.
      and_then (expect_some msg'' found) (\<lambda>obj.
      assert_that (obj_bytes obj = byte_str ''two''))))))) (s, False)
    (\<lambda>_ t. vinv t \<and> (\<exists>v. view t = (view s)(l \<mapsto> \<lparr>obj_bytes = byte_str ''two'', obj_version = v\<rparr>)))"
proof (rule runs_and_then [where P = "\<lambda>v t. ready (Suc 0) t \<and> snap t l \<lparr>obj_bytes = byte_str ''one'', obj_version = first\<rparr> \<and>
    view t = (view s)(l \<mapsto> \<lparr>obj_bytes = byte_str ''two'', obj_version = v\<rparr>)"], goal_cases)
  case 1
  from assms(1) have "ready (Suc (Suc 0)) s" by (simp add: numeral_2_eq_2)
  from watched_replace_current [OF this assms(2,3)] show ?case by simp
next
  case (2 x)
  show ?case by (intro keeps_and_then keeps_tests keeps_watched)
next
  case (3 second t)
  let ?two = "\<lparr>obj_bytes = byte_str ''two'', obj_version = second\<rparr>"
  have t: "ready (Suc 0) t" "view t = (view s)(l \<mapsto> ?two)" "view t l = Some ?two"
    "snap t l \<lparr>obj_bytes = byte_str ''one'', obj_version = first\<rparr>"
    using 3 by simp_all
  show ?case
  proof (rule runs_and_then [where P = "\<lambda>r u. ready 0 u \<and> view u = view t \<and> r = Err (Replace_Conflict (Some second))"], goal_cases)
    case 1
    from watched_replace_stale [OF t(1) assms(2) t(3,4)] show ?case by (simp add: byte_str_def)
  next
    case (2 x)
    show ?case by (intro keeps_and_then keeps_tests keeps_watched)
  next
    case (3 r u)
    then have u: "ready 0 u" "view u = view t" "view u l = Some ?two" using t(3) by simp_all
    show ?case
    proof (rule runs_and_then [where P = "\<lambda>_ w. w = u"], goal_cases)
      case 1
      then show ?case using 3 runs_assert by simp
    next
      case (2 x)
      show ?case by (intro keeps_and_then keeps_tests keeps_watched)
    next
      case (3 x w)
      show ?case unfolding \<open>w = u\<close>
        by (rule runs_mono [OF contract_final [OF u(1) assms(2) u(3)]]) (auto simp: u(2) t(2))
    qed
  qed
qed

lemma contract_runs:
  assumes s: "ready 4 s" and l: "locs l" and absent: "view s l = None"
  shows "runs (assert_backend_contract (watched S) l) (s, False)
    (\<lambda>_ t. vinv t \<and> (\<exists>v. view t = (view s)(l \<mapsto> \<lparr>obj_bytes = byte_str ''two'', obj_version = v\<rparr>)))"
  unfolding assert_backend_contract_def
proof (rule runs_and_then [OF watched_get [OF s l]], goal_cases)
  case (1 x)
  show ?case by (intro keeps_and_then keeps_tests keeps_watched)
next
  case (2 found t)
  show ?case
  proof (rule runs_and_then [where P = "\<lambda>_ w. w = t"], goal_cases)
    case 1
    then show ?case using 2 absent runs_assert by simp
  next
    case (2 x)
    show ?case by (intro keeps_and_then keeps_tests keeps_watched)
  next
    case (3 x w)
    have w: "ready (Suc 3) w" "view w l = None" "view w = view s" using 3 2 absent by (simp_all add: eval_nat_numeral)
    show ?case
    proof (rule runs_and_then [OF watched_create_absent [OF w(1) l w(2)]], goal_cases)
      case (1 x)
      show ?case by (intro keeps_and_then keeps_tests keeps_watched)
    next
      case (2 first u)
      let ?one = "\<lparr>obj_bytes = byte_str ''one'', obj_version = first\<rparr>"
      have u: "ready (Suc 2) u" "view u l = Some ?one" "view u = (view s)(l \<mapsto> ?one)"
        using 2 w(3) by (simp_all add: eval_nat_numeral)
      show ?case
      proof (rule runs_and_then [OF watched_create_present [OF u(1) l u(2)]], goal_cases)
        case (1 x)
        show ?case by (intro keeps_and_then keeps_tests keeps_watched)
      next
        case (2 r y)
        then have y: "ready 2 y" "view y l = Some ?one" "view y = (view s)(l \<mapsto> ?one)" using u by simp_all
        have "runs (assert_that (case r of Err (Create_AlreadyExists _) \<Rightarrow> True | _ \<Rightarrow> False)) (y, False) (\<lambda>_ t. t = y)"
          using 2 runs_assert by auto
        then show ?case
          by (rule runs_and_then [OF _ _ runs_mono [OF contract_replacements]])
            (use y l in \<open>auto intro!: keeps_and_then keeps_tests keeps_watched\<close>)
      qed
    qed
  qed
qed

end

section \<open>Identifiers the filesystem store draws\<close>

definition draws :: "nat \<Rightarrow> (fs_state, 'e, 'a) comp \<Rightarrow> bool" where
  "draws n c \<longleftrightarrow> (\<forall>s r t. c s = (r, t) \<longrightarrow> fs_drawn t \<le> fs_drawn s + n)"

lemma draws_and_then:
  assumes "draws m c" "\<And>x. draws n (k x)" "m + n \<le> p"
  shows "draws p (and_then c k)"
  unfolding draws_def
proof (intro allI impI)
  fix s r t
  assume "and_then c k s = (r, t)"
  then show "fs_drawn t \<le> fs_drawn s + p"
    using assms unfolding draws_def by (cases rule: and_then_cases) force+
qed

lemma draws_snd: "draws n c \<longleftrightarrow> (\<forall>s. fs_drawn (snd (c s)) \<le> fs_drawn s + n)"
  unfolding draws_def by (metis surjective_pairing snd_conv)

lemma draws_simps [simp]:
  "draws n (Pair r)" "draws n (ok x)" "draws n (err e)" "draws n (lift_result r)" "draws n (map_err f c) = draws n c"
proof -
  have "snd (map_err f c s) = snd (c s)" for s by (simp add: map_err_def split: prod.splits sum.splits)
  then show "draws n (map_err f c) = draws n c" by (simp add: draws_snd)
qed (simp_all add: draws_snd ok_def err_def lift_result_def)

lemma draws_syscall:
  assumes "\<And>s r t. act s = (r, t) \<Longrightarrow> fs_drawn t = fs_drawn s" "\<And>k s. fs_drawn (damage k s) = fs_drawn s"
  shows "draws 0 (syscall damage act)"
  unfolding draws_def syscall_def
  by (auto split: list.splits option.splits fault.splits simp: assms(2) dest!: assms(1))

lemma fs_drawn_nodes [simp]:
  "fs_drawn (set_node p v s) = fs_drawn s" "fs_drawn (mark_dirty h s) = fs_drawn s" "fs_drawn (sync_node h s) = fs_drawn s"
  "fs_drawn (append_file h bs s) = fs_drawn s" "fs_drawn (unharmed k s) = fs_drawn s" "fs_drawn (unlock_file h m s) = fs_drawn s"
  by (simp_all add: set_node_def mark_dirty_def sync_node_def append_file_def unharmed_def unlock_file_def
      split: option.splits fs_node.splits)

lemma do_rename_drawn: "do_rename from to slash s = (r, t) \<Longrightarrow> fs_drawn t = fs_drawn s"
  by (auto simp: do_rename_def split: sum.splits option.splits fs_node.splits if_splits)

lemma draws_calls [simp]:
  "draws 0 (sys_symlink_metadata p)" "draws 0 (sys_read p slash)" "draws 0 (sys_mkdir p)" "draws 0 (sys_create_new p)"
  "draws 0 (sys_open_or_create p)" "draws 0 (sys_open p)" "draws 0 (write_all h bs)" "draws 0 (sync_all h)"
  "draws 0 (lock_file h mode)" "draws 0 (sys_rename p q slash)" "draws 0 (remove_file p)"
  unfolding sys_symlink_metadata_def sys_read_def sys_mkdir_def sys_create_new_def sys_open_or_create_def sys_open_def
    write_all_def sync_all_def lock_file_def sys_rename_def remove_file_def
  by (rule draws_syscall; auto split: sum.splits option.splits fs_node.splits if_splits
      dest: do_rename_drawn intro: do_rename_drawn [OF surjective_pairing])+

lemma is_dir_drawn: "is_dir p s = (b, t) \<Longrightarrow> fs_drawn t \<le> fs_drawn s"
proof -
  have "draws 0 (syscall unharmed (\<lambda>s. (case walk s p of Err e \<Rightarrow> (Err e, s)
        | Ok q \<Rightarrow> (case fs_tree s q of None \<Rightarrow> (Err IO_NotFound, s) | Some nd \<Rightarrow> (Ok nd, s)))))"
    by (rule draws_syscall) (auto split: sum.splits option.splits)
  then show "is_dir p s = (b, t) \<Longrightarrow> fs_drawn t \<le> fs_drawn s"
    unfolding draws_def is_dir_def by (fastforce split: prod.splits sum.splits)
qed

lemma draws_mkdir_or_dir:
  assumes "\<And>e. draws 0 (other e)"
  shows "draws 0 (mkdir_or_dir p other)"
  unfolding draws_def
proof (intro allI impI)
  fix s r t
  assume run: "mkdir_or_dir p other s = (r, t)"
  obtain q u where q: "sys_mkdir p s = (q, u)" by fastforce
  then have "fs_drawn u \<le> fs_drawn s" using draws_calls(3) [of p] unfolding draws_def by fastforce
  moreover have "fs_drawn t \<le> fs_drawn u"
    using run q assms is_dir_drawn [of p u]
    by (fastforce simp: mkdir_or_dir_def draws_def split: sum.splits if_splits prod.splits bool.splits)
  ultimately show "fs_drawn t \<le> fs_drawn s + 0" by simp
qed

lemma draws_create_dir_all [simp]: "draws 0 (create_dir_all p)"
proof -
  have "draws 0 (create_dirs cs)" for cs
  proof (induction cs)
    case (Cons c cs)
    have "draws 0 (\<lambda>t. case is_dir (rev (c # cs)) t of (True, t') \<Rightarrow> (Ok (), t') | (False, t') \<Rightarrow> (Err e, t'))" for e :: io_error
      using is_dir_drawn unfolding draws_def by (auto split: prod.splits bool.splits)
    with Cons show ?case
      unfolding create_dirs.simps by (intro draws_mkdir_or_dir draws_and_then [of 0 _ 0]) simp_all
  qed simp
  then show ?thesis by (simp add: create_dir_all_def)
qed

lemma draws_reject [simp]: "draws 0 (reject_existing_symlinks root path)"
proof -
  have "draws 0 (reject_loop cur cs)" for cur cs
    unfolding draws_def
  proof (intro allI impI)
    fix s r t
    show "reject_loop cur cs s = (r, t) \<Longrightarrow> fs_drawn t \<le> fs_drawn s + 0"
    proof (induction cur cs s rule: reject_loop.induct)
      case (2 cur c cs s)
      obtain q u where q: "sys_symlink_metadata (absolute (cur @ [c])) s = (q, u)" by fastforce
      then have "fs_drawn u \<le> fs_drawn s" using draws_calls(1) [of "absolute (cur @ [c])"] unfolding draws_def by fastforce
      then show ?case using 2 q by (fastforce split: sum.splits if_splits)
    qed simp
  qed
  then show ?thesis by (simp add: reject_existing_symlinks_def)
qed

lemma draws_with_lock:
  assumes "draws 0 acquire" "draws n body"
  shows "draws n (with_lock wrap acquire body)"
  unfolding with_lock_def
proof (rule draws_and_then [of 0 _ n])
  show "draws n (\<lambda>s. case body s of (r, t) \<Rightarrow> (r, unlock_file (lk_file lk) (lk_mode lk) t))" for lk
    using assms(2) by (auto simp: draws_def split: prod.splits)
qed (use assms(1) in simp_all)

lemma draws_paths [simp]:
  "draws 0 (object_path root l)" "draws 0 (prepare_path root l)" "draws 0 (ObjectLock_acquire path mode)"
  unfolding object_path_def prepare_path_def ObjectLock_acquire_def
  by (auto intro!: draws_and_then [of 0 _ 0])

lemma draws_read_path [simp]: "draws 0 (read_path Q path)"
  using draws_calls(2) [of "absolute (fp_names path)" "fp_slash path"]
  unfolding draws_def read_path_def by (fastforce split: prod.splits sum.splits if_splits)

lemma draws_encode_and_publish [simp]: "draws 2 (encode_and_publish Q path bs)"
proof -
  have pub: "draws 0 (publish_file parent temporary path encoded)" for parent temporary encoded
    unfolding publish_file_def by (simp, (intro draws_and_then [of 0 _ 0]; simp)+)
  have "draws 1 (publish Q path encoded)" for encoded
    unfolding publish_def
  proof (rule draws_and_then [of 0 _ 1])
    show "draws 1 (\<lambda>s. let (u, s1) = now_v7 s; temporary = parent @ [temporary_name Q u]
       in case publish_file parent temporary path encoded s1 of
          (Err e, t) \<Rightarrow> (Err e, snd (remove_file (absolute temporary) t)) | (Ok x, t) \<Rightarrow> (Ok x, t))" for parent
      unfolding draws_def
    proof (intro allI impI)
      fix s :: fs_state and r t
      let ?tmp = "parent @ [temporary_name Q (fs_uuids s (fs_drawn s))]"
      assume run: "(let (u, s1) = now_v7 s; temporary = parent @ [temporary_name Q u]
         in case publish_file parent temporary path encoded s1 of
            (Err e, t) \<Rightarrow> (Err e, snd (remove_file (absolute temporary) t)) | (Ok x, t) \<Rightarrow> (Ok x, t)) = (r, t)"
      obtain q u where q: "publish_file parent ?tmp path encoded (s\<lparr>fs_drawn := Suc (fs_drawn s)\<rparr>) = (q, u)" by fastforce
      have "fs_drawn u \<le> Suc (fs_drawn s)" using pub q unfolding draws_def by fastforce
      moreover have "fs_drawn (snd (remove_file p u)) \<le> fs_drawn u" for p
        using draws_calls(11) [of p] unfolding draws_def by (metis add_0_right surjective_pairing)
      ultimately show "fs_drawn t \<le> fs_drawn s + 1"
        using run q by (auto simp: now_v7_def split: sum.splits intro: order_trans)
    qed
  qed simp_all
  then have "draws 1 (and_then (publish Q path encoded) (\<lambda>_. ok version :: (fs_state, FsStoreError, Version) comp))" for encoded version
    by (rule draws_and_then) simp_all
  then show ?thesis
    unfolding draws_def encode_and_publish_def now_v7_def by (fastforce split: prod.splits)
qed

lemma draws_operations:
  "draws 0 (filesystem_get Q root l)" "draws 2 (filesystem_create Q root l bs)" "draws 2 (filesystem_replace Q root l x bs)"
  unfolding filesystem_get_def filesystem_create_def filesystem_replace_def
  by (intro draws_and_then [of 0 _ 0] draws_and_then [of 0 _ 2] draws_with_lock; simp split: option.splits)+

text \<open>Every write draws at most two identifiers.\<close>

interpretation fsct: contract_tested "filesystem_store Q st" "fs_view Q (fss_root st)"
    "fs_inv Q (fss_root st)" fs_location "fs_vinv Q (fss_root st)" "fs_snap Q (fss_root st)" fs_mintable
    "\<lambda>n s. inj_on (fs_uuids s) {..<fs_drawn s + 2 * n}"
  for Q st
proof (unfold_locales, goal_cases)
  case (1 n s)
  then show ?case by (auto simp: fs_mintable_def dest: inj_onD)
next
  case (2 s l n r t)
  then have "fs_uuids t = fs_uuids s"
    using filesystem_get_cases [of Q "fss_root st" l s r t] by (auto simp: fs_vinv_def fs_quiet_def)
  moreover have "fs_drawn t \<le> fs_drawn s"
    using 2 draws_operations(1) [of Q "fss_root st" l] by (fastforce simp: draws_def)
  ultimately show ?case using 2(3) by (auto elim!: inj_on_subset)
next
  case (3 s l n b rc t)
  then have "fs_uuids t = fs_uuids s"
    using filesystem_create_cases [of Q "fss_root st" l b s rc t]
    by (auto simp: fs_vinv_def write_outcome_def fs_quiet_def fs_writes_def)
  moreover have "fs_drawn t \<le> fs_drawn s + 2"
    using 3 draws_operations(2) [of Q "fss_root st" l b] by (auto simp: draws_def)
  ultimately show ?case using 3(3) by (auto elim!: inj_on_subset)
next
  case (4 s l n x b rr t)
  then have "fs_uuids t = fs_uuids s"
    using filesystem_replace_cases [of Q "fss_root st" l x b s rr t]
    by (auto simp: fs_vinv_def write_outcome_def fs_quiet_def fs_writes_def)
  moreover have "fs_drawn t \<le> fs_drawn s + 2"
    using 4 draws_operations(3) [of Q "fss_root st" l x b] by (auto simp: draws_def)
  ultimately show ?case using 4(3) by (auto elim!: inj_on_subset)
qed

lemma s3_contract_tested:
  assumes "s3_service_ok R V" "s3_undisturbed R V" "s3_content_etags R V h"
  shows "contract_tested (s3_store R cfg) (s3_view V cfg) (\<lambda>_. True) (\<lambda>_. True)
    (s3_vinv V h cfg) (s3_snap h) (\<lambda>_. True) (\<lambda>_ _. True)"
  by (intro contract_tested.intro s3_versioned_store [OF assms] contract_tested_axioms.intro TrueI)

section \<open>The watched run is the run\<close>

definition same_run :: "('s \<times> bool, 'e, 'a) comp \<Rightarrow> ('s, 'e, 'a) comp \<Rightarrow> bool" where
  "same_run c d \<longleftrightarrow> (\<forall>s f r t g. c (s, f) = (r, (t, g)) \<longrightarrow> d s = (r, t))"

lemma same_run_and_then:
  assumes "same_run m m'" "\<And>x. same_run (k x) (k' x)"
  shows "same_run (and_then m k) (and_then m' k')"
  unfolding same_run_def
proof (intro allI impI)
  fix s f r t g
  assume "and_then m k (s, f) = (r, (t, g))"
  then show "and_then m' k' s = (r, t)"
  proof (cases rule: and_then_cases)
    case (Err e)
    then have "m' s = (Err e, t)" using assms(1) unfolding same_run_def by blast
    then show ?thesis using Err(2) by (simp add: and_then_def)
  next
    case (Ok x u)
    then have "m' s = (Ok x, fst u)" "k' x (fst u) = (r, t)"
      using assms(1) assms(2) [of x] unfolding same_run_def by (metis prod.collapse)+
    then show ?thesis by (simp add: and_then_def)
  qed
qed

lemma same_run_tests:
  "same_run c d \<Longrightarrow> same_run (expect msg c) (expect msg d)" "same_run c d \<Longrightarrow> same_run (attempt c) (attempt d)"
  "same_run (assert_that b) (assert_that b)" "same_run (expect_some msg x) (expect_some msg x)"
  by (force simp: same_run_def expect_def expect_some_def attempt_def map_err_def assert_that_def lift_result_def ok_def err_def
      split: prod.splits sum.splits)+

lemma same_run_watched:
  "same_run (os_get (watched S) l) (os_get S l)" "same_run (os_create (watched S) l b) (os_create S l b)"
  "same_run (os_replace (watched S) l x b) (os_replace S l x b)"
  by (auto simp: same_run_def watched_def split: prod.splits sum.splits CreateError.splits ReplaceError.splits)

lemma same_run_contract: "same_run (assert_backend_contract (watched S) l) (assert_backend_contract S l)"
  unfolding assert_backend_contract_def
  by (intro same_run_and_then same_run_tests same_run_watched)

text \<open>
  \<open>contract_passed S view l s\<close>: the test, started in \<open>s\<close>, succeeds and leaves the object it wrote, or an
  operation of the backend reported a failure during the test.
\<close>

definition contract_passed ::
  "('s, 'e) object_store \<Rightarrow> ('s \<Rightarrow> Location \<Rightarrow> Object option) \<Rightarrow> Location \<Rightarrow> 's \<Rightarrow> bool" where
  "contract_passed S view l s \<longleftrightarrow>
     (case assert_backend_contract (watched S) l (s, False) of
        (r, (t, failed)) \<Rightarrow> assert_backend_contract S l s = (r, t) \<and>
          (failed \<or> r = Ok () \<and> (\<exists>v. view t = (view s)(l \<mapsto> \<lparr>obj_bytes = byte_str ''two'', obj_version = v\<rparr>))))"

lemma contract_passedI:
  assumes "runs (assert_backend_contract (watched S) l) (s, False)
    (\<lambda>_ t. I t \<and> (\<exists>v. view t = (view s)(l \<mapsto> \<lparr>obj_bytes = byte_str ''two'', obj_version = v\<rparr>)))"
  shows "contract_passed S view l s"
proof -
  obtain r t f where run: "assert_backend_contract (watched S) l (s, False) = (r, (t, f))" by (metis surj_pair)
  then have "assert_backend_contract S l s = (r, t)"
    using same_run_contract [of S l] unfolding same_run_def by blast
  with run assms show ?thesis by (auto simp: contract_passed_def runs_def)
qed

lemma memory_contract:
  assumes "memory_view s l = None"
  shows "\<exists>t v. assert_backend_contract memory_store l s = (Ok (), t) \<and>
    memory_view t = (memory_view s)(l \<mapsto> \<lparr>obj_bytes = byte_str ''two'', obj_version = v\<rparr>)"
proof -
  have ne: "show_word (st_next_version s + 1) \<noteq> show_word (st_next_version s + 1 + 1)" by simp
  show ?thesis
    using assms ne
    by (simp add: assert_backend_contract_def and_then_def expect_def expect_some_def map_err_def attempt_def assert_that_def ok_def
        lift_result_def ok_or_def memory_defs fun_eq_iff)
qed

text \<open>
  C22: every backend passes its contract test. The in-memory store always does, also when its version
  counter wraps. The filesystem store, under every sequence of system-call failures, and the S3 store
  fail it only if one of their operations reported a failure of the backend; without one, the test
  succeeds and the location holds its last object, all others being as before.
\<close>

theorem backend_contract_holds:
  "(memory_view m l = None \<longrightarrow>
      (\<exists>t v. assert_backend_contract memory_store l m = (Ok (), t) \<and>
         memory_view t = (memory_view m)(l \<mapsto> \<lparr>obj_bytes = byte_str ''two'', obj_version = v\<rparr>))) \<and>
   (fs_vinv Q (fss_root st) s \<longrightarrow> fs_location l \<longrightarrow> inj_on (fs_uuids s) {..<fs_drawn s + 8} \<longrightarrow>
      fs_view Q (fss_root st) s l = None \<longrightarrow>
      contract_passed (filesystem_store Q st) (fs_view Q (fss_root st)) l s) \<and>
   (s3_service_ok R V \<longrightarrow> s3_undisturbed R V \<longrightarrow> s3_content_etags R V h \<longrightarrow> s3_vinv V h cfg u \<longrightarrow>
      s3_view V cfg u l = None \<longrightarrow> contract_passed (s3_store R cfg) (s3_view V cfg) l u)"
proof (intro conjI impI)
  assume "memory_view m l = None"
  then show "\<exists>t v. assert_backend_contract memory_store l m = (Ok (), t) \<and>
         memory_view t = (memory_view m)(l \<mapsto> \<lparr>obj_bytes = byte_str ''two'', obj_version = v\<rparr>)"
    by (rule memory_contract)
next
  assume "fs_vinv Q (fss_root st) s" "fs_location l" "inj_on (fs_uuids s) {..<fs_drawn s + 8}"
    "fs_view Q (fss_root st) s l = None"
  then show "contract_passed (filesystem_store Q st) (fs_view Q (fss_root st)) l s"
    by (intro contract_passedI [OF fsct.contract_runs]) (simp_all add: fsct.ready_def)
next
  assume s3: "s3_service_ok R V" "s3_undisturbed R V" "s3_content_etags R V h" "s3_vinv V h cfg u" "s3_view V cfg u l = None"
  note laws = s3_contract_tested [OF s3(1-3), of cfg]
  from contract_tested.contract_runs [OF laws, of u l] show "contract_passed (s3_store R cfg) (s3_view V cfg) l u"
    using s3(4,5) contract_tested.ready_def [OF laws] by (intro contract_passedI) simp
qed

theorem backend_contract_holds_witness:
  "(\<exists>t v. assert_backend_contract memory_store (Location ''a'') State_default = (Ok (), t) \<and>
      memory_view t = [Location ''a'' \<mapsto> \<lparr>obj_bytes = byte_str ''two'', obj_version = v\<rparr>]) \<and>
   contract_passed (filesystem_store sample_uuid_ops \<lparr>fss_root = [''srv'']\<rparr>) (fs_view sample_uuid_ops [''srv''])
     (Location ''a'') sample_fs \<and>
   contract_passed (s3_store sample_requests sample_config) (s3_view (\<lambda>s. s) sample_config) (Location ''a'') Map.empty"
proof -
  have mem: "memory_view State_default = Map.empty" by (simp add: memory_view_def State_default_def fun_eq_iff)
  have loc: "fs_location (Location ''a'')" by code_simp
  have "fs_view sample_uuid_ops [''srv''] sample_fs (Location ''a'') = None" using loc by (simp add: sample_view)
  moreover have "inj_on (fs_uuids sample_fs) {..<fs_drawn sample_fs + 8}"
    by (auto simp: sample_fs_def inj_on_def word_of_nat_eq_iff take_bit_nat_eq_self)
  ultimately show ?thesis
    using backend_contract_holds [where m = State_default and l = "Location ''a''" and s = sample_fs and Q = sample_uuid_ops
        and st = "\<lparr>fss_root = [''srv'']\<rparr>" and R = sample_requests and V = "\<lambda>s. s" and h = sample_etag
        and cfg = sample_config and u = Map.empty]
      mem loc sample_fs_vinv sample_service_ok sample_undisturbed sample_content_etags
    by (simp add: s3_vinv_def s3_view_def)
qed

end
