(* ===== verification/Filesystem_Crash.thy ===== *)
theory Filesystem_Crash
  imports Filesystem_Properties
begin

text \<open>
  Crashes of the machine under the filesystem store. After a crash every directory entry is one that
  the disk may hold, independently of the others, and of a file that was not synced anything may be
  there. \<open>publish\<close> syncs the temporary file before the rename and the directory after it: a write
  that was answered is on the disk, and one that was cut off leaves the old object or the whole new
  one, provided the directories above the object are on the disk. The store does not sync the
  directories it makes itself.
\<close>

section \<open>Crashes\<close>

text \<open>What is left of the entries on the disk: those whose directories are there.\<close>

definition reachable :: "fs_tree \<Rightarrow> fs_tree" where
  "reachable D p = (if \<forall>n < length p. D (take n p) = Some Dir then D p else None)"

text \<open>The machine after a restart: no lock is held, and the disk is the tree.\<close>

inductive crash :: "fs_state \<Rightarrow> fs_state \<Rightarrow> bool" where
  "\<forall>p. may_hold (fs_disk s) p (D p) \<Longrightarrow> reachable D cwd = Some Dir \<Longrightarrow>
   crash s \<lparr>fs_tree = reachable D,
     fs_disk = \<lparr>dk_entry = (\<lambda>p v. v = reachable D p), dk_dirty = (\<lambda>_. False)\<rparr>,
     fs_cwd = cwd, fs_faults = fs, fs_locks = [], fs_uuids = fs_uuids s, fs_drawn = fs_drawn s\<rparr>"

definition dirs_on_disk :: "fs_state \<Rightarrow> string list \<Rightarrow> bool" where
  "dirs_on_disk s d \<longleftrightarrow> (\<forall>n \<le> length d. \<forall>v. may_hold (fs_disk s) (take n d) v \<longrightarrow> v = Some Dir)"

lemma reachable_wf: "reachable D [] = Some Dir \<Longrightarrow> fs_wf (reachable D)"
  by (auto simp: fs_wf_def reachable_def less_Suc_eq_le split: if_splits)

lemma reachable_below:
  assumes "\<forall>n \<le> length d. D (take n d) = Some Dir"
  shows "reachable D [] = Some Dir" "n \<le> length d \<Longrightarrow> reachable D (take n d) = Some Dir"
    "reachable D (d @ [c]) = D (d @ [c])"
  using assms by (auto simp: reachable_def min_def less_Suc_eq_le dest: spec [of _ 0])

text \<open>After a crash a location whose directories are on the disk shows an entry the disk may hold.\<close>

lemma crash_view:
  assumes "crash t t'" "dirs_on_disk t (root @ butlast (fs_names l))" "fs_location l"
  shows "\<exists>v. may_hold (fs_disk t) (root @ fs_names l) v \<and> fs_view Q root t' l = fs_object Q v"
  using assms(1)
proof cases
  case (1 D cwd fs)
  let ?d = "root @ butlast (fs_names l)"
  have "\<forall>n \<le> length ?d. D (take n ?d) = Some Dir" using assms(2) 1(2) by (auto simp: dirs_on_disk_def)
  from reachable_below(3) [OF this, of "last (fs_names l)"]
  have "fs_tree t' (root @ fs_names l) = D (root @ fs_names l)" using 1(1) by simp
  with 1(2) assms(3) show ?thesis by (auto simp: fs_view_def)
qed

lemma crash_inv:
  assumes "crash t t'" "dirs_on_disk t (root @ xs)" "uuid_ops_ok Q"
  shows "fs_inv Q root t'"
  using assms(1)
proof cases
  case (1 D cwd fs)
  let ?d = "root @ xs"
  have dirs: "\<forall>n \<le> length ?d. D (take n ?d) = Some Dir" using assms(2) 1(2) by (auto simp: dirs_on_disk_def)
  have "reachable D root = Some Dir" using reachable_below(2) [OF dirs, of "length root"] by simp
  with 1 reachable_wf [OF reachable_below(1) [OF dirs]] assms(3) show ?thesis by (simp add: fs_inv_def fs_ok_def)
qed

section \<open>What a write does to the disk\<close>

lemma dirs_in_tree: "disk_sound s \<Longrightarrow> dirs_on_disk s d \<Longrightarrow> n \<le> length d \<Longrightarrow> fs_tree s (take n d) = Some Dir"
  by (auto simp: disk_sound_def dirs_on_disk_def may_hold_def)

lemma disk_put_dirs:
  assumes "disk_put p enc s t" "disk_sound s" "dirs_on_disk s d"
  shows "dirs_on_disk t d"
  unfolding dirs_on_disk_def
proof (intro allI impI)
  fix n v
  assume n: "n \<le> length d" "may_hold (fs_disk t) (take n d) v"
  have tree: "fs_tree s (take n d) = Some Dir" using dirs_in_tree [OF assms(2,3) n(1)] .
  then have "may_hold (fs_disk s) (take n d) v \<or> v = Some Dir"
    using assms(1) n(2) unfolding disk_put_def by (metis option.distinct(1))
  then show "v = Some Dir" using assms(3) n(1) by (auto simp: dirs_on_disk_def)
qed

lemma disk_kept_puts: "disk_kept s t \<Longrightarrow> disk_put p enc s t"
  unfolding disk_kept_def disk_put_def by blast

lemma disk_put_entry:
  assumes "disk_put p enc s t" "settled s q" "\<not> own_path q" "may_hold (fs_disk t) q v"
  shows "fs_object Q v = fs_object Q (fs_tree s q) \<or> q = p \<and> v = Some (File enc)"
  using assms unfolding disk_put_def settled_def by (metis fs_object_simps(1-3))

lemma fs_object_next_file:
  "uuid_ops_ok Q \<Longrightarrow> fs_object Q (Some (File (fs_next_file Q s bs))) =
     Some \<lparr>obj_bytes = bs, obj_version = fs_next_version Q s\<rparr>"
  using fs_decode_encode [of Q "fs_uuids s (fs_drawn s)" bs]
  by (simp add: fs_object_def fs_next_file_def fs_next_version_def fs_encode_def)

text \<open>
  What may be left of a write of \<open>bs\<close> to \<open>l\<close> after a crash: the answered version, if there was an
  answer; the old object or all of the new bytes, if the old object was on the disk; and every
  other object that was on the disk.
\<close>

definition survives ::
  "uuid_ops \<Rightarrow> string list \<Rightarrow> Location \<Rightarrow> bytes \<Rightarrow> fs_state \<Rightarrow> 'e + Version \<Rightarrow> fs_state \<Rightarrow> bool" where
  "survives Q root l bs s r t' \<longleftrightarrow> fs_inv Q root t' \<and>
     (\<forall>v. r = Ok v \<longrightarrow> fs_view Q root t' l = Some \<lparr>obj_bytes = bs, obj_version = v\<rparr>) \<and>
     (settled s (root @ fs_names l) \<longrightarrow> fs_view Q root t' l = fs_view Q root s l \<or>
        (\<exists>v. fs_view Q root t' l = Some \<lparr>obj_bytes = bs, obj_version = v\<rparr>)) \<and>
     (\<forall>l'. l' \<noteq> l \<longrightarrow> fs_location l' \<longrightarrow> dirs_on_disk s (root @ butlast (fs_names l')) \<longrightarrow>
        settled s (root @ fs_names l') \<longrightarrow> fs_view Q root t' l' = fs_view Q root s l')"

lemma write_outcome_survives:
  assumes out: "write_outcome W decide answer Q root l bs s r t"
    and inv: "fs_inv Q root s" and sound: "disk_sound s" and loc: "fs_location l"
    and dirs: "dirs_on_disk s (root @ butlast (fs_names l))" and crash: "crash t t'"
  shows "survives Q root l bs s r t'"
proof -
  let ?new = "\<lparr>obj_bytes = bs, obj_version = fs_next_version Q s\<rparr>"
  have Q: "uuid_ops_ok Q" using inv by (simp add: fs_inv_def)
  have put: "disk_put (root @ fs_names l) (fs_next_file Q s bs) s t"
    using out disk_kept_puts by (auto simp: write_outcome_def fs_quiet_def fs_writes_def)
  note kept = disk_put_dirs [OF put sound]
  have shown: "fs_view Q root t' l' = fs_view Q root s l' \<or> l' = l \<and> fs_view Q root t' l' = Some ?new"
    if l': "fs_location l'" "dirs_on_disk s (root @ butlast (fs_names l'))" "settled s (root @ fs_names l')" for l'
  proof -
    obtain v where v: "may_hold (fs_disk t) (root @ fs_names l') v" "fs_view Q root t' l' = fs_object Q v"
      using crash_view [OF crash kept [OF l'(2)] l'(1)] by blast
    from disk_put_entry [OF put l'(3) location_not_own [OF l'(1)] v(1), of Q] v(2)
    show ?thesis using fs_object_next_file [OF Q, of s bs] l'(1) by (auto simp: fs_view_def fs_names_inj)
  qed
  have "fs_view Q root t' l = Some \<lparr>obj_bytes = bs, obj_version = v\<rparr>" if "r = Ok v" for v
  proof -
    have t: "settled t (root @ fs_names l)" "fs_writes Q root l bs s t" "v = fs_next_version Q s"
      using out that by (auto simp: write_outcome_def)
    obtain x where x: "may_hold (fs_disk t) (root @ fs_names l) x" "fs_view Q root t' l = fs_object Q x"
      using crash_view [OF crash kept [OF dirs] loc] by blast
    then have "fs_view Q root t' l = fs_view Q root t l" using t(1) loc by (simp add: settled_def fs_view_def)
    with t(2,3) show ?thesis by (simp add: fs_writes_def)
  qed
  with crash_inv [OF crash kept [OF dirs] Q] shown loc dirs show ?thesis
    unfolding survives_def by blast
qed

section \<open>Writes and crashes\<close>

text \<open>
  C15: a write that was answered survives a crash of the machine, and a write that the crash cut off leaves
  the old object or all of the new bytes, never a torn file: if the directories above the object are
  on the disk, then whatever a crash leaves after a \<open>create\<close> or a \<open>replace\<close>, wherever a call failed in
  it, the store is well formed, an answer \<open>Ok\<close> means the new bytes are there under the answered
  version, and other objects that were on the disk are there. (A crash in the middle of a write
  is a crash after a run in which every later call fails.)
\<close>

theorem filesystem_writes_survive_crash:
  assumes "fs_inv Q root s" "disk_sound s" "fs_location l" "dirs_on_disk s (root @ butlast (fs_names l))"
  shows "(\<forall>r t t'. filesystem_create Q root l bs s = (r, t) \<longrightarrow> crash t t' \<longrightarrow> survives Q root l bs s r t') \<and>
    (\<forall>r t t'. filesystem_replace Q root l expected bs s = (r, t) \<longrightarrow> crash t t' \<longrightarrow> survives Q root l bs s r t')"
  using write_outcome_survives [OF filesystem_create_cases [OF _ assms(1,3)] assms]
    write_outcome_survives [OF filesystem_replace_cases [OF _ assms(1,3)] assms]
  by blast

lemma crash_tree: "disk_sound s \<Longrightarrow> fs_wf (fs_tree s) \<Longrightarrow> \<exists>s'. crash s s'"
  using crash.intros [of s "fs_tree s" "[]"] by (fastforce simp: disk_sound_def may_hold_def reachable_def fs_wf_def)

lemma sample_fs_disk:
  "disk_sound sample_fs" "settled sample_fs p" "sample_tree d = Some Dir \<Longrightarrow> dirs_on_disk sample_fs d"
proof -
  show "disk_sound sample_fs" "settled sample_fs p"
    by (simp_all add: sample_fs_def disk_sound_def settled_def may_hold_def)
  show "dirs_on_disk sample_fs d" if "sample_tree d = Some Dir"
    using fs_wf_prefix [OF sample_tree_wf that] by (simp add: dirs_on_disk_def sample_fs_def may_hold_def take_is_prefix)
qed

theorem filesystem_writes_survive_crash_witness:
  "\<exists>v t t'. filesystem_replace sample_uuid_ops [''srv''] jobs (obj_version sample_object) [1, 2] sample_fs = (Ok v, t) \<and>
    crash t t' \<and> fs_view sample_uuid_ops [''srv''] t' jobs = Some \<lparr>obj_bytes = [1, 2], obj_version = v\<rparr>"
proof -
  obtain v t where run: "filesystem_replace sample_uuid_ops [''srv''] jobs (obj_version sample_object) [1, 2] sample_fs = (Ok v, t)"
    using filesystem_replace_ready [OF sample_fs_ready sample_jobs_view] by blast
  have "sample_tree ([''srv''] @ butlast (fs_names jobs)) = Some Dir" by (simp add: jobs_names sample_tree_def)
  note surv = filesystem_writes_survive_crash [OF sample_fs_inv sample_fs_disk(1) jobs_location sample_fs_disk(3) [OF this]]
  have "disk_sound t \<and> fs_wf (fs_tree t)"
    using filesystem_replace_cases [OF run sample_fs_inv jobs_location] sample_fs_disk(1)
    by (auto simp: write_outcome_def fs_writes_def disk_put_def fs_inv_def fs_ok_def)
  then obtain t' where "crash t t'" using crash_tree by blast
  with surv run show ?thesis unfolding survives_def by blast
qed

section \<open>Directories the store makes\<close>

text \<open>
  C35: a \<open>create\<close> that was answered can be lost in a crash if it had to make the object's directory:
  \<open>prepare_path\<close> makes directories with \<open>create_dir_all\<close> and \<open>publish\<close> syncs only the directory that
  holds the object, not the ones above, in which the new directory is an entry. If the
  object's directory was missing and \<open>create\<close> answers \<open>Ok\<close>, then there is a crash after which the
  store is well formed and the location is empty.
\<close>

theorem filesystem_create_loses_new_directory:
  assumes "fs_inv Q root s" "disk_sound s" "fs_location l"
    and "fs_tree s (root @ butlast (fs_names l)) = None" "\<not> own_path (root @ butlast (fs_names l))"
    and "filesystem_create Q root l bs s = (Ok v, t)"
  shows "fs_view Q root t l = Some \<lparr>obj_bytes = bs, obj_version = v\<rparr> \<and>
    (\<exists>t'. crash t t' \<and> fs_inv Q root t' \<and> fs_view Q root t' l = None)"
proof -
  let ?d = "root @ butlast (fs_names l)"
  have w: "fs_writes Q root l bs s t" "v = fs_next_version Q s"
    using filesystem_create_cases [OF assms(6,1,3)] by (auto simp: write_outcome_def)
  then have t: "disk_sound t" "fs_wf (fs_tree t)" "fs_tree t root = Some Dir"
    using assms(2) by (auto simp: fs_writes_def disk_put_def fs_inv_def fs_ok_def)
  have ne: "butlast (fs_names l) \<noteq> []" "?d \<noteq> []" using assms(1,4) by (auto simp: fs_inv_def)
  have "may_hold (fs_disk s) ?d None" using assms(2,4) unfolding disk_sound_def may_hold_def by metis
  moreover have "butlast ?d \<noteq> butlast (root @ fs_names l)"
    using ne(1) by (cases "butlast (fs_names l)" rule: rev_cases) (auto simp: butlast_append)
  ultimately have lost: "may_hold (fs_disk t) ?d None"
    using w(1) assms(5) unfolding fs_writes_def disk_put_def by blast
  define D where "D = (fs_tree t)(?d := None)"
  have D: "\<forall>p. may_hold (fs_disk t) p (D p)" using t(1) lost by (auto simp: D_def disk_sound_def may_hold_def)
  have below: "D (take n root) = Some Dir" for n
  proof -
    have "length (take n root) < length ?d" using ne(1) by (cases "butlast (fs_names l)") auto
    then have "take n root \<noteq> ?d" by force
    then show ?thesis using fs_wf_prefix [OF t(2,3) take_is_prefix, of n] by (simp add: D_def)
  qed
  then have "reachable D [] = Some Dir" "reachable D root = Some Dir"
    using below [of 0] below [of "length root"] by (auto simp: reachable_def)
  moreover have "reachable D (root @ fs_names l) = None"
  proof -
    have "take (length ?d) (root @ fs_names l) = ?d" by (simp add: butlast_conv_take)
    moreover have "length ?d < length (root @ fs_names l)" by simp
    ultimately show ?thesis unfolding reachable_def D_def by (metis fun_upd_same option.distinct(1))
  qed
  moreover note crash.intros [OF D calculation(1), of "[]"]
  ultimately show ?thesis
    using w assms(1) reachable_wf by (fastforce simp: fs_writes_def fs_inv_def fs_ok_def fs_view_def)
qed

theorem filesystem_create_loses_new_directory_witness:
  "\<exists>v t t'. filesystem_create sample_uuid_ops [''srv''] (Location ''prod/maps/users.json'') [1, 2] sample_fs = (Ok v, t) \<and>
    crash t t' \<and> fs_view sample_uuid_ops [''srv''] t' (Location ''prod/maps/users.json'') = None"
proof -
  let ?l = "Location ''prod/maps/users.json''"
  have names: "fs_names ?l = [''prod'', ''maps'', ''users.json'']" unfolding fs_names_def by code_simp
  then have loc: "fs_location ?l" by (simp add: fs_location_def is_path_segment_def own_name_def)
  have free: "free_dirs sample_tree d" if "sample_tree d = Some Dir" for d
    using fs_wf_prefix [OF sample_tree_wf that] by (simp add: free_dirs_def)
  have tree: "sample_tree [''srv'', ''prod''] = Some Dir" "sample_tree [''srv'', ''.objsds-locks''] = Some Dir"
      "sample_tree [''srv'', ''prod'', ''maps''] = None" "sample_tree [''srv'', ''prod'', ''maps'', x] = None" for x
    by (simp_all add: sample_tree_def lock_path_def)
  have "free_dirs sample_tree [''srv'', ''prod'', ''maps'']"
    using free_dirs_snoc [of sample_tree "[''srv'', ''prod'']" "''maps''"] free tree by simp
  moreover have "file_or_none (sample_tree (lock_path [''srv''] ?l))"
    by (simp add: sample_tree_def lock_path_def file_or_none_def)
  ultimately have "fs_ready sample_uuid_ops [''srv''] ?l sample_fs"
    using sample_fs_inv loc free [OF tree(2)] tree by (simp add: fs_ready_def names sample_fs_def file_or_none_def)
  then obtain v t where run: "filesystem_create sample_uuid_ops [''srv''] ?l [1, 2] sample_fs = (Ok v, t)"
    using filesystem_create_ready tree names by (fastforce simp: sample_fs_def)
  have "fs_tree sample_fs ([''srv''] @ butlast (fs_names ?l)) = None" "\<not> own_path ([''srv''] @ butlast (fs_names ?l))"
    using tree by (simp_all add: names sample_fs_def own_path_def own_name_def)
  from filesystem_create_loses_new_directory [OF sample_fs_inv sample_fs_disk(1) loc this run] run show ?thesis by blast
qed

end
