(* ===== verification/Napi_Json.thy ===== *)
theory Napi_Json
  imports Map_Structure Log_Structure Queue_Structure Filesystem_Store S3_Store
begin

text \<open>
  The JSON exchange of the crate \<open>objsds-napi\<close>: results and errors cross to JavaScript as JSON
  text. \<open>json\<close> is the shape of what the code hands to \<open>serde_json\<close>; \<open>JVal\<close> is an application
  value. \<open>serde_json\<close>, the \<open>Display\<close> of foreign errors and the text of a UUID are the parameter
  \<open>napi_env\<close>.
\<close>

section \<open>JSON and foreign code\<close>

datatype 'v json =
    JNull | JBool bool | JNat nat | JStr string | JArr "'v json list" | JObj "(string \<times> 'v json) list" | JVal 'v

record ('v, 'j, 'x) napi_env =
  ne_to_string :: "'v json \<Rightarrow> 'j + string"
  ne_display_json :: "'v json \<Rightarrow> string"
  ne_from_str :: "string \<Rightarrow> 'j + 'v"
  ne_uuid_from_value :: "string \<Rightarrow> 'j + uuid"
  ne_display_error :: "'j \<Rightarrow> string"
  ne_uuid_string :: "uuid \<Rightarrow> string"
  ne_io_display :: "io_error \<Rightarrow> string"
  ne_never_display :: "Infallible \<Rightarrow> string"
  ne_s3_display :: "'x \<Rightarrow> string"
  ne_map_serde :: "('v, 'j) map_serde"
  ne_log_serde :: "('v, 'j) log_serde"
  ne_queue_serde :: "('v, 'j) queue_serde"

section \<open>Errors\<close>

datatype Status = GenericFailure

record NapiError =
  nerr_status :: Status
  nerr_reason :: string

definition binding_error :: "('v, 'j, 'x) napi_env \<Rightarrow> string \<Rightarrow> string \<Rightarrow> 'v json \<Rightarrow> NapiError" where
  "binding_error J code message details =
     (let envelope = JObj [(''code'', JStr code), (''message'', JStr message), (''details'', details)]
      in \<lparr>nerr_status = GenericFailure, nerr_reason = ''OBJSDS_ERR_JSON:'' @ ne_display_json J envelope\<rparr>)"

definition configuration_error :: "('v, 'j, 'x) napi_env \<Rightarrow> string \<Rightarrow> NapiError" where
  "configuration_error J text = binding_error J ''ERR_OBJSDS_INVALID_CONFIGURATION'' text (JObj [])"

definition invalid_handle :: "('v, 'j, 'x) napi_env \<Rightarrow> NapiError" where
  "invalid_handle J =
     binding_error J ''ERR_OBJSDS_INVALID_HANDLE'' ''native data-structure handle is invalid'' (JObj [])"

definition json_version :: "Version option \<Rightarrow> 'v json" where
  "json_version v = (case v of None \<Rightarrow> JNull | Some x \<Rightarrow> JStr (version_str x))"

text \<open>\<open>de\<close> is the \<open>Display\<close> of the backend's error.\<close>

fun operation_error :: "('v, 'j, 'x) napi_env \<Rightarrow> ('e \<Rightarrow> string) \<Rightarrow> ('j, 'e) Error \<Rightarrow> NapiError" where
  "operation_error J de (Error_Configuration e) = configuration_error J (display_BuildError e)"
| "operation_error J de (Error_Store e) = binding_error J ''ERR_OBJSDS_STORE'' (display_StoreError de e) (JObj [])"
| "operation_error J de (Error_Document e) =
     binding_error J ''ERR_OBJSDS_DOCUMENT'' (display_DocumentError (ne_display_error J) e) (JObj [])"
| "operation_error J de Error_NotFound =
     binding_error J ''ERR_OBJSDS_NOT_FOUND'' ''data structure does not exist'' (JObj [])"
| "operation_error J de (Error_AlreadyExists e) =
     binding_error J ''ERR_OBJSDS_ALREADY_EXISTS'' ''data structure already exists''
       (JObj [(''observedVersion'', JStr (version_str (ae_observed e)))])"
| "operation_error J de (Error_Conflict e) =
     binding_error J ''ERR_OBJSDS_CONFLICT'' ''object version conflict''
       (JObj [(''expectedVersion'', JStr (version_str (ce_expected e))),
              (''observedVersion'', json_version (ce_observed e))])"
| "operation_error J de (Error_Incompatible e) =
     binding_error J ''ERR_OBJSDS_INCOMPATIBLE'' (display_CompatibilityError e) (JObj [])"

fun queue_error :: "('v, 'j, 'x) napi_env \<Rightarrow> ('e \<Rightarrow> string) \<Rightarrow> ('j, 'e) QueueError \<Rightarrow> NapiError" where
  "queue_error J de (Q_Configuration e) = configuration_error J (display_QueueBuildError e)"
| "queue_error J de (Q_Store e) = binding_error J ''ERR_OBJSDS_STORE'' (de e) (JObj [])"
| "queue_error J de (Q_Document e) = binding_error J ''ERR_OBJSDS_DOCUMENT'' (ne_display_error J e) (JObj [])"
| "queue_error J de (Q_Corrupt reason) = binding_error J ''ERR_OBJSDS_DOCUMENT'' reason (JObj [])"
| "queue_error J de Q_NotFound =
     binding_error J ''ERR_OBJSDS_NOT_FOUND'' ''data structure does not exist'' (JObj [])"
| "queue_error J de (Q_AlreadyExists observed) =
     binding_error J ''ERR_OBJSDS_ALREADY_EXISTS'' ''data structure already exists''
       (JObj [(''observedVersion'', JStr (version_str observed))])"
| "queue_error J de (Q_Conflict expected observed) =
     binding_error J ''ERR_OBJSDS_CONFLICT'' ''object version conflict''
       (JObj [(''expectedVersion'', JStr (version_str expected)), (''observedVersion'', json_version observed)])"
| "queue_error J de (Q_Incompatible e) = binding_error J ''ERR_OBJSDS_INCOMPATIBLE'' e (JObj [])"
| "queue_error J de Q_InvalidLeaseDuration =
     binding_error J ''ERR_OBJSDS_INVALID_CONFIGURATION'' ''invalid lease duration'' (JObj [])"
| "queue_error J de Q_AttemptOverflow =
     binding_error J ''ERR_OBJSDS_DOCUMENT'' ''message claim count overflowed'' (JObj [])"

section \<open>Results and arguments\<close>

definition json_string :: "('v, 'j, 'x) napi_env \<Rightarrow> 'v json \<Rightarrow> NapiError + string" where
  "json_string J x =
     map_error (\<lambda>e. binding_error J ''ERR_OBJSDS_DOCUMENT''
       (''could not encode binding result: '' @ ne_display_error J e) (JObj [])) (ne_to_string J x)"

definition optional_json :: "('v, 'j, 'x) napi_env \<Rightarrow> 'v json option \<Rightarrow> NapiError + string" where
  "optional_json J x =
     (case x of
        Some y \<Rightarrow> json_string J (JObj [(''found'', JBool True), (''value'', y)])
      | None \<Rightarrow> json_string J (JObj [(''found'', JBool False)]))"

definition parse_value :: "('v, 'j, 'x) napi_env \<Rightarrow> string \<Rightarrow> NapiError + 'v" where
  "parse_value J text =
     map_error (\<lambda>e. binding_error J ''ERR_OBJSDS_INVALID_JSON''
       (''invalid JSON value: '' @ ne_display_error J e) (JObj [])) (ne_from_str J text)"

definition parse_log_id :: "('v, 'j, 'x) napi_env \<Rightarrow> string \<Rightarrow> NapiError + LogId" where
  "parse_log_id J i =
     map_sum (\<lambda>e. binding_error J ''ERR_OBJSDS_INVALID_LOG_ID''
       (''invalid log identifier: '' @ ne_display_error J e) (JObj [(''id'', JStr i)])) LogId (ne_uuid_from_value J i)"

definition parse_message_id :: "('v, 'j, 'x) napi_env \<Rightarrow> string \<Rightarrow> NapiError + MessageId" where
  "parse_message_id J i =
     map_sum (\<lambda>e. binding_error J ''ERR_OBJSDS_INVALID_MESSAGE_ID''
       (''invalid message identifier: '' @ ne_display_error J e) (JObj [(''id'', JStr i)])) MessageId
       (ne_uuid_from_value J i)"

definition parse_lease_token :: "('v, 'j, 'x) napi_env \<Rightarrow> string \<Rightarrow> NapiError + LeaseToken" where
  "parse_lease_token J token =
     map_sum (\<lambda>e. binding_error J ''ERR_OBJSDS_INVALID_LEASE_TOKEN''
       (''invalid lease token: '' @ ne_display_error J e) (JObj [(''token'', JStr token)])) LeaseToken
       (ne_uuid_from_value J token)"

text \<open>The derived \<open>Serialize\<close> of a log record and the JSON of a claim.\<close>

definition json_Record :: "('v, 'j, 'x) napi_env \<Rightarrow> 'v Record \<Rightarrow> 'v json" where
  "json_Record J r = JObj [(''id'', JStr (display_LogId (ne_uuid_string J) (rec_id r))), (''value'', JVal (rec_value r))]"

definition json_Claim :: "('v, 'j, 'x) napi_env \<Rightarrow> 'v Claim \<Rightarrow> 'v json" where
  "json_Claim J c =
     JObj [(''id'', JStr (display_MessageId (ne_uuid_string J) (cl_id c))), (''value'', JVal (cl_value c)),
           (''leaseToken'', JStr (display_LeaseToken (ne_uuid_string J) (cl_lease_token c))),
           (''attempt'', JNat (unat (cl_attempt c))),
           (''leaseExpiresAtMillis'', JNat (unat (cl_lease_expires_at_millis c)))]"

fun json_Ack :: "Ack \<Rightarrow> string" where
  "json_Ack Acknowledged = ''acknowledged''"
| "json_Ack Ack_NotFound = ''notFound''"
| "json_Ack LeaseMismatch = ''leaseMismatch''"
| "json_Ack LeaseExpired = ''leaseExpired''"

definition Duration_from_millis :: "u64 \<Rightarrow> Duration" where
  "Duration_from_millis ms =
     \<lparr>dur_secs = of_nat (unat ms div 1000), dur_nanos = of_nat (unat ms mod 1000 * 1000000)\<rparr>"

section \<open>Bound structures\<close>

text \<open>
  The trait objects: \<open>Arc<dyn BoundMap>\<close> is the record of the trait's methods. A fresh
  identifier and the clock's reading are arguments, as they are of the operations called.
\<close>

record ('w, 'v) BoundMap =
  bm_get_json :: "string \<Rightarrow> ('w, NapiError, string) comp"
  bm_entries_json :: "('w, NapiError, string) comp"
  bm_insert_json :: "string \<Rightarrow> 'v \<Rightarrow> ('w, NapiError, string) comp"
  bm_insert_if_absent_json :: "string \<Rightarrow> 'v \<Rightarrow> ('w, NapiError, string) comp"
  bm_remove_json :: "string \<Rightarrow> ('w, NapiError, string) comp"

record ('w, 'v) BoundLog =
  bl_append_json :: "uuid \<Rightarrow> 'v \<Rightarrow> ('w, NapiError, string) comp"
  bl_get_json :: "LogId \<Rightarrow> ('w, NapiError, string) comp"
  bl_records_json :: "('w, NapiError, string) comp"
  bl_records_after_json :: "LogId \<Rightarrow> ('w, NapiError, string) comp"

record ('w, 'v) BoundQueue =
  bq_publish_json :: "uuid \<Rightarrow> 'v \<Rightarrow> ('w, NapiError, string) comp"
  bq_claim_json :: "(SystemClock \<Rightarrow> u64) \<Rightarrow> uuid \<Rightarrow> u64 \<Rightarrow> ('w, NapiError, string) comp"
  bq_ack_json :: "(SystemClock \<Rightarrow> u64) \<Rightarrow> MessageId \<Rightarrow> LeaseToken \<Rightarrow> ('w, NapiError, string) comp"
  bq_len_json :: "('w, NapiError, string) comp"
  bq_is_empty_json :: "('w, NapiError, string) comp"

definition answer :: "('e \<Rightarrow> NapiError) \<Rightarrow> ('w, 'e, 'a) comp \<Rightarrow> ('a \<Rightarrow> NapiError + string) \<Rightarrow> ('w, NapiError, string) comp" where
  "answer er c render = and_then (map_err er c) (\<lambda>x. lift_result (render x))"

definition map_get_json where
  "map_get_json J de m key =
     answer (operation_error J de) (map_get (ne_map_serde J) m key) (\<lambda>x. optional_json J (map_option JVal x))"

definition map_entries_json where
  "map_entries_json J de m =
     answer (operation_error J de) (map_entries (ne_map_serde J) m)
       (\<lambda>es. json_string J (JArr (map (\<lambda>(k, v). JArr [JStr k, JVal v]) es)))"

definition map_insert_json where
  "map_insert_json J de m key v =
     answer (operation_error J de) (map_insert (ne_map_serde J) m key v)
       (\<lambda>version. json_string J (JStr (version_str version)))"

definition map_insert_if_absent_json where
  "map_insert_if_absent_json J de m key v =
     answer (operation_error J de) (map_insert_if_absent (ne_map_serde J) m key v)
       (\<lambda>result. json_string J
         (case result of
            Inserted version \<Rightarrow> JObj [(''inserted'', JBool True), (''version'', JStr (version_str version))]
          | Occupied value \<Rightarrow> JObj [(''inserted'', JBool False), (''value'', JVal value)]))"

definition map_remove_json where
  "map_remove_json J de m key =
     answer (operation_error J de) (map_remove (ne_map_serde J) m key) (\<lambda>x. optional_json J (map_option JVal x))"

definition BoundMap_of ::
  "('v, 'j, 'x) napi_env \<Rightarrow> ('e \<Rightarrow> string) \<Rightarrow> ('w, 'e) Map \<Rightarrow> ('w, 'v) BoundMap" where
  "BoundMap_of J de m =
     \<lparr>bm_get_json = map_get_json J de m, bm_entries_json = map_entries_json J de m,
      bm_insert_json = map_insert_json J de m, bm_insert_if_absent_json = map_insert_if_absent_json J de m,
      bm_remove_json = map_remove_json J de m\<rparr>"

definition log_append_json where
  "log_append_json J de g fresh v =
     answer (operation_error J de) (log_append (ne_log_serde J) g fresh v)
       (\<lambda>i. json_string J (JStr (display_LogId (ne_uuid_string J) i)))"

definition log_get_json where
  "log_get_json J de g i =
     answer (operation_error J de) (log_get (ne_log_serde J) g i) (\<lambda>x. optional_json J (map_option (json_Record J) x))"

definition log_records_json where
  "log_records_json J de g =
     answer (operation_error J de) (log_records (ne_log_serde J) g) (\<lambda>rs. json_string J (JArr (map (json_Record J) rs)))"

definition log_records_after_json where
  "log_records_after_json J de g i =
     answer (operation_error J de) (log_records_after (ne_log_serde J) g i)
       (\<lambda>rs. json_string J (JArr (map (json_Record J) rs)))"

definition BoundLog_of ::
  "('v, 'j, 'x) napi_env \<Rightarrow> ('e \<Rightarrow> string) \<Rightarrow> ('w, 'e) Log \<Rightarrow> ('w, 'v) BoundLog" where
  "BoundLog_of J de g =
     \<lparr>bl_append_json = log_append_json J de g, bl_get_json = log_get_json J de g,
      bl_records_json = log_records_json J de g, bl_records_after_json = log_records_after_json J de g\<rparr>"

definition queue_publish_json where
  "queue_publish_json J de q fresh v =
     answer (queue_error J de) (queue_publish (ne_queue_serde J) q fresh v)
       (\<lambda>i. json_string J (JStr (display_MessageId (ne_uuid_string J) i)))"

definition queue_claim_json where
  "queue_claim_json J de q now fresh millis =
     answer (queue_error J de) (queue_claim (ne_queue_serde J) q now fresh (Duration_from_millis millis))
       (\<lambda>claim. optional_json J (map_option (json_Claim J) claim))"

definition queue_ack_json where
  "queue_ack_json J de q now i token =
     answer (queue_error J de) (queue_ack (ne_queue_serde J) q now i token) (\<lambda>a. json_string J (JStr (json_Ack a)))"

definition queue_len_json where
  "queue_len_json J de q = answer (queue_error J de) (queue_len (ne_queue_serde J) q) (\<lambda>n. json_string J (JNat n))"

definition queue_is_empty_json where
  "queue_is_empty_json J de q =
     answer (queue_error J de) (queue_is_empty (ne_queue_serde J) q) (\<lambda>b. json_string J (JBool b))"

definition BoundQueue_of ::
  "('v, 'j, 'x) napi_env \<Rightarrow> ('e \<Rightarrow> string) \<Rightarrow> ('w, 'e, SystemClock) Queue \<Rightarrow> ('w, 'v) BoundQueue" where
  "BoundQueue_of J de q =
     \<lparr>bq_publish_json = queue_publish_json J de q, bq_claim_json = queue_claim_json J de q,
      bq_ack_json = queue_ack_json J de q, bq_len_json = queue_len_json J de q,
      bq_is_empty_json = queue_is_empty_json J de q\<rparr>"

end
