(* ===== verification/Napi_Binding.thy ===== *)
theory Napi_Binding
  imports Napi_Json
begin

text \<open>
  The crate \<open>objsds-napi\<close>: clients, the registry of handles, the operations of a worker-pool task
  and the methods JavaScript calls. The stores of all clients live in one \<open>world\<close>; a store is
  lifted to it with its place in the world. The registry and the world are the state of
  \<open>execute\<close>; its mutexes make each access to a registry atomic and are recovered when poisoned, so
  they do not show.
\<close>

section \<open>Stores in the world\<close>

record 'z world =
  w_fs :: fs_state
  w_memories :: "State list"
  w_s3 :: 'z

definition lift_comp :: "('w \<Rightarrow> 's) \<Rightarrow> ('s \<Rightarrow> 'w \<Rightarrow> 'w) \<Rightarrow> ('s, 'e, 'a) comp \<Rightarrow> ('w, 'e, 'a) comp" where
  "lift_comp get put c w = (case c (get w) of (r, s) \<Rightarrow> (r, put s w))"

definition lift_store :: "('w \<Rightarrow> 's) \<Rightarrow> ('s \<Rightarrow> 'w \<Rightarrow> 'w) \<Rightarrow> ('s, 'e) object_store \<Rightarrow> ('w, 'e) object_store" where
  "lift_store get put S =
     \<lparr>os_get = (\<lambda>l. lift_comp get put (os_get S l)),
      os_create = (\<lambda>l b. lift_comp get put (os_create S l b)),
      os_replace = (\<lambda>l v b. lift_comp get put (os_replace S l v b))\<rparr>"

text \<open>A \<open>MemoryStore\<close> is shared by its clones: it is a place among the memories.\<close>

definition memory_at :: "nat \<Rightarrow> ('z world, Infallible) object_store" where
  "memory_at i = lift_store (\<lambda>w. w_memories w ! i) (\<lambda>s w. w\<lparr>w_memories := (w_memories w)[i := s]\<rparr>) memory_store"

definition filesystem_at :: "uuid_ops \<Rightarrow> FilesystemStore \<Rightarrow> ('z world, FsStoreError) object_store" where
  "filesystem_at Q st = lift_store w_fs (\<lambda>s w. w\<lparr>w_fs := s\<rparr>) (filesystem_store Q st)"

definition s3_at :: "('z, 'x) s3_requests \<Rightarrow> S3Config \<Rightarrow> ('z world, 'x S3StoreError) object_store" where
  "s3_at R cfg = lift_store w_s3 (\<lambda>s w. w\<lparr>w_s3 := s\<rparr>) (s3_store R cfg)"

section \<open>Clients and registry\<close>

datatype ('z, 'x) Client =
    Client_Filesystem "('z world, FsStoreError) Objsds"
  | Client_Memory "('z world, Infallible) Objsds"
  | Client_S3 "('z world, 'x S3StoreError) Objsds"

datatype ('z, 'x) QueueClient =
    QueueClient_Filesystem "('z world, FsStoreError) object_store" string
  | QueueClient_Memory "('z world, Infallible) object_store" string
  | QueueClient_S3 "('z world, 'x S3StoreError) object_store" string

record ('z, 'x, 'v) NapiState =
  ns_client :: "('z, 'x) Client"
  ns_queue_client :: "('z, 'x) QueueClient"
  ns_next_handle :: u32
  ns_maps :: "u32 \<rightharpoonup> ('z world, 'v) BoundMap"
  ns_logs :: "u32 \<rightharpoonup> ('z world, 'v) BoundLog"
  ns_queues :: "u32 \<rightharpoonup> ('z world, 'v) BoundQueue"

definition NapiState_new :: "('z, 'x) Client \<Rightarrow> ('z, 'x) QueueClient \<Rightarrow> ('z, 'x, 'v) NapiState" where
  "NapiState_new client queue_client =
     \<lparr>ns_client = client, ns_queue_client = queue_client, ns_next_handle = 1,
      ns_maps = Map.empty, ns_logs = Map.empty, ns_queues = Map.empty\<rparr>"

text \<open>\<open>fetch_add\<close> wraps around on overflow.\<close>

definition NapiState_handle :: "('z, 'x, 'v) NapiState \<Rightarrow> u32 \<times> ('z, 'x, 'v) NapiState" where
  "NapiState_handle st = (ns_next_handle st, st\<lparr>ns_next_handle := ns_next_handle st + 1\<rparr>)"

definition memory_client ::
  "('v, 'j, 'x) napi_env \<Rightarrow> string \<Rightarrow> ('z world, NapiError, ('z, 'x, 'v) NapiState) comp" where
  "memory_client J namespace w =
     (let store = memory_at (length (w_memories w)); w' = w\<lparr>w_memories := w_memories w @ [State_default]\<rparr>
      in (case ObjsdsBuilder_build (ObjsdsBuilder_namespace namespace (ObjsdsBuilder_store store ObjsdsBuilder_default)) of
            Err e \<Rightarrow> (Err (configuration_error J (display_BuildError e)), w')
          | Ok client \<Rightarrow>
              (Ok (NapiState_new (Client_Memory client) (QueueClient_Memory store namespace)), w')))"

definition filesystem_client ::
  "('v, 'j, 'x) napi_env \<Rightarrow> uuid_ops \<Rightarrow> string \<Rightarrow> string \<Rightarrow> ('z world, NapiError, ('z, 'x, 'v) NapiState) comp" where
  "filesystem_client J Q namespace root =
     and_then (map_err (\<lambda>e. configuration_error J (display_FsBuildError (ne_io_display J) e))
       (lift_comp w_fs (\<lambda>s w. w\<lparr>w_fs := s\<rparr>)
         (FilesystemStoreBuilder_build (FilesystemStoreBuilder_root FilesystemStore_builder root)))) (\<lambda>st.
     let store = filesystem_at Q st in
     and_then (lift_result (map_error (\<lambda>e. configuration_error J (display_BuildError e))
       (ObjsdsBuilder_build (ObjsdsBuilder_namespace namespace (ObjsdsBuilder_store store ObjsdsBuilder_default))))) (\<lambda>client.
     ok (NapiState_new (Client_Filesystem client) (QueueClient_Filesystem store namespace))))"

text \<open>\<open>U\<close> makes the client, \<open>R\<close> gives its requests.\<close>

definition s3_client_credentials ::
  "('v, 'j, 'x) napi_env \<Rightarrow> string option \<Rightarrow> string option \<Rightarrow> string option \<Rightarrow> NapiError + Credentials" where
  "s3_client_credentials J key_id secret_key token_opt =
     (case (key_id, secret_key) of
        (None, None) \<Rightarrow> Ok Default
      | (Some k, Some s) \<Rightarrow>
          (let credentials = Credentials_new k s
           in Ok (case token_opt of
                    Some token \<Rightarrow> Credentials_with_session_token credentials token
                  | None \<Rightarrow> credentials))
      | _ \<Rightarrow> Err (binding_error J ''ERR_OBJSDS_INVALID_CONFIGURATION''
               ''accessKeyId and secretAccessKey must be supplied together'' (JObj [])))"

definition napi_s3_client ::
  "('v, 'j, 'x) napi_env \<Rightarrow> ('x, 'cr, 'au, 'b, 'c) s3_setup \<Rightarrow> ('c \<Rightarrow> ('z, 'x) s3_requests)
   \<Rightarrow> string \<Rightarrow> string \<Rightarrow> string \<Rightarrow> string option \<Rightarrow> bool \<Rightarrow> string option \<Rightarrow> string option \<Rightarrow> string option
   \<Rightarrow> NapiError + ('z, 'x, 'v) NapiState" where
  "napi_s3_client J U R namespace bucket region endpoint path_style key_id secret_key token_opt =
     (case s3_client_credentials J key_id secret_key token_opt of Err e \<Rightarrow> Err e | Ok credentials \<Rightarrow>
     (let b = S3StoreBuilder_path_style (S3StoreBuilder_credentials (S3StoreBuilder_region
            (S3StoreBuilder_bucket S3Store_builder bucket) region) credentials) path_style;
          b' = (case endpoint of Some e \<Rightarrow> S3StoreBuilder_endpoint b e | None \<Rightarrow> b)
      in case map_error (\<lambda>e. configuration_error J (display_S3BuildError (ne_s3_display J) e))
            (S3StoreBuilder_build U b') of Err e \<Rightarrow> Err e | Ok st \<Rightarrow>
         (let store = s3_at (R (s3_client st)) (s3_config st)
          in case map_error (\<lambda>e. configuration_error J (display_BuildError e))
              (ObjsdsBuilder_build (ObjsdsBuilder_namespace namespace (ObjsdsBuilder_store store ObjsdsBuilder_default))) of
               Err e \<Rightarrow> Err e
             | Ok client \<Rightarrow> Ok (NapiState_new (Client_S3 client) (QueueClient_S3 store namespace)))))"

section \<open>Operations\<close>

datatype Lifecycle = Create | Open | OpenOrCreate

datatype Operation =
    MapLifecycle Lifecycle string string
  | MapGet u32 string
  | MapEntries u32
  | MapInsert u32 string string
  | MapInsertIfAbsent u32 string string
  | MapRemove u32 string
  | LogLifecycle Lifecycle string string
  | LogAppend u32 string
  | LogGet u32 string
  | LogRecords u32
  | LogRecordsAfter u32 string
  | QueueLifecycle Lifecycle string string
  | QueuePublish u32 string
  | QueueClaim u32 "64 word"  \<comment> \<open>a signed 64-bit number of milliseconds\<close>
  | QueueAck u32 string string
  | QueueLen u32
  | QueueIsEmpty u32

definition open_map ::
  "('v, 'j, 'x) napi_env \<Rightarrow> ('e \<Rightarrow> string) \<Rightarrow> ('w, 'e) Objsds \<Rightarrow> Lifecycle \<Rightarrow> string \<Rightarrow> string
   \<Rightarrow> ('w, NapiError, ('w, 'e) Map) comp" where
  "open_map J de client lifecycle name schema =
     (let builder = MapBuilder_schema schema (Objsds_map client name)
      in map_err (operation_error J de)
           (case lifecycle of
              Create \<Rightarrow> MapBuilder_create (ne_map_serde J) builder
            | Open \<Rightarrow> MapBuilder_open (ne_map_serde J) builder
            | OpenOrCreate \<Rightarrow> MapBuilder_open_or_create (ne_map_serde J) builder))"

definition open_log ::
  "('v, 'j, 'x) napi_env \<Rightarrow> ('e \<Rightarrow> string) \<Rightarrow> ('w, 'e) Objsds \<Rightarrow> Lifecycle \<Rightarrow> string \<Rightarrow> string
   \<Rightarrow> ('w, NapiError, ('w, 'e) Log) comp" where
  "open_log J de client lifecycle name schema =
     (let builder = LogBuilder_schema schema (Objsds_log client name)
      in map_err (operation_error J de)
           (case lifecycle of
              Create \<Rightarrow> LogBuilder_create (ne_log_serde J) builder
            | Open \<Rightarrow> LogBuilder_open (ne_log_serde J) builder
            | OpenOrCreate \<Rightarrow> LogBuilder_open_or_create (ne_log_serde J) builder))"

definition open_queue ::
  "('v, 'j, 'x) napi_env \<Rightarrow> ('e \<Rightarrow> string) \<Rightarrow> ('w, 'e) object_store \<Rightarrow> string \<Rightarrow> Lifecycle \<Rightarrow> string \<Rightarrow> string
   \<Rightarrow> ('w, NapiError, ('w, 'e, SystemClock) Queue) comp" where
  "open_queue J de store namespace lifecycle name schema =
     (let builder = QueueBuilder_schema schema (QueueBuilder_new store namespace name)
      in map_err (queue_error J de)
           (case lifecycle of
              Create \<Rightarrow> QueueBuilder_create (ne_queue_serde J) builder
            | Open \<Rightarrow> QueueBuilder_open (ne_queue_serde J) builder
            | OpenOrCreate \<Rightarrow> QueueBuilder_open_or_create (ne_queue_serde J) builder))"

type_synonym ('z, 'x, 'v, 'a) napi_comp = "(('z, 'x, 'v) NapiState \<times> 'z world, NapiError, 'a) comp"

definition on_world :: "('z world, NapiError, 'a) comp \<Rightarrow> ('z, 'x, 'v, 'a) napi_comp" where
  "on_world c = (\<lambda>(st, w). case c w of (r, w') \<Rightarrow> (r, (st, w')))"

definition find_map :: "('v, 'j, 'x) napi_env \<Rightarrow> u32 \<Rightarrow> ('z, 'x, 'v, ('z world, 'v) BoundMap) napi_comp" where
  "find_map J handle = (\<lambda>(st, w). (ok_or (invalid_handle J) (ns_maps st handle), (st, w)))"

definition find_log :: "('v, 'j, 'x) napi_env \<Rightarrow> u32 \<Rightarrow> ('z, 'x, 'v, ('z world, 'v) BoundLog) napi_comp" where
  "find_log J handle = (\<lambda>(st, w). (ok_or (invalid_handle J) (ns_logs st handle), (st, w)))"

definition find_queue :: "('v, 'j, 'x) napi_env \<Rightarrow> u32 \<Rightarrow> ('z, 'x, 'v, ('z world, 'v) BoundQueue) napi_comp" where
  "find_queue J handle = (\<lambda>(st, w). (ok_or (invalid_handle J) (ns_queues st handle), (st, w)))"

text \<open>The three lifecycle arms of \<open>execute\<close>: the handle is taken before the structure is opened.\<close>

definition draw_handle :: "('z, 'x, 'v, u32) napi_comp" where
  "draw_handle = (\<lambda>(st, w). case NapiState_handle st of (handle, st') \<Rightarrow> (Ok handle, (st', w)))"

definition bind_client_map ::
  "('v, 'j, 'x) napi_env \<Rightarrow> ('z, 'x) Client \<Rightarrow> Lifecycle \<Rightarrow> string \<Rightarrow> string
   \<Rightarrow> ('z world, NapiError, ('z world, 'v) BoundMap) comp" where
  "bind_client_map J c lifecycle name schema =
     (case c of
        Client_Filesystem client \<Rightarrow> and_then (open_map J (display_FsStoreError (ne_io_display J)) client lifecycle name schema)
          (\<lambda>m. ok (BoundMap_of J (display_FsStoreError (ne_io_display J)) m))
      | Client_Memory client \<Rightarrow> and_then (open_map J (ne_never_display J) client lifecycle name schema)
          (\<lambda>m. ok (BoundMap_of J (ne_never_display J) m))
      | Client_S3 client \<Rightarrow> and_then (open_map J (display_S3StoreError (ne_s3_display J)) client lifecycle name schema)
          (\<lambda>m. ok (BoundMap_of J (display_S3StoreError (ne_s3_display J)) m)))"

definition bind_client_log ::
  "('v, 'j, 'x) napi_env \<Rightarrow> ('z, 'x) Client \<Rightarrow> Lifecycle \<Rightarrow> string \<Rightarrow> string
   \<Rightarrow> ('z world, NapiError, ('z world, 'v) BoundLog) comp" where
  "bind_client_log J c lifecycle name schema =
     (case c of
        Client_Filesystem client \<Rightarrow> and_then (open_log J (display_FsStoreError (ne_io_display J)) client lifecycle name schema)
          (\<lambda>m. ok (BoundLog_of J (display_FsStoreError (ne_io_display J)) m))
      | Client_Memory client \<Rightarrow> and_then (open_log J (ne_never_display J) client lifecycle name schema)
          (\<lambda>m. ok (BoundLog_of J (ne_never_display J) m))
      | Client_S3 client \<Rightarrow> and_then (open_log J (display_S3StoreError (ne_s3_display J)) client lifecycle name schema)
          (\<lambda>m. ok (BoundLog_of J (display_S3StoreError (ne_s3_display J)) m)))"

definition bind_client_queue ::
  "('v, 'j, 'x) napi_env \<Rightarrow> ('z, 'x) QueueClient \<Rightarrow> Lifecycle \<Rightarrow> string \<Rightarrow> string
   \<Rightarrow> ('z world, NapiError, ('z world, 'v) BoundQueue) comp" where
  "bind_client_queue J c lifecycle name schema =
     (case c of
        QueueClient_Filesystem store namespace \<Rightarrow>
          and_then (open_queue J (display_FsStoreError (ne_io_display J)) store namespace lifecycle name schema)
          (\<lambda>q. ok (BoundQueue_of J (display_FsStoreError (ne_io_display J)) q))
      | QueueClient_Memory store namespace \<Rightarrow>
          and_then (open_queue J (ne_never_display J) store namespace lifecycle name schema)
          (\<lambda>q. ok (BoundQueue_of J (ne_never_display J) q))
      | QueueClient_S3 store namespace \<Rightarrow>
          and_then (open_queue J (display_S3StoreError (ne_s3_display J)) store namespace lifecycle name schema)
          (\<lambda>q. ok (BoundQueue_of J (display_S3StoreError (ne_s3_display J)) q)))"

definition map_lifecycle ::
  "('v, 'j, 'x) napi_env \<Rightarrow> Lifecycle \<Rightarrow> string \<Rightarrow> string \<Rightarrow> ('z, 'x, 'v, string) napi_comp" where
  "map_lifecycle J lifecycle name schema =
     and_then draw_handle (\<lambda>handle.
     and_then (\<lambda>(st, w). on_world (bind_client_map J (ns_client st) lifecycle name schema) (st, w)) (\<lambda>m (st, w).
       (json_string J (JNat (unat handle)), (st\<lparr>ns_maps := (ns_maps st)(handle \<mapsto> m)\<rparr>, w))))"

definition log_lifecycle ::
  "('v, 'j, 'x) napi_env \<Rightarrow> Lifecycle \<Rightarrow> string \<Rightarrow> string \<Rightarrow> ('z, 'x, 'v, string) napi_comp" where
  "log_lifecycle J lifecycle name schema =
     and_then draw_handle (\<lambda>handle.
     and_then (\<lambda>(st, w). on_world (bind_client_log J (ns_client st) lifecycle name schema) (st, w)) (\<lambda>g (st, w).
       (json_string J (JNat (unat handle)), (st\<lparr>ns_logs := (ns_logs st)(handle \<mapsto> g)\<rparr>, w))))"

definition queue_lifecycle ::
  "('v, 'j, 'x) napi_env \<Rightarrow> Lifecycle \<Rightarrow> string \<Rightarrow> string \<Rightarrow> ('z, 'x, 'v, string) napi_comp" where
  "queue_lifecycle J lifecycle name schema =
     and_then draw_handle (\<lambda>handle.
     and_then (\<lambda>(st, w). on_world (bind_client_queue J (ns_queue_client st) lifecycle name schema) (st, w)) (\<lambda>q (st, w).
       (json_string J (JNat (unat handle)), (st\<lparr>ns_queues := (ns_queues st)(handle \<mapsto> q)\<rparr>, w))))"

text \<open>\<open>u64::try_from\<close> of a signed number refuses negative ones.\<close>

definition lease_from_i64 :: "('v, 'j, 'x) napi_env \<Rightarrow> 64 word \<Rightarrow> NapiError + u64" where
  "lease_from_i64 J n =
     (if sint n < 0
      then Err (binding_error J ''ERR_OBJSDS_INVALID_CONFIGURATION''
             ''lease duration must be a positive integer number of milliseconds'' (JObj []))
      else Ok n)"

text \<open>
  \<open>fresh\<close> is the value of \<open>Uuid::now_v7()\<close> and \<open>now\<close> the reading of the system clock, if the operation
  takes them.
\<close>

fun execute ::
  "('v, 'j, 'x) napi_env \<Rightarrow> uuid \<Rightarrow> (SystemClock \<Rightarrow> u64) \<Rightarrow> Operation \<Rightarrow> ('z, 'x, 'v, string) napi_comp" where
  "execute J fresh now (MapLifecycle lifecycle name schema) = map_lifecycle J lifecycle name schema"
| "execute J fresh now (MapGet handle key) = and_then (find_map J handle) (\<lambda>m. on_world (bm_get_json m key))"
| "execute J fresh now (MapEntries handle) = and_then (find_map J handle) (\<lambda>m. on_world (bm_entries_json m))"
| "execute J fresh now (MapInsert handle key value_json) =
     and_then (find_map J handle) (\<lambda>m.
     and_then (lift_result (parse_value J value_json)) (\<lambda>v. on_world (bm_insert_json m key v)))"
| "execute J fresh now (MapInsertIfAbsent handle key value_json) =
     and_then (find_map J handle) (\<lambda>m.
     and_then (lift_result (parse_value J value_json)) (\<lambda>v. on_world (bm_insert_if_absent_json m key v)))"
| "execute J fresh now (MapRemove handle key) = and_then (find_map J handle) (\<lambda>m. on_world (bm_remove_json m key))"
| "execute J fresh now (LogLifecycle lifecycle name schema) = log_lifecycle J lifecycle name schema"
| "execute J fresh now (LogAppend handle value_json) =
     and_then (find_log J handle) (\<lambda>g.
     and_then (lift_result (parse_value J value_json)) (\<lambda>v. on_world (bl_append_json g fresh v)))"
| "execute J fresh now (LogGet handle i) =
     and_then (find_log J handle) (\<lambda>g.
     and_then (lift_result (parse_log_id J i)) (\<lambda>x. on_world (bl_get_json g x)))"
| "execute J fresh now (LogRecords handle) = and_then (find_log J handle) (\<lambda>g. on_world (bl_records_json g))"
| "execute J fresh now (LogRecordsAfter handle i) =
     and_then (find_log J handle) (\<lambda>g.
     and_then (lift_result (parse_log_id J i)) (\<lambda>x. on_world (bl_records_after_json g x)))"
| "execute J fresh now (QueueLifecycle lifecycle name schema) = queue_lifecycle J lifecycle name schema"
| "execute J fresh now (QueuePublish handle value_json) =
     and_then (find_queue J handle) (\<lambda>q.
     and_then (lift_result (parse_value J value_json)) (\<lambda>v. on_world (bq_publish_json q fresh v)))"
| "execute J fresh now (QueueClaim handle millis) =
     and_then (lift_result (lease_from_i64 J millis)) (\<lambda>lease.
     and_then (find_queue J handle) (\<lambda>q. on_world (bq_claim_json q now fresh lease)))"
| "execute J fresh now (QueueAck handle i token) =
     and_then (find_queue J handle) (\<lambda>q.
     and_then (lift_result (parse_message_id J i)) (\<lambda>x.
     and_then (lift_result (parse_lease_token J token)) (\<lambda>t. on_world (bq_ack_json q now x t))))"
| "execute J fresh now (QueueLen handle) = and_then (find_queue J handle) (\<lambda>q. on_world (bq_len_json q))"
| "execute J fresh now (QueueIsEmpty handle) = and_then (find_queue J handle) (\<lambda>q. on_world (bq_is_empty_json q))"

section \<open>Tasks\<close>

record BindingTask =
  bt_operation :: "Operation option"

text \<open>The task is handed to the worker pool with the caller's abort signal.\<close>

record 'sig AsyncTask =
  at_task :: BindingTask
  at_signal :: "'sig option"

text \<open>\<open>compute\<close> takes the operation out of the task, so that a task runs at most once.\<close>

definition BindingTask_compute ::
  "('v, 'j, 'x) napi_env \<Rightarrow> uuid \<Rightarrow> (SystemClock \<Rightarrow> u64) \<Rightarrow> BindingTask
   \<Rightarrow> ('z, 'x, 'v) NapiState \<times> 'z world \<Rightarrow> ((NapiError + string) \<times> ('z, 'x, 'v) NapiState \<times> 'z world) \<times> BindingTask" where
  "BindingTask_compute J fresh now t s =
     (case bt_operation t of
        None \<Rightarrow> ((Err \<lparr>nerr_status = GenericFailure, nerr_reason = ''binding task was already consumed''\<rparr>, s), t)
      | Some operation \<Rightarrow> (execute J fresh now operation s, t\<lparr>bt_operation := None\<rparr>))"

definition BindingTask_resolve :: "string \<Rightarrow> NapiError + string" where
  "BindingTask_resolve output = Ok output"

definition native_task :: "Operation \<Rightarrow> 'sig option \<Rightarrow> 'sig AsyncTask" where
  "native_task operation signal = \<lparr>at_task = \<lparr>bt_operation = Some operation\<rparr>, at_signal = signal\<rparr>"

section \<open>The methods of \<open>NativeClient\<close>\<close>

definition native_map_create :: "string \<Rightarrow> string \<Rightarrow> 'sig option \<Rightarrow> 'sig AsyncTask" where
  "native_map_create name schema signal = native_task (MapLifecycle Create name schema) signal"

definition native_map_open :: "string \<Rightarrow> string \<Rightarrow> 'sig option \<Rightarrow> 'sig AsyncTask" where
  "native_map_open name schema signal = native_task (MapLifecycle Open name schema) signal"

definition native_map_open_or_create :: "string \<Rightarrow> string \<Rightarrow> 'sig option \<Rightarrow> 'sig AsyncTask" where
  "native_map_open_or_create name schema signal = native_task (MapLifecycle OpenOrCreate name schema) signal"

definition native_map_get :: "u32 \<Rightarrow> string \<Rightarrow> 'sig option \<Rightarrow> 'sig AsyncTask" where
  "native_map_get handle key signal = native_task (MapGet handle key) signal"

definition native_map_entries :: "u32 \<Rightarrow> 'sig option \<Rightarrow> 'sig AsyncTask" where
  "native_map_entries handle signal = native_task (MapEntries handle) signal"

definition native_map_insert :: "u32 \<Rightarrow> string \<Rightarrow> string \<Rightarrow> 'sig option \<Rightarrow> 'sig AsyncTask" where
  "native_map_insert handle key value_json signal = native_task (MapInsert handle key value_json) signal"

definition native_map_insert_if_absent :: "u32 \<Rightarrow> string \<Rightarrow> string \<Rightarrow> 'sig option \<Rightarrow> 'sig AsyncTask" where
  "native_map_insert_if_absent handle key value_json signal = native_task (MapInsertIfAbsent handle key value_json) signal"

definition native_map_remove :: "u32 \<Rightarrow> string \<Rightarrow> 'sig option \<Rightarrow> 'sig AsyncTask" where
  "native_map_remove handle key signal = native_task (MapRemove handle key) signal"

definition native_map_release :: "u32 \<Rightarrow> ('z, 'x, 'v) NapiState \<Rightarrow> bool \<times> ('z, 'x, 'v) NapiState" where
  "native_map_release handle st = (ns_maps st handle \<noteq> None, st\<lparr>ns_maps := (ns_maps st)(handle := None)\<rparr>)"

definition native_log_create :: "string \<Rightarrow> string \<Rightarrow> 'sig option \<Rightarrow> 'sig AsyncTask" where
  "native_log_create name schema signal = native_task (LogLifecycle Create name schema) signal"

definition native_log_open :: "string \<Rightarrow> string \<Rightarrow> 'sig option \<Rightarrow> 'sig AsyncTask" where
  "native_log_open name schema signal = native_task (LogLifecycle Open name schema) signal"

definition native_log_open_or_create :: "string \<Rightarrow> string \<Rightarrow> 'sig option \<Rightarrow> 'sig AsyncTask" where
  "native_log_open_or_create name schema signal = native_task (LogLifecycle OpenOrCreate name schema) signal"

definition native_log_release :: "u32 \<Rightarrow> ('z, 'x, 'v) NapiState \<Rightarrow> bool \<times> ('z, 'x, 'v) NapiState" where
  "native_log_release handle st = (ns_logs st handle \<noteq> None, st\<lparr>ns_logs := (ns_logs st)(handle := None)\<rparr>)"

definition native_log_append :: "u32 \<Rightarrow> string \<Rightarrow> 'sig option \<Rightarrow> 'sig AsyncTask" where
  "native_log_append handle value_json signal = native_task (LogAppend handle value_json) signal"

definition native_log_get :: "u32 \<Rightarrow> string \<Rightarrow> 'sig option \<Rightarrow> 'sig AsyncTask" where
  "native_log_get handle i signal = native_task (LogGet handle i) signal"

definition native_log_records :: "u32 \<Rightarrow> 'sig option \<Rightarrow> 'sig AsyncTask" where
  "native_log_records handle signal = native_task (LogRecords handle) signal"

definition native_log_records_after :: "u32 \<Rightarrow> string \<Rightarrow> 'sig option \<Rightarrow> 'sig AsyncTask" where
  "native_log_records_after handle i signal = native_task (LogRecordsAfter handle i) signal"

definition native_queue_create :: "string \<Rightarrow> string \<Rightarrow> 'sig option \<Rightarrow> 'sig AsyncTask" where
  "native_queue_create name schema signal = native_task (QueueLifecycle Create name schema) signal"

definition native_queue_open :: "string \<Rightarrow> string \<Rightarrow> 'sig option \<Rightarrow> 'sig AsyncTask" where
  "native_queue_open name schema signal = native_task (QueueLifecycle Open name schema) signal"

definition native_queue_open_or_create :: "string \<Rightarrow> string \<Rightarrow> 'sig option \<Rightarrow> 'sig AsyncTask" where
  "native_queue_open_or_create name schema signal = native_task (QueueLifecycle OpenOrCreate name schema) signal"

definition native_queue_publish :: "u32 \<Rightarrow> string \<Rightarrow> 'sig option \<Rightarrow> 'sig AsyncTask" where
  "native_queue_publish handle value_json signal = native_task (QueuePublish handle value_json) signal"

definition native_queue_claim :: "u32 \<Rightarrow> 64 word \<Rightarrow> 'sig option \<Rightarrow> 'sig AsyncTask" where
  "native_queue_claim handle millis signal = native_task (QueueClaim handle millis) signal"

definition native_queue_ack :: "u32 \<Rightarrow> string \<Rightarrow> string \<Rightarrow> 'sig option \<Rightarrow> 'sig AsyncTask" where
  "native_queue_ack handle i token signal = native_task (QueueAck handle i token) signal"

definition native_queue_len :: "u32 \<Rightarrow> 'sig option \<Rightarrow> 'sig AsyncTask" where
  "native_queue_len handle signal = native_task (QueueLen handle) signal"

definition native_queue_is_empty :: "u32 \<Rightarrow> 'sig option \<Rightarrow> 'sig AsyncTask" where
  "native_queue_is_empty handle signal = native_task (QueueIsEmpty handle) signal"

definition native_queue_release :: "u32 \<Rightarrow> ('z, 'x, 'v) NapiState \<Rightarrow> bool \<times> ('z, 'x, 'v) NapiState" where
  "native_queue_release handle st = (ns_queues st handle \<noteq> None, st\<lparr>ns_queues := (ns_queues st)(handle := None)\<rparr>)"

end
