(* ===== verification/Napi_World.thy ===== *)
theory Napi_World
  imports Napi_Binding Map_Lifecycle
begin

text \<open>
  A store in its place in the world. The locale \<open>place\<close> is what a place is: reading back what
  was put there, and nothing else changing. \<open>lifted c' c\<close> says that a computation on the world is
  a computation on the store at the place; it is kept by everything the structures are composed
  of, so every operation of a structure over a store of the world is that operation on the store.
\<close>

named_theorems confined_intros \<open>computations that touch one place only\<close>
named_theorems lift_intros \<open>computations on the world that are computations on a store\<close>

section \<open>Places\<close>

locale place =
  fixes get :: "'w \<Rightarrow> 's" and put :: "'s \<Rightarrow> 'w \<Rightarrow> 'w" and there :: "'w \<Rightarrow> bool"
  assumes get_put: "there w \<Longrightarrow> get (put s w) = s"
    and put_get: "there w \<Longrightarrow> put (get w) w = w"
    and put_put: "there w \<Longrightarrow> put s (put s' w) = put s w"
    and put_there: "there w \<Longrightarrow> there (put s w)"
begin

definition lifted :: "('w, 'e, 'a) comp \<Rightarrow> ('s, 'e, 'a) comp \<Rightarrow> bool" where
  "lifted c' c \<longleftrightarrow> (\<forall>w. there w \<longrightarrow> c' w = lift_comp get put c w)"

lemma liftedD: "lifted c' c \<Longrightarrow> there w \<Longrightarrow> c (get w) = (r, s) \<Longrightarrow> c' w = (r, put s w)"
  by (simp add: lifted_def lift_comp_def)

lemma lifted_lift [lift_intros]: "lifted (lift_comp get put c) c"
  by (simp add: lifted_def)

lemma lifted_pure [lift_intros]:
  "lifted (ok x) (ok x)" "lifted (err e) (err e)" "lifted (lift_result r) (lift_result r)"
  by (simp_all add: lifted_def lift_comp_def put_get)

lemma lifted_and_then [lift_intros]:
  assumes "lifted c' c" "\<And>x. lifted (k' x) (k x)"
  shows "lifted (and_then c' k') (and_then c k)"
  unfolding lifted_def
proof (intro allI impI)
  fix w assume w: "there w"
  obtain r s where c: "c (get w) = (r, s)" by fastforce
  obtain q t where k: "\<And>x. r = Ok x \<Longrightarrow> k x s = (q, t)" by (cases r) fastforce+
  have "k' x (put s w) = (q, put t w)" if "r = Ok x" for x
    using liftedD [OF assms(2) put_there [OF w]] k [OF that] get_put [OF w] put_put [OF w] by auto
  then show "and_then c' k' w = lift_comp get put (and_then c k) w"
    using liftedD [OF assms(1) w c] c k by (cases r) (simp_all add: and_then_def lift_comp_def)
qed

lemma lifted_map_err [lift_intros]: "lifted c' c \<Longrightarrow> lifted (map_err f c') (map_err f c)"
  by (auto simp: lifted_def lift_comp_def map_err_def split: prod.splits sum.splits)

lemma lifted_if [lift_intros]:
  "(b \<Longrightarrow> lifted c' c) \<Longrightarrow> (\<not> b \<Longrightarrow> lifted d' d) \<Longrightarrow> lifted (if b then c' else d') (if b then c else d)"
  by simp

lemma lifted_option [lift_intros]:
  "(y = None \<Longrightarrow> lifted c' c) \<Longrightarrow> (\<And>x. y = Some x \<Longrightarrow> lifted (d' x) (d x)) \<Longrightarrow>
     lifted (case y of None \<Rightarrow> c' | Some x \<Rightarrow> d' x) (case y of None \<Rightarrow> c | Some x \<Rightarrow> d x)"
  by (cases y) simp_all

lemma lifted_prod [lift_intros]:
  "(\<And>a b. lifted (c' a b) (c a b)) \<Longrightarrow> lifted (case y of (a, b) \<Rightarrow> c' a b) (case y of (a, b) \<Rightarrow> c a b)"
  by (cases y) simp

text \<open>A store lifted to the place, and the structures over it.\<close>

abbreviation at_place :: "('s, 'e) object_store \<Rightarrow> ('w, 'e) object_store" where
  "at_place S \<equiv> lift_store get put S"

lemma lifted_store [lift_intros]:
  "lifted (os_get (at_place S) l) (os_get S l)"
  "lifted (os_create (at_place S) l b) (os_create S l b)"
  "lifted (os_replace (at_place S) l v b) (os_replace S l v b)"
  by (simp_all add: lift_store_def lifted_lift)

lemma lifted_lifecycle [lift_intros]:
  "lifted (lifecycle_create (at_place S) l b) (lifecycle_create S l b)"
  "lifted (lifecycle_replace (at_place S) l v b) (lifecycle_replace S l v b)"
  unfolding lifecycle_create_def lifecycle_replace_def by (intro lift_intros)+

abbreviation map_at :: "('s, 'e) object_store \<Rightarrow> Location \<Rightarrow> string \<Rightarrow> ('w, 'e) Map" where
  "map_at S l sch \<equiv> \<lparr>map_store = at_place S, map_location = l, map_schema = sch\<rparr>"

lemma lifted_map_rw [lift_intros]:
  "lifted (map_read C (map_at S l sch)) (map_read C \<lparr>map_store = S, map_location = l, map_schema = sch\<rparr>)"
  "lifted (map_write C (map_at S l sch) v d) (map_write C \<lparr>map_store = S, map_location = l, map_schema = sch\<rparr> v d)"
  unfolding map_read_def map_write_def Map.simps by (intro lift_intros)+

lemma lifted_map_ops [lift_intros]:
  fixes S :: "('s, 'e) object_store" and l sch
  defines "m \<equiv> \<lparr>map_store = S, map_location = l, map_schema = sch\<rparr>"
  shows "lifted (map_get C (map_at S l sch) k) (map_get C m k)"
    "lifted (map_entries C (map_at S l sch)) (map_entries C m)"
    "lifted (map_insert C (map_at S l sch) k v) (map_insert C m k v)"
    "lifted (map_insert_if_absent C (map_at S l sch) k v) (map_insert_if_absent C m k v)"
    "lifted (map_remove C (map_at S l sch) k) (map_remove C m k)"
  unfolding m_def map_get_def map_entries_def map_insert_def map_insert_if_absent_def map_remove_def Let_def
  by (intro lift_intros)+

lemma lifted_create [lift_intros]: "lifted (create_structure (at_place S) l b) (create_structure S l b)"
  unfolding create_structure_def by (intro lift_intros)

text \<open>A computation that touches nothing but the place, and a store that does.\<close>

definition confined :: "('w, 'e, 'a) comp \<Rightarrow> bool" where
  "confined c \<longleftrightarrow> (\<forall>w. there w \<longrightarrow> (\<exists>s. snd (c w) = put s w))"

lemma confinedD: "confined c \<Longrightarrow> there w \<Longrightarrow> c w = (r, w') \<Longrightarrow> \<exists>s. w' = put s w"
  by (metis confined_def snd_conv)

lemma confinedI: "(\<And>w r w'. there w \<Longrightarrow> c w = (r, w') \<Longrightarrow> \<exists>s. w' = put s w) \<Longrightarrow> confined c"
  by (metis confined_def prod.collapse)

lemma confined_pure [confined_intros]: "confined (ok x)" "confined (err e)" "confined (lift_result r)"
  by (auto simp: confined_def intro: put_get [symmetric])

lemma confined_bind:
  assumes "confined c" "\<And>x. confined (k x)" "there w" "and_then c k w = (r, w')"
  shows "\<exists>s. w' = put s w"
  using assms(4)
proof (cases rule: and_then_cases)
  case (Err e)
  then show ?thesis using confinedD [OF assms(1,3)] by blast
next
  case (Ok x u)
  obtain s where s: "u = put s w" using confinedD [OF assms(1,3) Ok(1)] by blast
  obtain s' where "w' = put s' u"
    using confinedD [OF assms(2) _ Ok(2)] put_there [OF assms(3)] s by blast
  then show ?thesis using s put_put [OF assms(3)] by auto
qed

lemma confined_and_then [confined_intros]: "confined c \<Longrightarrow> (\<And>x. confined (k x)) \<Longrightarrow> confined (and_then c k)"
  by (rule confinedI) (rule confined_bind)

lemma confined_map_err [confined_intros]: "confined c \<Longrightarrow> confined (map_err f c)"
  by (simp add: confined_def)

lemma confined_cases [confined_intros]:
  "(b \<Longrightarrow> confined c) \<Longrightarrow> (\<not> b \<Longrightarrow> confined d) \<Longrightarrow> confined (if b then c else d)"
  "confined c \<Longrightarrow> (\<And>x. confined (e x)) \<Longrightarrow> confined (case y of None \<Rightarrow> c | Some x \<Rightarrow> e x)"
  "(\<And>a b. confined (f a b)) \<Longrightarrow> confined (case z of (a, b) \<Rightarrow> f a b)"
  "(\<And>a. confined (g a)) \<Longrightarrow> (\<And>b. confined (h b)) \<Longrightarrow> confined (case_sum g h q)"
  by (simp_all split: option.splits prod.splits sum.splits)

definition confined_store :: "('w, 'e) object_store \<Rightarrow> bool" where
  "confined_store S \<longleftrightarrow> (\<forall>l b v. confined (os_get S l) \<and> confined (os_create S l b) \<and> confined (os_replace S l v b))"

lemma confined_storeD [confined_intros]:
  assumes "confined_store S"
  shows "confined (os_get S l)" "confined (os_create S l b)" "confined (os_replace S l v b)"
  using assms by (simp_all add: confined_store_def)

lemma at_place_confined: "confined_store (at_place S)"
  by (auto simp: confined_store_def confined_def lift_store_def lift_comp_def split: prod.splits)

lemma confined_lifecycle [confined_intros]:
  assumes "confined_store S"
  shows "confined (lifecycle_create S l b)" "confined (lifecycle_replace S l v b)"
    "confined (create_structure S l bs)"
  unfolding create_structure_def lifecycle_create_def lifecycle_replace_def
  by (intro confined_intros assms)+

lemma confined_open [confined_intros]: "confined rd \<Longrightarrow> confined (open_structure rd)"
  unfolding open_structure_def by (intro confined_intros)

lemma confined_map [confined_intros]:
  assumes "confined_store (map_store m)"
  shows "confined (map_read C m)" "confined (map_write C m v d)" "confined (map_get C m k)"
    "confined (map_entries C m)" "confined (map_insert C m k x)" "confined (map_insert_if_absent C m k x)"
    "confined (map_remove C m k)"
  unfolding map_get_def map_entries_def map_insert_def map_insert_if_absent_def map_remove_def Let_def
    map_read_def map_write_def
  by (intro confined_intros assms)+

lemma confined_log [confined_intros]:
  assumes "confined_store (log_store g)"
  shows "confined (log_read C g)" "confined (log_write C g v d)" "confined (log_append C g i x)"
    "confined (log_get C g j)" "confined (log_records C g)" "confined (log_records_after C g j)"
  unfolding log_append_def log_get_def log_records_def log_records_after_def Let_def log_read_def log_write_def
  by (intro confined_intros assms)+

lemma confined_queue [confined_intros]:
  assumes "confined_store (queue_store q)"
  shows "confined (queue_read C q)" "confined (queue_write C q v d)" "confined (queue_publish C q i x)"
    "confined (queue_claim C q now i dur)" "confined (queue_ack C q now j token)"
    "confined (queue_len C q)" "confined (queue_is_empty C q)"
  unfolding queue_publish_def queue_claim_def queue_ack_def queue_is_empty_def queue_len_def Let_def
    queue_read_def queue_write_def
  by (intro confined_intros assms)+

text \<open>Opening a structure touches the place only, and the structure it returns has the same store.\<close>

lemma confined_recover:
  assumes "confined c" "\<And>x. confined (k x)" "\<And>e. confined (h e)"
  shows "confined (\<lambda>w. case c w of (r, w') \<Rightarrow> (case r of Inr x \<Rightarrow> k x w' | Inl e \<Rightarrow> h e w'))"
proof (rule confinedI)
  fix w r w' assume w: "there w" and run: "(case c w of (r, w') \<Rightarrow> (case r of Inr x \<Rightarrow> k x w' | Inl e \<Rightarrow> h e w')) = (r, w')"
  obtain q u where c: "c w = (q, u)" by fastforce
  obtain s where s: "u = put s w" using confinedD [OF assms(1) w c] by blast
  have "\<exists>s'. w' = put s' u"
    using run c s put_there [OF w] confinedD [OF assms(2)] confinedD [OF assms(3)] by (cases q) auto
  then show "\<exists>s. w' = put s w" using s put_put [OF w] by auto
qed

lemma confined_open_or_create [confined_intros]:
  assumes "confined_store S" "confined rd"
  shows "confined (open_or_create_structure S l bs rd)"
proof -
  have "(\<lambda>s. case lifecycle_create S l b s of (Inr _, s') \<Rightarrow> (Ok (), s')
        | (Inl (Error_AlreadyExists _), s') \<Rightarrow> open_structure rd s' | (Inl e, s') \<Rightarrow> (Err e, s')) =
      (\<lambda>s. case lifecycle_create S l b s of (r, s') \<Rightarrow> (case r of Inr x \<Rightarrow> ok () s'
        | Inl e \<Rightarrow> (if \<exists>a. e = Error_AlreadyExists a then open_structure rd else err e) s'))" for b
    by (auto simp: fun_eq_iff split: prod.splits sum.splits Error.splits)
  then show ?thesis
    unfolding open_or_create_structure_def by (simp only:) (intro confined_intros confined_recover assms)
qed

lemma confined_checked:
  "(\<And>x. r = Ok x \<Longrightarrow> confined (k x)) \<Longrightarrow> confined (and_then (lift_result r) k)"
  by (cases r) (simp_all add: confined_def and_then_def, metis put_get)

lemma confined_queue_recover [confined_intros]:
  assumes "confined_store S" "confined c"
  shows "confined (\<lambda>s. case os_create S l bs s of (Inr _, s') \<Rightarrow> (Ok q, s')
      | (Inl (Create_AlreadyExists _), s') \<Rightarrow> c s'
      | (Inl (Create_Store e), s') \<Rightarrow> (Err (Q_Store e), s'))" (is "confined ?c")
proof -
  have "?c = (\<lambda>s. case os_create S l bs s of (r, s') \<Rightarrow> (case r of Inr x \<Rightarrow> ok q s'
      | Inl e \<Rightarrow> (case e of Create_AlreadyExists _ \<Rightarrow> c | Create_Store e \<Rightarrow> err (Q_Store e)) s'))"
    by (auto simp: fun_eq_iff split: prod.splits sum.splits CreateError.splits)
  moreover have "confined (case e of Create_AlreadyExists x \<Rightarrow> c | Create_Store e \<Rightarrow> err (Q_Store e))" for e
    using assms(2) by (cases e) (auto intro: confined_intros)
  ultimately show ?thesis by (simp only:) (intro confined_intros confined_recover assms)
qed

lemma confined_builders:
  assumes "confined_store S"
  shows "mb_store b = S \<Longrightarrow> confined (MapBuilder_create C b) \<and> confined (MapBuilder_open C b) \<and>
      confined (MapBuilder_open_or_create C b)"
    and "lb_store g = S \<Longrightarrow> confined (LogBuilder_create D g) \<and> confined (LogBuilder_open D g) \<and>
      confined (LogBuilder_open_or_create D g)"
    and "qb_store q = S \<Longrightarrow> confined (QueueBuilder_create E q) \<and> confined (QueueBuilder_open E q) \<and>
      confined (QueueBuilder_open_or_create E q)"
proof -
  show "confined (MapBuilder_create C b) \<and> confined (MapBuilder_open C b) \<and> confined (MapBuilder_open_or_create C b)"
    if "mb_store b = S"
  proof -
    have m: "confined_store (map_store m)" if "map_error Error_Configuration (MapBuilder_finish b) = Ok m" for m
      using that assms \<open>mb_store b = S\<close>
      by (auto simp: MapBuilder_finish_def split: option.splits if_splits sum.splits)
    show ?thesis
      unfolding MapBuilder_create_def MapBuilder_open_def MapBuilder_open_or_create_def
      by (intro conjI; rule confined_checked, intro confined_intros m, assumption)
  qed
  show "confined (LogBuilder_create D g) \<and> confined (LogBuilder_open D g) \<and> confined (LogBuilder_open_or_create D g)"
    if "lb_store g = S"
  proof -
    have m: "confined_store (log_store m)" if "map_error Error_Configuration (LogBuilder_finish g) = Ok m" for m
      using that assms \<open>lb_store g = S\<close>
      by (auto simp: LogBuilder_finish_def split: option.splits if_splits sum.splits)
    show ?thesis
      unfolding LogBuilder_create_def LogBuilder_open_def LogBuilder_open_or_create_def
      by (intro conjI; rule confined_checked, intro confined_intros m, assumption)
  qed
  show "confined (QueueBuilder_create E q) \<and> confined (QueueBuilder_open E q) \<and> confined (QueueBuilder_open_or_create E q)"
    if "qb_store q = S"
  proof -
    have m: "confined_store (queue_store m)" if "map_error Q_Configuration (QueueBuilder_finish q) = Ok m" for m
      using that assms \<open>qb_store q = S\<close>
      by (auto simp: QueueBuilder_finish_def split: option.splits if_splits sum.splits)
    show ?thesis
      unfolding QueueBuilder_create_def QueueBuilder_open_def QueueBuilder_open_or_create_def
      by (intro conjI; rule confined_checked, intro confined_intros m, assumption)
  qed
qed

lemma confined_openers:
  assumes "confined_store S"
  shows "client_store c = S \<Longrightarrow> confined (open_map J de c lc name sch)"
    and "client_store c' = S \<Longrightarrow> confined (open_log J de c' lc name sch)"
    and "confined (open_queue J de S ns lc name sch)"
  using assms
  by (auto simp: open_map_def open_log_def open_queue_def Let_def Objsds_map_def MapBuilder_new_def MapBuilder_schema_def
      Objsds_log_def LogBuilder_new_def LogBuilder_schema_def QueueBuilder_new_def QueueBuilder_schema_def
      intro!: confined_map_err confined_builders [THEN conjunct1] confined_builders [THEN conjunct2, THEN conjunct1]
        confined_builders [THEN conjunct2, THEN conjunct2] split: Lifecycle.split)

end

lemma opened_map_store: "open_map J de c lc name sch w = (Ok m, w') \<Longrightarrow> map_store m = client_store c"
  by (cases lc)
    (auto simp: open_map_def Let_def map_err_eq_Ok and_then_eq_Ok Objsds_map_def MapBuilder_new_def
      MapBuilder_schema_def MapBuilder_finish_def MapBuilder_create_def MapBuilder_open_def
      MapBuilder_open_or_create_def split: if_splits sum.splits)

lemma opened_log_store: "open_log J de c lc name sch w = (Ok g, w') \<Longrightarrow> log_store g = client_store c"
  by (cases lc)
    (auto simp: open_log_def Let_def map_err_eq_Ok and_then_eq_Ok Objsds_log_def LogBuilder_new_def
      LogBuilder_schema_def LogBuilder_finish_def LogBuilder_create_def LogBuilder_open_def
      LogBuilder_open_or_create_def split: if_splits sum.splits)

lemma queue_finish_store:
  "QueueBuilder_finish (QueueBuilder_schema sch (QueueBuilder_new S ns name)) = Ok q \<Longrightarrow> queue_store q = S"
  by (auto simp: QueueBuilder_finish_def QueueBuilder_schema_def QueueBuilder_new_def split: if_splits sum.splits)

lemma queue_recover_Ok:
  "(case c of (Inr _, s') \<Rightarrow> (Ok q, s') | (Inl (Create_AlreadyExists _), s') \<Rightarrow> and_then rd (\<lambda>_. ok q) s'
    | (Inl (Create_Store e), s') \<Rightarrow> (Err (Q_Store e), s')) = (Ok y, t) \<Longrightarrow> y = q"
  by (auto simp: and_then_eq_Ok split: prod.splits sum.splits CreateError.splits)

lemma opened_queue_store: "open_queue J de S ns lc name sch w = (Ok q, w') \<Longrightarrow> queue_store q = S"
  by (cases lc)
    (auto simp: open_queue_def Let_def map_err_eq_Ok and_then_eq_Ok QueueBuilder_create_def QueueBuilder_open_def
      QueueBuilder_open_or_create_def dest!: queue_finish_store queue_recover_Ok split: if_splits)

end
