(* ===== verification/Napi_Properties.thy ===== *)
theory Napi_Properties
  imports Napi_Binding Map_Properties Log_Properties Queue_Properties
begin

text \<open>
  What the Node binding promises: handles are fresh and released ones stay invalid until the
  32-bit counter wraps, and the operations on a handle are those of the structure behind it,
  rendered as JSON.
\<close>

section \<open>Events\<close>

text \<open>What JavaScript can make happen: a task of the pool runs, or a handle is released.\<close>

datatype handle_kind = KMap | KLog | KQueue

datatype napi_event = Run Operation uuid "SystemClock \<Rightarrow> u64" | Release handle_kind u32

fun release :: "handle_kind \<Rightarrow> u32 \<Rightarrow> ('z, 'x, 'v) NapiState \<Rightarrow> bool \<times> ('z, 'x, 'v) NapiState" where
  "release KMap h st = native_map_release h st"
| "release KLog h st = native_log_release h st"
| "release KQueue h st = native_queue_release h st"

fun live :: "handle_kind \<Rightarrow> ('z, 'x, 'v) NapiState \<Rightarrow> u32 \<Rightarrow> bool" where
  "live KMap st h = (ns_maps st h \<noteq> None)"
| "live KLog st h = (ns_logs st h \<noteq> None)"
| "live KQueue st h = (ns_queues st h \<noteq> None)"

fun napi_step ::
  "('v, 'j, 'x) napi_env \<Rightarrow> napi_event \<Rightarrow> ('z, 'x, 'v) NapiState \<times> 'z world \<Rightarrow> ('z, 'x, 'v) NapiState \<times> 'z world" where
  "napi_step J (Run op fresh now) s = snd (execute J fresh now op s)"
| "napi_step J (Release k h) (st, w) = (snd (release k h st), w)"

fun napi_run ::
  "('v, 'j, 'x) napi_env \<Rightarrow> napi_event list \<Rightarrow> ('z, 'x, 'v) NapiState \<times> 'z world \<Rightarrow> ('z, 'x, 'v) NapiState \<times> 'z world" where
  "napi_run J [] s = s"
| "napi_run J (e # es) s = napi_run J es (napi_step J e s)"

text \<open>The registry a lifecycle operation draws its handle for, and the one an operation looks in.\<close>

fun drawn_kind :: "napi_event \<Rightarrow> handle_kind option" where
  "drawn_kind (Run (MapLifecycle _ _ _) _ _) = Some KMap"
| "drawn_kind (Run (LogLifecycle _ _ _) _ _) = Some KLog"
| "drawn_kind (Run (QueueLifecycle _ _ _) _ _) = Some KQueue"
| "drawn_kind _ = None"

abbreviation draws_handle :: "napi_event \<Rightarrow> bool" where
  "draws_handle e \<equiv> drawn_kind e \<noteq> None"

fun operand :: "Operation \<Rightarrow> (handle_kind \<times> u32) option" where
  "operand (MapLifecycle _ _ _) = None"
| "operand (MapGet h _) = Some (KMap, h)"
| "operand (MapEntries h) = Some (KMap, h)"
| "operand (MapInsert h _ _) = Some (KMap, h)"
| "operand (MapInsertIfAbsent h _ _) = Some (KMap, h)"
| "operand (MapRemove h _) = Some (KMap, h)"
| "operand (LogLifecycle _ _ _) = None"
| "operand (LogAppend h _) = Some (KLog, h)"
| "operand (LogGet h _) = Some (KLog, h)"
| "operand (LogRecords h) = Some (KLog, h)"
| "operand (LogRecordsAfter h _) = Some (KLog, h)"
| "operand (QueueLifecycle _ _ _) = None"
| "operand (QueuePublish h _) = Some (KQueue, h)"
| "operand (QueueClaim h _) = Some (KQueue, h)"
| "operand (QueueAck h _ _) = Some (KQueue, h)"
| "operand (QueueLen h) = Some (KQueue, h)"
| "operand (QueueIsEmpty h) = Some (KQueue, h)"

definition drawn :: "napi_event list \<Rightarrow> nat" where
  "drawn es = length (filter draws_handle es)"

lemma drawn_Cons [simp]: "drawn (e # es) = (if drawn_kind e = None then 0 else 1) + drawn es"
  by (simp add: drawn_def)

lemma drawn_append [simp]: "drawn (xs @ ys) = drawn xs + drawn ys"
  by (simp add: drawn_def)

lemma napi_run_append: "napi_run J (xs @ ys) s = napi_run J ys (napi_run J xs s)"
  by (induction xs arbitrary: s) auto

section \<open>The registry\<close>

lemma on_world_state: "on_world c (st, w) = (r, (st', w')) \<Longrightarrow> st' = st"
  by (auto simp: on_world_def split: prod.splits)

text \<open>Operations on a handle leave the registry alone.\<close>

lemma use_handle_state:
  assumes "and_then c k s = (r, t)" "\<And>q t. c s = (q, t) \<Longrightarrow> fst t = fst s"
    and "\<And>x u r t. k x u = (r, t) \<Longrightarrow> fst t = fst u"
  shows "fst t = fst s"
  using assms(1)
proof (cases rule: and_then_cases)
  case (Err e)
  then show ?thesis using assms(2) by blast
next
  case (Ok x u)
  then show ?thesis using assms(2) [OF Ok(1)] assms(3) [OF Ok(2)] by simp
qed

lemma on_world_fst: "on_world c s = (r, t) \<Longrightarrow> fst t = fst s"
  by (cases s; cases t) (auto dest: on_world_state)

lemma find_fst:
  "find_map J h s = (rm, um) \<Longrightarrow> um = s" "find_log J h s = (rl, ul) \<Longrightarrow> ul = s"
  "find_queue J h s = (rq, uq) \<Longrightarrow> uq = s"
  by (cases s; simp add: find_map_def find_log_def find_queue_def)+

lemma lifecycle_registry:
  "map_lifecycle J lc name sch (st, w) = (r, (st', w')) \<Longrightarrow>
     (\<exists>m. st' = st\<lparr>ns_next_handle := ns_next_handle st + 1, ns_maps := (ns_maps st)(ns_next_handle st \<mapsto> m)\<rparr>) \<or>
     (\<exists>e. r = Err e) \<and> st' = st\<lparr>ns_next_handle := ns_next_handle st + 1\<rparr>"
  "log_lifecycle J lc name sch (st, w) = (r, (st', w')) \<Longrightarrow>
     (\<exists>m. st' = st\<lparr>ns_next_handle := ns_next_handle st + 1, ns_logs := (ns_logs st)(ns_next_handle st \<mapsto> m)\<rparr>) \<or>
     (\<exists>e. r = Err e) \<and> st' = st\<lparr>ns_next_handle := ns_next_handle st + 1\<rparr>"
  "queue_lifecycle J lc name sch (st, w) = (r, (st', w')) \<Longrightarrow>
     (\<exists>m. st' = st\<lparr>ns_next_handle := ns_next_handle st + 1, ns_queues := (ns_queues st)(ns_next_handle st \<mapsto> m)\<rparr>) \<or>
     (\<exists>e. r = Err e) \<and> st' = st\<lparr>ns_next_handle := ns_next_handle st + 1\<rparr>"
  by (auto simp: map_lifecycle_def log_lifecycle_def queue_lifecycle_def draw_handle_def NapiState_handle_def
      and_then_def on_world_def split: prod.splits sum.splits)

lemma execute_other_registry:
  assumes "drawn_kind (Run op fresh now) = None" "execute J fresh now op s = (r, t)"
  shows "fst t = fst s"
  using assms
  by (cases op)
    (auto elim!: and_then_cases dest!: find_fst on_world_fst simp: lease_from_i64_def split: if_splits)

lemma release_registry:
  "live k' (snd (release k h st)) h' \<longleftrightarrow> live k' st h' \<and> (k', h') \<noteq> (k, h)"
  "ns_next_handle (snd (release k h st)) = ns_next_handle st"
  by (cases k; cases k'; auto simp: native_map_release_def native_log_release_def native_queue_release_def)
    (cases k; simp add: native_map_release_def native_log_release_def native_queue_release_def)

text \<open>One event: it draws at most one handle, the next one, and makes no other handle valid.\<close>

lemma napi_step_registry:
  assumes "napi_step J e (st, w) = (st', w')"
  shows "ns_next_handle st' = ns_next_handle st + (if drawn_kind e = None then 0 else 1)"
    and "live k st' h \<Longrightarrow> live k st h \<or> drawn_kind e = Some k \<and> h = ns_next_handle st"
proof -
  have "ns_next_handle st' = ns_next_handle st + (if drawn_kind e = None then 0 else 1) \<and>
    (live k st' h \<longrightarrow> live k st h \<or> drawn_kind e = Some k \<and> h = ns_next_handle st)"
  proof (cases e)
    case (Release k' h')
    then show ?thesis using assms by (auto simp: release_registry)
  next
    case (Run op fresh now)
    then obtain r where r: "execute J fresh now op (st, w) = (r, (st', w'))"
      using assms by (cases "execute J fresh now op (st, w)") auto
    show ?thesis
    proof (cases "drawn_kind e")
      case None
      then show ?thesis using execute_other_registry [OF _ r] Run by simp
    next
      case (Some kd)
      then show ?thesis using r Run
        by (cases op; cases k) (auto dest!: lifecycle_registry split: if_splits)
    qed
  qed
  then show "ns_next_handle st' = ns_next_handle st + (if drawn_kind e = None then 0 else 1)"
    and "live k st' h \<Longrightarrow> live k st h \<or> drawn_kind e = Some k \<and> h = ns_next_handle st"
    by blast+
qed

lemma napi_run_next:
  "ns_next_handle (fst (napi_run J es (st, w))) = ns_next_handle st + of_nat (drawn es)"
proof (induction es arbitrary: st w)
  case (Cons e es)
  obtain st' w' where s: "napi_step J e (st, w) = (st', w')" by fastforce
  show ?case using Cons.IH [of st' w'] napi_step_registry(1) [OF s] by (simp add: s ac_simps)
qed (simp add: drawn_def)

text \<open>
  The invariant of the registry: valid handles were drawn, each for one registry. It is kept as
  long as the counter does not wrap around.
\<close>

definition registry_ok :: "('z, 'x, 'v) NapiState \<Rightarrow> bool" where
  "registry_ok st \<longleftrightarrow>
     (\<forall>k h. live k st h \<longrightarrow> 1 \<le> unat h \<and> unat h < unat (ns_next_handle st)) \<and>
     (\<forall>k k' h. live k st h \<longrightarrow> live k' st h \<longrightarrow> k = k') \<and>
     1 \<le> unat (ns_next_handle st)"

lemma registry_okD:
  assumes "registry_ok st"
  shows "live k st h \<Longrightarrow> 1 \<le> unat h" "live k st h \<Longrightarrow> unat h < unat (ns_next_handle st)"
    "live k st h \<Longrightarrow> live k' st h \<Longrightarrow> k = k'" "1 \<le> unat (ns_next_handle st)"
    "\<not> live k st (ns_next_handle st)"
  using assms unfolding registry_ok_def by blast+

lemma not_live_new: "\<not> live k (NapiState_new c q) h"
  by (cases k) (simp_all add: NapiState_new_def)

lemma registry_ok_new: "registry_ok (NapiState_new c q)"
  using not_live_new unfolding registry_ok_def by (auto simp: NapiState_new_def)

lemma unat_Suc_u32: "unat (h :: u32) + 1 < 2 ^ 32 \<Longrightarrow> unat (h + 1) = unat h + 1"
  by (simp add: unat_word_ariths)

lemma napi_step_ok:
  assumes "registry_ok st" "napi_step J e (st, w) = (st', w')" "unat (ns_next_handle st) + 1 < 2 ^ 32"
  shows "registry_ok st'"
    "unat (ns_next_handle st') = unat (ns_next_handle st) + (if drawn_kind e = None then 0 else 1)"
proof -
  note ok = registry_okD [OF assms(1)] and step = napi_step_registry [OF assms(2)]
  show n: "unat (ns_next_handle st') = unat (ns_next_handle st) + (if drawn_kind e = None then 0 else 1)"
    using step(1) unat_Suc_u32 [OF assms(3)] by simp
  have new: "live k st h \<or> drawn_kind e = Some k \<and> h = ns_next_handle st" if "live k st' h" for k h
    using step(2) that .
  have "1 \<le> unat h \<and> unat h < unat (ns_next_handle st')" if "live k st' h" for k h
    using new [OF that] ok(1,2) [of k h] ok(4) n by (auto split: if_splits)
  moreover have "k = k'" if "live k st' h" "live k' st' h" for k k' h
    using new [OF that(1)] new [OF that(2)] ok(3,5) by (metis option.inject)
  ultimately show "registry_ok st'" unfolding registry_ok_def using n ok(4) by simp
qed

lemma napi_run_ok:
  assumes "registry_ok st" "unat (ns_next_handle st) + drawn es < 2 ^ 32" "napi_run J es (st, w) = (st', w')"
  shows "registry_ok st' \<and> unat (ns_next_handle st') = unat (ns_next_handle st) + drawn es"
  using assms
proof (induction es arbitrary: st w)
  case Nil
  then show ?case by (simp add: drawn_def)
next
  case (Cons e es)
  obtain s1 w1 where s1: "napi_step J e (st, w) = (s1, w1)" by fastforce
  note step = napi_step_registry(1) [OF s1]
  show ?case
  proof (cases "drawn_kind e")
    case None
    then have n: "ns_next_handle s1 = ns_next_handle st" using step by simp
    have "live k st h" if "live k s1 h" for k h
      using napi_step_registry(2) [OF s1 that] None by simp
    then have "registry_ok s1" using Cons.prems(1) n unfolding registry_ok_def by metis
    then show ?thesis using Cons.IH [of s1 w1] Cons.prems None n s1 by simp
  next
    case (Some k)
    then have b: "unat (ns_next_handle st) + 1 < 2 ^ 32" using Cons.prems(2) by simp
    show ?thesis
      using Cons.IH [of s1 w1] Cons.prems Some s1 napi_step_ok [OF Cons.prems(1) s1 b] by simp
  qed
qed

text \<open>
  C29: whatever tasks run and handles are released on a new client, as long as fewer than
  \<open>2^32 - 1\<close> handles were drawn (every create or open draws one, also when it fails) the handle
  to be issued next is valid nowhere, every valid handle is one that was drawn, never 0, and no
  handle is valid for two structures of different kinds.
\<close>

theorem napi_handles_fresh:
  assumes "drawn es < 2 ^ 32 - 1" "napi_run J es (NapiState_new c q, w) = (st, w')"
  shows "unat (ns_next_handle st) = drawn es + 1 \<and>
    (\<forall>k. \<not> live k st (ns_next_handle st)) \<and>
    (\<forall>k h. live k st h \<longrightarrow> 1 \<le> unat h \<and> unat h \<le> drawn es) \<and>
    (\<forall>k k' h. live k st h \<longrightarrow> live k' st h \<longrightarrow> k = k')"
proof -
  have one: "unat (ns_next_handle (NapiState_new c q)) = 1" by (simp add: NapiState_new_def)
  have "registry_ok st \<and> unat (ns_next_handle st) = drawn es + 1"
    using napi_run_ok [OF registry_ok_new _ assms(2)] assms(1) unfolding one by simp
  then have ok: "registry_ok st" and n: "unat (ns_next_handle st) = drawn es + 1" by auto
  show ?thesis using registry_okD [OF ok] unfolding n by (metis Suc_eq_plus1 less_Suc_eq_le)
qed

section \<open>A concrete environment\<close>

text \<open>A renderer of JSON, without escapes, and the encoders of the sample documents.\<close>

fun show_json :: "string json \<Rightarrow> string" and show_jsons :: "string json list \<Rightarrow> string"
  and show_members :: "(string \<times> string json) list \<Rightarrow> string" where
  "show_json JNull = ''null''"
| "show_json (JBool b) = (if b then ''true'' else ''false'')"
| "show_json (JNat n) = show_nat n"
| "show_json (JStr s) = CHR 0x22 # s @ [CHR 0x22]"
| "show_json (JArr xs) = ''['' @ show_jsons xs @ '']''"
| "show_json (JObj ms) = ''{'' @ show_members ms @ ''}''"
| "show_json (JVal v) = CHR 0x22 # v @ [CHR 0x22]"
| "show_jsons [] = []"
| "show_jsons (x # xs) = show_json x @ (if xs = [] then [] else '','' @ show_jsons xs)"
| "show_members [] = []"
| "show_members ((k, x) # ms) = CHR 0x22 # k @ CHR 0x22 # '':'' @ show_json x @ (if ms = [] then [] else '','' @ show_members ms)"

definition sample_napi_env :: "(string, unit, unit) napi_env" where
  "sample_napi_env =
     \<lparr>ne_to_string = (\<lambda>x. Ok (show_json x)), ne_display_json = show_json,
      ne_from_str = (\<lambda>t. case t of c # cs \<Rightarrow> if c = CHR 0x22 then Ok (butlast cs) else Err () | [] \<Rightarrow> Err ()),
      ne_uuid_from_value = (\<lambda>t. Ok (of_nat (read_nat t))), ne_display_error = (\<lambda>_. ''expected value''),
      ne_uuid_string = show_word, ne_io_display = (\<lambda>_. ''input/output error''), ne_never_display = (\<lambda>_. []),
      ne_s3_display = (\<lambda>_. ''request failed''), ne_map_serde = sample_map_serde, ne_log_serde = sample_log_serde,
      ne_queue_serde = sample_queue_serde\<rparr>"

definition sample_world :: "unit world" where
  "sample_world =
     \<lparr>w_fs = \<lparr>fs_tree = [[] \<mapsto> Dir], fs_disk = \<lparr>dk_entry = (\<lambda>p v. v = [[] \<mapsto> Dir] p), dk_dirty = (\<lambda>_. False)\<rparr>,
        fs_cwd = [], fs_faults = [], fs_locks = [], fs_uuids = of_nat, fs_drawn = 0\<rparr>,
      w_memories = [State_default], w_s3 = ()\<rparr>"

abbreviation sample_napi_state :: "(unit, unit, string) NapiState" where
  "sample_napi_state \<equiv>
     NapiState_new (Client_Memory \<lparr>client_store = memory_at 0, client_namespace = ''prod''\<rparr>)
       (QueueClient_Memory (memory_at 0) ''prod'')"

definition sample_events :: "napi_event list" where
  "sample_events =
     [Run (MapLifecycle Create ''users'' ''user-v1'') 7 (\<lambda>_. 0), Run (LogLifecycle Open ''events'' ''v1'') 8 (\<lambda>_. 0)]"

lemma drawn_sample_events: "drawn sample_events = 2"
  by (simp add: drawn_def sample_events_def)

theorem napi_handles_fresh_witness:
  "let es = sample_events @ [Release KMap 1]; st = fst (napi_run sample_napi_env es (sample_napi_state, sample_world))
   in drawn es < 2 ^ 32 - 1 \<and> unat (ns_next_handle st) = 3 \<and> (\<forall>k. \<not> live k st (ns_next_handle st)) \<and>
      (\<forall>k h. live k st h \<longrightarrow> unat h \<le> 2)"
proof -
  let ?es = "sample_events @ [Release KMap 1]"
  let ?s = "napi_run sample_napi_env ?es (sample_napi_state, sample_world)"
  have d: "drawn ?es = 2" by (simp add: drawn_sample_events) (simp add: drawn_def)
  have s: "?s = (fst ?s, snd ?s)" by simp
  show ?thesis using napi_handles_fresh [OF _ s] unfolding d Let_def by simp
qed

section \<open>Released handles\<close>

text \<open>The answer to an operation on a handle that is not valid.\<close>

fun refusal :: "('v, 'j, 'x) napi_env \<Rightarrow> Operation \<Rightarrow> NapiError" where
  "refusal J (QueueClaim _ millis) =
     (case lease_from_i64 J millis of Err e \<Rightarrow> e | Ok _ \<Rightarrow> invalid_handle J)"
| "refusal J _ = invalid_handle J"

lemma execute_refused:
  assumes "operand op = Some (k, h)" "\<not> live k st h"
  shows "execute J fresh now op (st, w) = (Err (refusal J op), (st, w))"
  using assms
  by (cases op)
    (auto simp: and_then_def find_map_def find_log_def find_queue_def ok_or_def lease_from_i64_def)

lemma napi_run_not_live:
  assumes "\<not> live k st h" "unat h < unat (ns_next_handle st)"
    "unat (ns_next_handle st) + drawn es < 2 ^ 32" "napi_run J es (st, w) = (st', w')"
  shows "\<not> live k st' h"
  using assms
proof (induction es arbitrary: st w)
  case (Cons e es)
  obtain s1 w1 where s1: "napi_step J e (st, w) = (s1, w1)" by fastforce
  note step = napi_step_registry [OF s1]
  have n: "unat (ns_next_handle s1) = unat (ns_next_handle st) + (if drawn_kind e = None then 0 else 1)"
    using step(1) unat_Suc_u32 [of "ns_next_handle st"] Cons.prems(3) by (simp split: if_splits)
  have "\<not> live k s1 h" using step(2) Cons.prems(1,2) by blast
  then show ?case using Cons.IH [of s1 w1] Cons.prems s1 n by simp
qed simp



end
