(* ===== verification/Napi_Isolation.thy ===== *)
theory Napi_Isolation
  imports Napi_World Napi_Properties
begin

text \<open>
  A client of the Node binding works in one place of the world: its own memory, the file system
  or the S3 service. The locale \<open>client_place\<close> shows it for everything a task can run, once for
  the three kinds of client.
\<close>

section \<open>The places of the world\<close>

interpretation mempl: place "\<lambda>w. w_memories w ! i" "\<lambda>s w. w\<lparr>w_memories := (w_memories w)[i := s]\<rparr>"
    "\<lambda>w. i < length (w_memories w)" for i
  by unfold_locales simp_all

interpretation fspl: place w_fs "\<lambda>s w. w\<lparr>w_fs := s\<rparr>" "\<lambda>_. True"
  by unfold_locales simp_all

interpretation s3pl: place w_s3 "\<lambda>s w. w\<lparr>w_s3 := s\<rparr>" "\<lambda>_. True"
  by unfold_locales simp_all

section \<open>Clients confined to a place\<close>

text \<open>A lifecycle task: what the client bound, and the registry entry it leaves.\<close>

lemma lifecycle_bound:
  "map_lifecycle J lc name sch (st, w) = (r, (st', w')) \<Longrightarrow>
     \<exists>q. bind_client_map J (ns_client st) lc name sch w = (q, w') \<and>
       st' = (case q of Inl e \<Rightarrow> st\<lparr>ns_next_handle := ns_next_handle st + 1\<rparr>
         | Inr m \<Rightarrow> st\<lparr>ns_next_handle := ns_next_handle st + 1, ns_maps := (ns_maps st)(ns_next_handle st \<mapsto> m)\<rparr>)"
  "log_lifecycle J lc name sch (st, w) = (r, (st', w')) \<Longrightarrow>
     \<exists>q. bind_client_log J (ns_client st) lc name sch w = (q, w') \<and>
       st' = (case q of Inl e \<Rightarrow> st\<lparr>ns_next_handle := ns_next_handle st + 1\<rparr>
         | Inr m \<Rightarrow> st\<lparr>ns_next_handle := ns_next_handle st + 1, ns_logs := (ns_logs st)(ns_next_handle st \<mapsto> m)\<rparr>)"
  "queue_lifecycle J lc name sch (st, w) = (r, (st', w')) \<Longrightarrow>
     \<exists>q. bind_client_queue J (ns_queue_client st) lc name sch w = (q, w') \<and>
       st' = (case q of Inl e \<Rightarrow> st\<lparr>ns_next_handle := ns_next_handle st + 1\<rparr>
         | Inr m \<Rightarrow> st\<lparr>ns_next_handle := ns_next_handle st + 1, ns_queues := (ns_queues st)(ns_next_handle st \<mapsto> m)\<rparr>)"
  by (auto simp: map_lifecycle_def log_lifecycle_def queue_lifecycle_def draw_handle_def NapiState_handle_def
      and_then_def on_world_def split: prod.splits sum.splits)

locale client_place = place get put there
  for get :: "'z world \<Rightarrow> 's" and put :: "'s \<Rightarrow> 'z world \<Rightarrow> 'z world" and there :: "'z world \<Rightarrow> bool"
begin

fun confined_client :: "('z, 'x) Client \<Rightarrow> bool" where
  "confined_client (Client_Filesystem c) = confined_store (client_store c)"
| "confined_client (Client_Memory c) = confined_store (client_store c)"
| "confined_client (Client_S3 c) = confined_store (client_store c)"

fun confined_queue_client :: "('z, 'x) QueueClient \<Rightarrow> bool" where
  "confined_queue_client (QueueClient_Filesystem S ns) = confined_store S"
| "confined_queue_client (QueueClient_Memory S ns) = confined_store S"
| "confined_queue_client (QueueClient_S3 S ns) = confined_store S"

definition confined_bound_map :: "('z world, 'v) BoundMap \<Rightarrow> bool" where
  "confined_bound_map m \<longleftrightarrow> (\<forall>k v. confined (bm_get_json m k) \<and> confined (bm_entries_json m) \<and>
     confined (bm_insert_json m k v) \<and> confined (bm_insert_if_absent_json m k v) \<and> confined (bm_remove_json m k))"

definition confined_bound_log :: "('z world, 'v) BoundLog \<Rightarrow> bool" where
  "confined_bound_log g \<longleftrightarrow> (\<forall>f v i. confined (bl_append_json g f v) \<and> confined (bl_get_json g i) \<and>
     confined (bl_records_json g) \<and> confined (bl_records_after_json g i))"

definition confined_bound_queue :: "('z world, 'v) BoundQueue \<Rightarrow> bool" where
  "confined_bound_queue q \<longleftrightarrow> (\<forall>f v n d i t. confined (bq_publish_json q f v) \<and> confined (bq_claim_json q n f d) \<and>
     confined (bq_ack_json q n i t) \<and> confined (bq_len_json q) \<and> confined (bq_is_empty_json q))"

definition confined_registry :: "('z, 'x, 'v) NapiState \<Rightarrow> bool" where
  "confined_registry st \<longleftrightarrow> confined_client (ns_client st) \<and> confined_queue_client (ns_queue_client st) \<and>
     (\<forall>h m. ns_maps st h = Some m \<longrightarrow> confined_bound_map m) \<and>
     (\<forall>h g. ns_logs st h = Some g \<longrightarrow> confined_bound_log g) \<and>
     (\<forall>h q. ns_queues st h = Some q \<longrightarrow> confined_bound_queue q)"

lemma confined_answer: "confined c \<Longrightarrow> confined (answer er c render)"
  unfolding answer_def by (intro confined_intros)

lemma confined_bound:
  "confined_store (map_store m) \<Longrightarrow> confined_bound_map (BoundMap_of J de m)"
  "confined_store (log_store g) \<Longrightarrow> confined_bound_log (BoundLog_of J de g)"
  "confined_store (queue_store q) \<Longrightarrow> confined_bound_queue (BoundQueue_of J de q)"
  by (simp_all add: confined_bound_map_def confined_bound_log_def confined_bound_queue_def
      BoundMap_of_def BoundLog_of_def BoundQueue_of_def
      map_get_json_def map_entries_json_def map_insert_json_def map_insert_if_absent_json_def map_remove_json_def
      log_append_json_def log_get_json_def log_records_json_def log_records_after_json_def
      queue_publish_json_def queue_claim_json_def queue_ack_json_def queue_len_json_def queue_is_empty_json_def
      confined_answer confined_map confined_log confined_queue)

text \<open>\<open>safe c\<close>: from a confined registry \<open>c\<close> keeps it confined and touches the place only.\<close>

definition safe :: "('z, 'x, 'v, 'a) napi_comp \<Rightarrow> bool" where
  "safe c \<longleftrightarrow> (\<forall>st w r st' w'. confined_registry st \<longrightarrow> there w \<longrightarrow> c (st, w) = (r, (st', w')) \<longrightarrow>
     confined_registry st' \<and> (\<exists>s. w' = put s w))"

lemma safe_on_world: "confined c \<Longrightarrow> safe (on_world c)"
  unfolding safe_def on_world_def using confinedD by (fastforce split: prod.splits)

lemma safe_parsed: "(\<And>x. safe (k x)) \<Longrightarrow> safe (and_then (lift_result r) k)"
  unfolding safe_def by (cases r) (simp_all add: and_then_def, metis put_get)

lemma safeD:
  assumes "safe c" "confined_registry st" "there w" "c (st, w) = (r, (st', w'))"
  shows "confined_registry st'" "\<exists>s. w' = put s w"
  using assms unfolding safe_def by blast+

lemma safe_find:
  assumes "\<And>st w. f (st, w) = (ok_or e (reg st h), (st, w))"
    and "\<And>st x. confined_registry st \<Longrightarrow> reg st h = Some x \<Longrightarrow> safe (k x)"
  shows "safe (and_then f k)"
  unfolding safe_def
proof (intro allI impI)
  fix st w r st' w'
  assume st: "confined_registry st" "there w" "and_then f k (st, w) = (r, (st', w'))"
  show "confined_registry st' \<and> (\<exists>s. w' = put s w)"
  proof (cases "reg st h")
    case None
    then have "st' = st" "w' = w" using st(3) assms(1) by (simp_all add: and_then_def)
    then show ?thesis using st(1) put_get [OF st(2)] by metis
  next
    case (Some x)
    then have "k x (st, w) = (r, (st', w'))" using st(3) assms(1) by (simp add: and_then_def)
    then show ?thesis using safeD [OF assms(2) [OF st(1) Some] st(1,2)] by blast
  qed
qed

lemma safe_find_bound:
  "(\<And>m. confined_bound_map m \<Longrightarrow> safe (km m)) \<Longrightarrow> safe (and_then (find_map J h) km)"
  "(\<And>g. confined_bound_log g \<Longrightarrow> safe (kl g)) \<Longrightarrow> safe (and_then (find_log J h) kl)"
  "(\<And>q. confined_bound_queue q \<Longrightarrow> safe (kq q)) \<Longrightarrow> safe (and_then (find_queue J h) kq)"
  by (rule safe_find [where reg = ns_maps and h = h], simp add: find_map_def, simp add: confined_registry_def)
    (rule safe_find [where reg = ns_logs and h = h], simp add: find_log_def, simp add: confined_registry_def,
     rule safe_find [where reg = ns_queues and h = h], simp add: find_queue_def, simp add: confined_registry_def)

lemma bind_client_confined:
  "confined_client c \<Longrightarrow> confined (bind_client_map J c lc name sch)"
  "confined_client c \<Longrightarrow> confined (bind_client_log J c lc name sch)"
  "confined_queue_client q \<Longrightarrow> confined (bind_client_queue J q lc name sch)"
  by (cases c; simp add: bind_client_map_def bind_client_log_def confined_and_then confined_pure confined_openers)+
    (cases q; simp add: bind_client_queue_def confined_and_then confined_pure confined_openers)

lemma bind_client_bound:
  "confined_client c \<Longrightarrow> bind_client_map J c lc name sch w = (Ok m, w') \<Longrightarrow> confined_bound_map m"
  "confined_client c \<Longrightarrow> bind_client_log J c lc name sch w = (Ok g, w') \<Longrightarrow> confined_bound_log g"
  "confined_queue_client q \<Longrightarrow> bind_client_queue J q lc name sch w = (Ok p, w') \<Longrightarrow> confined_bound_queue p"
  by (cases c; auto simp: bind_client_map_def bind_client_log_def and_then_eq_Ok
      intro!: confined_bound dest: opened_map_store opened_log_store)+
    (cases q; auto simp: bind_client_queue_def and_then_eq_Ok intro!: confined_bound dest: opened_queue_store)

lemma safe_lifecycle:
  "safe (map_lifecycle J lc name sch)" "safe (log_lifecycle J lc name sch)" "safe (queue_lifecycle J lc name sch)"
proof -
  show "safe (map_lifecycle J lc name sch)"
    unfolding safe_def
    by (auto dest!: lifecycle_bound(1) simp: confined_registry_def split: sum.splits if_splits
        intro: bind_client_bound confinedD [OF bind_client_confined(1)])
  show "safe (log_lifecycle J lc name sch)"
    unfolding safe_def
    by (auto dest!: lifecycle_bound(2) simp: confined_registry_def split: sum.splits if_splits
        intro: bind_client_bound confinedD [OF bind_client_confined(2)])
  show "safe (queue_lifecycle J lc name sch)"
    unfolding safe_def
    by (auto dest!: lifecycle_bound(3) simp: confined_registry_def split: sum.splits if_splits
        intro: bind_client_bound confinedD [OF bind_client_confined(3)])
qed

lemma execute_safe: "safe (execute J fresh now op)"
  by (cases op)
    (auto intro!: safe_lifecycle safe_find_bound safe_parsed safe_on_world
      simp: confined_bound_map_def confined_bound_log_def confined_bound_queue_def)

lemma release_confined: "confined_registry st \<Longrightarrow> confined_registry (snd (release k h st))"
  by (cases k)
    (auto simp: confined_registry_def native_map_release_def native_log_release_def native_queue_release_def
      split: if_splits)

lemma napi_run_confined:
  assumes "confined_registry st" "there w" "napi_run J es (st, w) = (st', w')"
  shows "\<exists>s. w' = put s w"
  using assms
proof (induction es arbitrary: st w)
  case Nil
  then have "w' = put (get w) w" using put_get [of w] by simp
  then show ?case by blast
next
  case (Cons e es)
  obtain s1 w1 where s1: "napi_step J e (st, w) = (s1, w1)" by fastforce
  have step: "confined_registry s1 \<and> (\<exists>s. w1 = put s w)"
  proof (cases e)
    case (Release k h)
    then show ?thesis using s1 Cons.prems(1) release_confined put_get [OF Cons.prems(2), symmetric] by auto
  next
    case (Run op fresh now)
    then obtain r where "execute J fresh now op (st, w) = (r, (s1, w1))"
      using s1 by (cases "execute J fresh now op (st, w)") auto
    then show ?thesis using safeD [OF execute_safe Cons.prems(1,2)] by blast
  qed
  then obtain s where s: "w1 = put s w" by blast
  obtain t where "w' = put t w1"
    using Cons.IH [of s1 w1] step s put_there [OF Cons.prems(2)] Cons.prems(3) s1 by auto
  then show ?case using s put_put [OF Cons.prems(2)] by auto
qed

end

interpretation memcl: client_place "\<lambda>w. w_memories w ! i" "\<lambda>s w. w\<lparr>w_memories := (w_memories w)[i := s]\<rparr>"
    "\<lambda>w. i < length (w_memories w)" for i
  by unfold_locales

interpretation fscl: client_place w_fs "\<lambda>s w. w\<lparr>w_fs := s\<rparr>" "\<lambda>_. True"
  by unfold_locales

interpretation s3cl: client_place w_s3 "\<lambda>s w. w\<lparr>w_s3 := s\<rparr>" "\<lambda>_. True"
  by unfold_locales

section \<open>Isolation of clients\<close>

lemma memory_client_Ok:
  "memory_client J ns w0 = (Ok st, w) \<Longrightarrow>
     w = w0\<lparr>w_memories := w_memories w0 @ [State_default]\<rparr> \<and>
     st = NapiState_new (Client_Memory \<lparr>client_store = memory_at (length (w_memories w0)), client_namespace = ns\<rparr>)
       (QueueClient_Memory (memory_at (length (w_memories w0))) ns)"
  by (auto simp: memory_client_def Let_def ObjsdsBuilder_build_def ObjsdsBuilder_namespace_def ObjsdsBuilder_store_def
      ObjsdsBuilder_default_def split: if_splits)

lemma filesystem_client_Ok:
  assumes "filesystem_client J Q ns root w0 = (Ok st, w)"
  shows "(\<exists>s. w = w0\<lparr>w_fs := s\<rparr>) \<and>
     (\<exists>fst. st = NapiState_new (Client_Filesystem \<lparr>client_store = filesystem_at Q fst, client_namespace = ns\<rparr>)
       (QueueClient_Filesystem (filesystem_at Q fst) ns))"
  using assms
  by (auto simp: filesystem_client_def Let_def ObjsdsBuilder_build_def ObjsdsBuilder_namespace_def ObjsdsBuilder_store_def
      ObjsdsBuilder_default_def and_then_eq_Ok map_err_eq_Ok lift_comp_def split: if_splits prod.splits)

lemma s3_client_Ok:
  assumes "napi_s3_client J U R ns bucket region endpoint ps kid sk tok = Ok st"
  shows "\<exists>req cfg. st = NapiState_new (Client_S3 \<lparr>client_store = s3_at req cfg, client_namespace = ns\<rparr>)
    (QueueClient_S3 (s3_at req cfg) ns)"
  using assms
  by (auto simp: napi_s3_client_def Let_def ObjsdsBuilder_build_def ObjsdsBuilder_namespace_def ObjsdsBuilder_store_def
      ObjsdsBuilder_default_def split: if_splits sum.splits)



end
