(* ===== verification/Napi_Session.thy ===== *)
theory Napi_Session
  imports Napi_Isolation
begin

text \<open>
  A session of the Node binding, from the memory client down to the store: the JSON answers of
  the operations on a map's handle are those of an ordered map. Also what becomes of a handle
  when the 32-bit counter wraps around.
\<close>

section \<open>Operations on a bound map\<close>

fun bound_exec :: "('w, 'v) BoundMap \<Rightarrow> 'v map_op \<Rightarrow> ('w, NapiError, string) comp" where
  "bound_exec b (Op_get k) = bm_get_json b k"
| "bound_exec b Op_entries = bm_entries_json b"
| "bound_exec b (Op_insert k v) = bm_insert_json b k v"
| "bound_exec b (Op_insert_if_absent k v) = bm_insert_if_absent_json b k v"
| "bound_exec b (Op_remove k) = bm_remove_json b k"

text \<open>The map operation an operation on the handle stands for, when its JSON value parses.\<close>

fun map_operation :: "('v, 'j, 'x) napi_env \<Rightarrow> u32 \<Rightarrow> Operation \<Rightarrow> 'v map_op option" where
  "map_operation J h (MapGet h' k) = (if h' = h then Some (Op_get k) else None)"
| "map_operation J h (MapEntries h') = (if h' = h then Some Op_entries else None)"
| "map_operation J h (MapInsert h' k t) =
     (case ne_from_str J t of Ok v \<Rightarrow> if h' = h then Some (Op_insert k v) else None | Err _ \<Rightarrow> None)"
| "map_operation J h (MapInsertIfAbsent h' k t) =
     (case ne_from_str J t of Ok v \<Rightarrow> if h' = h then Some (Op_insert_if_absent k v) else None | Err _ \<Rightarrow> None)"
| "map_operation J h (MapRemove h' k) = (if h' = h then Some (Op_remove k) else None)"
| "map_operation J h _ = None"

text \<open>The JSON of an ordered map's answer; \<open>ver\<close> is the version a write reports.\<close>

fun napi_answer :: "('v, 'j, 'x) napi_env \<Rightarrow> 'v map_op \<Rightarrow> (string, 'v) fmap \<Rightarrow> Version \<Rightarrow> NapiError + string" where
  "napi_answer J (Op_get k) M ver = optional_json J (map_option JVal (fmlookup M k))"
| "napi_answer J Op_entries M ver = json_string J (JArr (map (\<lambda>(k, v). JArr [JStr k, JVal v]) (sorted_list_of_fmap M)))"
| "napi_answer J (Op_insert k v) M ver = json_string J (JStr (version_str ver))"
| "napi_answer J (Op_insert_if_absent k v) M ver =
     json_string J (case fmlookup M k of
       None \<Rightarrow> JObj [(''inserted'', JBool True), (''version'', JStr (version_str ver))]
     | Some old \<Rightarrow> JObj [(''inserted'', JBool False), (''value'', JVal old)])"
| "napi_answer J (Op_remove k) M ver = optional_json J (map_option JVal (fmlookup M k))"

lemma execute_map_operation:
  assumes "map_operation J h op = Some x" "ns_maps st h = Some b"
  shows "execute J fresh now op (st, w) = on_world (bound_exec b x) (st, w)"
  using assms
  by (cases op)
    (auto simp: and_then_def find_map_def parse_value_def split: if_splits sum.splits)

section \<open>On the in-memory store\<close>

definition stored_version :: "Location \<Rightarrow> State \<Rightarrow> Version option" where
  "stored_version l s = map_option obj_version (memory_view s l)"

definition same_elsewhere :: "Location \<Rightarrow> State \<Rightarrow> State \<Rightarrow> bool" where
  "same_elsewhere l s s' \<longleftrightarrow> (\<forall>l'. l' \<noteq> l \<longrightarrow> memory_view s' l' = memory_view s l')"

lemma stored_map_version: "stored_map C sch l s = Some M \<Longrightarrow> \<exists>v. stored_version l s = Some v"
  by (auto simp: stored_map_eq_Some stored_doc_eq_Some stored_version_def)

text \<open>A step of the map that is not refused: what it answers, stores and reports.\<close>

lemma map_step_memory:
  fixes C :: "('v, 'j) map_serde"
  assumes C: "map_serde_ok C" and d: "map_doc C sch l s = Some d"
    and f: "\<forall>d d' k. f d = Commit d' k \<longrightarrow> map_valid sch d' = map_valid sch d"
  shows "f d = Reply y \<Longrightarrow> \<exists>s' v. transact (map_read C (memory_map l sch)) (map_write C (memory_map l sch)) f s = (Ok y, s') \<and>
      stored_map C sch l s' = Some (md_entries d) \<and> stored_version l s' = Some v \<and> same_elsewhere l s s'"
    and "f d = Commit (with_entries g d) k \<Longrightarrow>
      \<exists>s' v. transact (map_read C (memory_map l sch)) (map_write C (memory_map l sch)) f s = (Ok (k v), s') \<and>
      stored_map C sch l s' = Some (g (md_entries d)) \<and> stored_version l s' = Some v \<and> same_elsewhere l s s'"
proof -
  let ?t = "transact (map_read C (memory_map l sch)) (map_write C (memory_map l sch)) f s"
  have serde: "\<forall>d b. ms_to_vec C d = Ok b \<longrightarrow> ms_from_slice C b = Ok d"
    using C unfolding map_serde_ok_def by (metis sum.inject(2))
  have at: "case_prod (atomic_outcome memory_view l (map_decode C sch) (\<lambda>e. Error_Store \<lparr>se_source = e\<rparr>) f s) ?t"
    by (rule map_transact_atomic [OF mem.object_store_laws_axioms TrueI serde TrueI]) (use f in blast)
  show "\<exists>s' v. ?t = (Ok y, s') \<and> stored_map C sch l s' = Some (md_entries d) \<and> stored_version l s' = Some v \<and>
      same_elsewhere l s s'" if "f d = Reply y"
    using map_reply [where f = f, OF d that] at
    by (auto simp: atomic_outcome_def same_elsewhere_def dest: stored_map_version)
  show "\<exists>s' v. ?t = (Ok (k v), s') \<and> stored_map C sch l s' = Some (g (md_entries d)) \<and> stored_version l s' = Some v \<and>
      same_elsewhere l s s'" if c: "f d = Commit (with_entries g d) k"
  proof -
    obtain v s' where r: "?t = (Ok (k v), s')" "stored_map C sch l s' = Some (g (md_entries d))"
      using map_commit [where f = f, OF C d c] by blast
    with at d c obtain v' where "k v = k v'" "stored_version l s' = Some v'" "same_elsewhere l s s'"
      by (auto simp: atomic_outcome_def same_elsewhere_def stored_version_def)
    with r show ?thesis by metis
  qed
qed

lemma answer_Ok: "c s = (Ok y, s') \<Longrightarrow> answer er c render s = (render y, s')"
  by (simp add: answer_def and_then_def map_err_def)

lemma fmdrop_absent: "fmlookup M k = None \<Longrightarrow> fmdrop k M = M"
  by (auto intro: fmap_ext)

text \<open>Each map operation on the in-memory store: answer, stored map, version and frame.\<close>

definition outcome_at ::
  "('v, 'j) map_serde \<Rightarrow> string \<Rightarrow> Location \<Rightarrow> State \<Rightarrow> (Version \<Rightarrow> 'a) \<Rightarrow> (string, 'v) fmap \<Rightarrow> ('e + 'a) \<times> State \<Rightarrow> bool" where
  "outcome_at C sch l s y M t \<longleftrightarrow>
     (\<exists>v s'. t = (Ok (y v), s') \<and> stored_map C sch l s' = Some M \<and> stored_version l s' = Some v \<and> same_elsewhere l s s')"

lemma map_step_outcome:
  fixes C :: "('v, 'j) map_serde"
  assumes "map_serde_ok C" "map_doc C sch l s = Some d"
    and "\<forall>d d' k. f d = Commit d' k \<longrightarrow> map_valid sch d' = map_valid sch d"
    and "f d = Reply (y undefined) \<and> (\<forall>v. y v = y undefined) \<and> M = md_entries d \<or>
      f d = Commit (with_entries g d) y \<and> M = g (md_entries d)"
  shows "outcome_at C sch l s y M (transact (map_read C (memory_map l sch)) (map_write C (memory_map l sch)) f s)"
  using assms(4)
proof (elim disjE conjE)
  assume r: "f d = Reply (y undefined)" "\<forall>v. y v = y undefined" "M = md_entries d"
  show ?thesis
    using map_step_memory(1) [where f = f, OF assms(1-3) r(1)] r(2,3) unfolding outcome_at_def by metis
next
  assume "f d = Commit (with_entries g d) y" "M = g (md_entries d)"
  then show ?thesis
    using map_step_memory(2) [where f = f, OF assms(1-3)] unfolding outcome_at_def by blast
qed

lemma map_ops_memory:
  assumes C: "map_serde_ok C" and st: "stored_map C sch l s = Some M"
  shows "outcome_at C sch l s (\<lambda>_. fmlookup M k) M (map_get C (memory_map l sch) k s)"
    and "outcome_at C sch l s (\<lambda>_. sorted_list_of_fmap M) M (map_entries C (memory_map l sch) s)"
    and "outcome_at C sch l s id (fmupd k x M) (map_insert C (memory_map l sch) k x s)"
    and "outcome_at C sch l s (\<lambda>v. case fmlookup M k of None \<Rightarrow> Inserted v | Some old \<Rightarrow> Occupied old)
      (if fmlookup M k = None then fmupd k x M else M) (map_insert_if_absent C (memory_map l sch) k x s)"
    and "outcome_at C sch l s (\<lambda>_. fmlookup M k) (fmdrop k M) (map_remove C (memory_map l sch) k s)"
proof -
  obtain d where d: "map_doc C sch l s = Some d" and M: "M = md_entries d"
    using st by (auto simp: stored_map_eq_Some)
  note step = map_step_outcome [OF C d]
  show "outcome_at C sch l s (\<lambda>_. fmlookup M k) M (map_get C (memory_map l sch) k s)"
    unfolding map_get_transact M by (rule step [where g = id]) (simp_all add: map_get_step_def)
  show "outcome_at C sch l s (\<lambda>_. sorted_list_of_fmap M) M (map_entries C (memory_map l sch) s)"
    unfolding map_entries_transact M by (rule step [where g = id]) (simp_all add: map_entries_step_def)
  show "outcome_at C sch l s id (fmupd k x M) (map_insert C (memory_map l sch) k x s)"
    unfolding map_insert_transact M
    by (rule step [where g = "fmupd k x"], intro allI impI, erule map_steps_valid) (simp add: map_insert_step_def)
  show "outcome_at C sch l s (\<lambda>v. case fmlookup M k of None \<Rightarrow> Inserted v | Some old \<Rightarrow> Occupied old)
      (if fmlookup M k = None then fmupd k x M else M) (map_insert_if_absent C (memory_map l sch) k x s)"
    unfolding map_insert_if_absent_transact M
    by (rule step [where g = "fmupd k x"], intro allI impI, erule map_steps_valid)
      (cases "fmlookup (md_entries d) k"; simp add: map_insert_if_absent_step_def)
  show "outcome_at C sch l s (\<lambda>_. fmlookup M k) (fmdrop k M) (map_remove C (memory_map l sch) k s)"
    unfolding map_remove_transact M
    by (rule step [where g = "fmdrop k"], intro allI impI, erule map_steps_valid)
      (cases "fmlookup (md_entries d) k"; simp add: map_remove_step_def fmdrop_absent)
qed

lemma outcome_at_answer:
  assumes "outcome_at C sch l s y M (c s)" "\<And>v. render (y v) = out v"
  shows "\<exists>s' ver. answer er c render s = (out ver, s') \<and> stored_map C sch l s' = Some M \<and>
    stored_version l s' = Some ver \<and> same_elsewhere l s s'"
  using assms by (auto simp: outcome_at_def answer_Ok)

lemma bound_exec_memory:
  assumes "map_serde_ok (ne_map_serde J)" "stored_map (ne_map_serde J) sch l s = Some M"
  shows "\<exists>s' ver. bound_exec (BoundMap_of J de (memory_map l sch)) x s = (napi_answer J x M ver, s') \<and>
    stored_map (ne_map_serde J) sch l s' = Some (snd (btree_exec x M)) \<and> stored_version l s' = Some ver \<and>
    same_elsewhere l s s'"
proof -
  note ops = map_ops_memory [OF assms] and json = BoundMap_of_def map_get_json_def map_entries_json_def
    map_insert_json_def map_insert_if_absent_json_def map_remove_json_def
  show ?thesis
  proof (cases x)
    case (Op_get k)
    show ?thesis unfolding Op_get bound_exec.simps json BoundMap.select_convs btree_exec.simps snd_conv
      by (rule outcome_at_answer, rule ops) simp
  next
    case Op_entries
    show ?thesis unfolding Op_entries bound_exec.simps json BoundMap.select_convs btree_exec.simps snd_conv
      by (rule outcome_at_answer, rule ops) simp
  next
    case (Op_insert k v)
    show ?thesis unfolding Op_insert bound_exec.simps json BoundMap.select_convs btree_exec.simps snd_conv
      by (rule outcome_at_answer, rule ops) simp
  next
    case (Op_insert_if_absent k v)
    have M: "snd (btree_exec x M) = (if fmlookup M k = None then fmupd k v M else M)"
      by (simp add: Op_insert_if_absent split: option.splits)
    show ?thesis unfolding M unfolding Op_insert_if_absent bound_exec.simps json BoundMap.select_convs
      by (rule outcome_at_answer, rule ops) (simp split: option.splits)
  next
    case (Op_remove k)
    show ?thesis unfolding Op_remove bound_exec.simps json BoundMap.select_convs btree_exec.simps snd_conv
      by (rule outcome_at_answer, rule ops) simp
  qed
qed

section \<open>In the world\<close>

abbreviation client_map :: "nat \<Rightarrow> Location \<Rightarrow> string \<Rightarrow> ('z world, Infallible) Map" where
  "client_map i l sch \<equiv> \<lparr>map_store = memory_at i, map_location = l, map_schema = sch\<rparr>"

lemma bound_exec_lifted:
  "mempl.lifted i (bound_exec (BoundMap_of J de (client_map i l sch)) x) (bound_exec (BoundMap_of J de (memory_map l sch)) x)"
  unfolding memory_at_def
  by (cases x; simp only: bound_exec.simps BoundMap_of_def BoundMap.select_convs map_get_json_def map_entries_json_def
      map_insert_json_def map_insert_if_absent_json_def map_remove_json_def answer_def; intro lift_intros)

lemma client_map_exec:
  assumes "map_serde_ok (ne_map_serde J)" "i < length (w_memories w)"
    "stored_map (ne_map_serde J) sch l (w_memories w ! i) = Some M"
    "map_operation J h op = Some x" "ns_maps st h = Some (BoundMap_of J de (client_map i l sch))"
  shows "\<exists>s' ver. execute J fresh now op (st, w) = (napi_answer J x M ver, (st, w\<lparr>w_memories := (w_memories w)[i := s']\<rparr>)) \<and>
    stored_map (ne_map_serde J) sch l s' = Some (snd (btree_exec x M)) \<and> stored_version l s' = Some ver \<and>
    same_elsewhere l (w_memories w ! i) s'"
proof -
  obtain s' ver where s': "bound_exec (BoundMap_of J de (memory_map l sch)) x (w_memories w ! i) = (napi_answer J x M ver, s')"
      "stored_map (ne_map_serde J) sch l s' = Some (snd (btree_exec x M))" "stored_version l s' = Some ver"
      "same_elsewhere l (w_memories w ! i) s'"
    using bound_exec_memory [OF assms(1,3)] by blast
  from mempl.liftedD [OF bound_exec_lifted assms(2) s'(1)]
  have "execute J fresh now op (st, w) = (napi_answer J x M ver, (st, w\<lparr>w_memories := (w_memories w)[i := s']\<rparr>))"
    by (simp add: execute_map_operation [OF assms(4,5)] on_world_def)
  with s'(2-4) show ?thesis by blast
qed

lemma create_structure_absent:
  "fmlookup (st_objects s) l = None \<Longrightarrow> create_structure memory_store l (Ok b) s = (Ok (), memory_put l b s)"
  by (simp add: create_structure_def lifecycle_create_def and_then_def map_err_def memory_create_absent)

lemma bind_created:
  fixes J :: "('v, 'j, 'x) napi_env"
  assumes "MapBuilder_finish (MapBuilder_schema sch (Objsds_map c name)) = Ok m"
    "map_empty_bytes (ne_map_serde J) m = Ok b" "create_structure (map_store m) (map_location m) (Ok b :: ('j, Infallible) Error + bytes) w = (Ok (), w')"
  shows "bind_client_map J (Client_Memory c) Create name sch w = (Ok (BoundMap_of J (ne_never_display J) m), w')"
  using assms by (simp add: bind_client_map_def open_map_def MapBuilder_create_def and_then_def map_err_def)

lemma client_map_created:
  fixes w :: "'z world" and J :: "('v, 'j, 'x) napi_env"
  assumes C: "map_serde_ok (ne_map_serde J)" and i: "i < length (w_memories w)"
    and names: "is_path_segment ns" "is_path_segment name" "sch \<noteq> []"
    and absent: "fmlookup (st_objects (w_memories w ! i)) (map_loc ns name) = None"
  shows "\<exists>s'. bind_client_map J (Client_Memory \<lparr>client_store = memory_at i, client_namespace = ns\<rparr>) Create name sch w
      = (Ok (BoundMap_of J (ne_never_display J) (client_map i (map_loc ns name) sch)),
         w\<lparr>w_memories := (w_memories w)[i := s']\<rparr>) \<and>
    stored_map (ne_map_serde J) sch (map_loc ns name) s' = Some fmempty \<and>
    same_elsewhere (map_loc ns name) (w_memories w ! i) s'"
proof -
  let ?l = "map_loc ns name" and ?s = "w_memories w ! i"
  obtain b where b: "map_empty_bytes (ne_map_serde J) (client_map i ?l sch :: ('z world, _) Map) = Ok b"
      "map_empty_bytes (ne_map_serde J) (memory_map ?l sch) = Ok b"
    using map_empty_encodes [OF C] by (fastforce simp: map_empty_bytes_def)
  from mempl.liftedD [OF mempl.lifted_create i create_structure_absent [OF absent]]
  have create: "create_structure (memory_at i) ?l (Ok b :: ('j, Infallible) Error + bytes) w = (Ok (), w\<lparr>w_memories := (w_memories w)[i := memory_put ?l b ?s]\<rparr>)"
    unfolding memory_at_def .
  have "bind_client_map J (Client_Memory \<lparr>client_store = memory_at i, client_namespace = ns\<rparr>) Create name sch w
      = (Ok (BoundMap_of J (ne_never_display J) (client_map i ?l sch)), w\<lparr>w_memories := (w_memories w)[i := memory_put ?l b ?s]\<rparr>)"
    using names by (intro bind_created [OF _ b(1)]) (simp add: MapBuilder_finish_client, unfold Map.select_convs, rule create)
  moreover have "same_elsewhere ?l ?s (memory_put ?l b ?s)" by (simp add: same_elsewhere_def memory_put_view)
  ultimately show ?thesis using map_put_empty [OF C b(2)] by blast
qed

section \<open>Sessions\<close>

text \<open>Calls made one after the other, each with the identifier and clock it would draw.\<close>

fun napi_calls ::
  "('v, 'j, 'x) napi_env \<Rightarrow> (Operation \<times> uuid \<times> (SystemClock \<Rightarrow> u64)) list \<Rightarrow> ('z, 'x, 'v) NapiState \<times> 'z world
   \<Rightarrow> (NapiError + string) list \<times> ('z, 'x, 'v) NapiState \<times> 'z world" where
  "napi_calls J [] s = ([], s)"
| "napi_calls J ((op, fresh, now) # cs) s =
     (let (r, s') = execute J fresh now op s; (rs, s'') = napi_calls J cs s' in (r # rs, s''))"

fun napi_answers :: "('v, 'j, 'x) napi_env \<Rightarrow> 'v map_op list \<Rightarrow> (string, 'v) fmap \<Rightarrow> Version list \<Rightarrow> (NapiError + string) list" where
  "napi_answers J (x # xs) M (v # vs) = napi_answer J x M v # napi_answers J xs (snd (btree_exec x M)) vs"
| "napi_answers J _ M _ = []"

lemma client_map_calls:
  assumes "map_serde_ok (ne_map_serde J)" "ns_maps st h = Some (BoundMap_of J de (client_map i l sch))"
    and "list_all2 (\<lambda>c x. map_operation J h (fst c) = Some x) cs xs" "i < length (w_memories w)"
    and "stored_map (ne_map_serde J) sch l (w_memories w ! i) = Some M"
  shows "\<exists>vs s'. length vs = length xs \<and>
    napi_calls J cs (st, w) = (napi_answers J xs M vs, (st, w\<lparr>w_memories := (w_memories w)[i := s']\<rparr>)) \<and>
    stored_map (ne_map_serde J) sch l s' = Some (snd (btree_run xs M))"
  using assms(3-5)
proof (induction cs xs arbitrary: w M rule: list_all2_induct)
  case Nil
  then show ?case by (intro exI [of _ "[]"] exI [of _ "w_memories w ! i"]) simp
next
  case (Cons c cs x xs)
  obtain op fresh now where c: "c = (op, fresh, now)" by (cases c)
  obtain s1 v where s1: "execute J fresh now op (st, w) = (napi_answer J x M v, (st, w\<lparr>w_memories := (w_memories w)[i := s1]\<rparr>))"
      "stored_map (ne_map_serde J) sch l s1 = Some (snd (btree_exec x M))"
    using client_map_exec [OF assms(1) Cons.prems _ assms(2)] Cons.hyps(1) c by fastforce
  let ?w1 = "w\<lparr>w_memories := (w_memories w)[i := s1]\<rparr>"
  obtain vs s' where "length vs = length xs"
      "napi_calls J cs (st, ?w1) = (napi_answers J xs (snd (btree_exec x M)) vs, (st, ?w1\<lparr>w_memories := (w_memories ?w1)[i := s']\<rparr>))"
      "stored_map (ne_map_serde J) sch l s' = Some (snd (btree_run xs (snd (btree_exec x M))))"
    using Cons.IH [of ?w1 "snd (btree_exec x M)"] Cons.prems(1) s1(2) by auto
  then show ?case
    by (intro exI [of _ "v # vs"] exI [of _ s']) (simp add: c s1(1) split_beta)
qed

text \<open>
  C17: a whole session, from the constructor to the bytes. A client made by \<open>memory_client\<close> creates
  a map and gets handle 1; after that every sequence of map calls on the handle whose values are
  valid JSON answers the JSON of what an ordered map answers, starting from the empty map, and the
  client's memory holds that map at the end.
\<close>

theorem napi_memory_session:
  assumes "map_serde_ok (ne_map_serde J)" "is_path_segment ns" "is_path_segment name" "sch \<noteq> []"
    and "list_all2 (\<lambda>c x. map_operation J 1 (fst c) = Some x) cs xs"
    and "memory_client J ns w0 = (Ok st0, w1)"
  shows "\<exists>vs st w. length vs = length xs \<and>
    napi_calls J ((MapLifecycle Create name sch, fresh, now) # cs) (st0, w1)
      = (json_string J (JNat 1) # napi_answers J xs fmempty vs, (st, w)) \<and>
    stored_map (ne_map_serde J) sch (map_loc ns name) (w_memories w ! length (w_memories w0))
      = Some (snd (btree_run xs fmempty))"
proof -
  let ?i = "length (w_memories w0)" and ?l = "map_loc ns name"
  note c = memory_client_Ok [OF assms(6)]
  have i: "?i < length (w_memories w1)" and none: "fmlookup (st_objects (w_memories w1 ! ?i)) ?l = None"
    using c by (simp_all add: State_default_def)
  obtain s1 where s1: "bind_client_map J (Client_Memory \<lparr>client_store = memory_at ?i, client_namespace = ns\<rparr>) Create name sch w1
      = (Ok (BoundMap_of J (ne_never_display J) (client_map ?i ?l sch)), w1\<lparr>w_memories := (w_memories w1)[?i := s1]\<rparr>)"
      "stored_map (ne_map_serde J) sch ?l s1 = Some fmempty"
    using client_map_created [OF assms(1) i assms(2-4) none] by blast
  let ?w = "w1\<lparr>w_memories := (w_memories w1)[?i := s1]\<rparr>"
  define st where "st = st0\<lparr>ns_next_handle := 2, ns_maps := [1 \<mapsto> BoundMap_of J (ne_never_display J) (client_map ?i ?l sch)]\<rparr>"
  have first: "execute J fresh now (MapLifecycle Create name sch) (st0, w1) = (json_string J (JNat 1), (st, ?w))"
    using s1(1) by (simp add: c st_def map_lifecycle_def draw_handle_def NapiState_handle_def NapiState_new_def
        and_then_def on_world_def)
  obtain vs s' where calls: "length vs = length xs"
      "napi_calls J cs (st, ?w) = (napi_answers J xs fmempty vs, (st, ?w\<lparr>w_memories := (w_memories ?w)[?i := s']\<rparr>))"
      "stored_map (ne_map_serde J) sch ?l s' = Some (snd (btree_run xs fmempty))"
    using client_map_calls [OF assms(1) _ assms(5), of st "ne_never_display J" ?i ?l sch ?w fmempty] s1(2) i
    by (auto simp: st_def)
  then show ?thesis using first i
    by (intro exI [of _ vs] exI [of _ st] exI [of _ "?w\<lparr>w_memories := (w_memories ?w)[?i := s']\<rparr>"]) simp
qed

theorem napi_memory_session_witness:
  "\<exists>st0 w1 v s. memory_client sample_napi_env ''prod'' sample_world = (Ok st0, w1) \<and>
     napi_calls sample_napi_env
       [(MapLifecycle Create ''users'' ''user-v1'', 7, \<lambda>_. 0),
        (MapInsert 1 ''ada'' [CHR 0x22, CHR ''1'', CHR 0x22], 8, \<lambda>_. 0), (MapGet 1 ''ada'', 9, \<lambda>_. 0),
        (MapRemove 1 ''bob'', 10, \<lambda>_. 0)] (st0, w1)
     = ([Ok ''1'', Ok (show_json (JStr v)), Ok (show_json (JObj [(''found'', JBool True), (''value'', JVal ''1'')])),
         Ok (show_json (JObj [(''found'', JBool False)]))], s)"
proof -
  have seg: "is_path_segment ''prod''" "is_path_segment ''users''" "''user-v1'' \<noteq> []" by code_simp+
  then obtain st0 w1 where c: "memory_client sample_napi_env ''prod'' sample_world = (Ok st0, w1)"
    by (simp add: memory_client_def Let_def ObjsdsBuilder_build_def ObjsdsBuilder_namespace_def ObjsdsBuilder_store_def
        ObjsdsBuilder_default_def)
  let ?cs = "[(MapInsert 1 ''ada'' [CHR 0x22, CHR ''1'', CHR 0x22], 8, \<lambda>_. 0), (MapGet 1 ''ada'', 9, \<lambda>_. 0),
    (MapRemove 1 ''bob'', 10, \<lambda>_. 0)]"
  let ?xs = "[Op_insert ''ada'' ''1'', Op_get ''ada'', Op_remove ''bob'']"
  have ops: "list_all2 (\<lambda>c x. map_operation sample_napi_env 1 (fst c) = Some x) ?cs ?xs"
    by (simp add: sample_napi_env_def)
  have C: "map_serde_ok (ne_map_serde sample_napi_env)" by (simp add: sample_napi_env_def sample_map_serde_ok)
  obtain vs st w where vs: "length vs = length ?xs"
      "napi_calls sample_napi_env ((MapLifecycle Create ''users'' ''user-v1'', 7, \<lambda>_. 0) # ?cs) (st0, w1)
        = (json_string sample_napi_env (JNat 1) # napi_answers sample_napi_env ?xs fmempty vs, (st, w))"
    using napi_memory_session [OF C seg ops c] by blast
  then obtain v1 v2 v3 where "vs = [v1, v2, v3]" by (auto simp: length_Suc_conv numeral_3_eq_3)
  moreover have "show_nat 1 = ''1''" by code_simp
  ultimately have "json_string sample_napi_env (JNat 1) # napi_answers sample_napi_env ?xs fmempty vs =
    [Ok ''1'', Ok (show_json (JStr (version_str v1))), Ok (show_json (JObj [(''found'', JBool True), (''value'', JVal ''1'')])),
     Ok (show_json (JObj [(''found'', JBool False)]))]"
    by (simp add: json_string_def optional_json_def sample_napi_env_def)
  with c vs(2) show ?thesis by metis
qed

section \<open>When the handle counter wraps around\<close>

lemma execute_map_bound:
  assumes "bind_client_map J (ns_client st) lc name sch w = (Ok m, w')"
  shows "execute J fresh now (MapLifecycle lc name sch) (st, w) =
    (json_string J (JNat (unat (ns_next_handle st))),
     (st\<lparr>ns_next_handle := ns_next_handle st + 1, ns_maps := (ns_maps st)(ns_next_handle st \<mapsto> m)\<rparr>, w'))"
  using assms by (simp add: map_lifecycle_def draw_handle_def NapiState_handle_def and_then_def on_world_def)

text \<open>
  C31: handles are not fresh for ever. Once \<open>2^32\<close> creates or opens were attempted (failed ones count)
  the counter is back where it was: the next map opened gets the handle of that time again, and
  replaces whatever structure is valid under it, so that calls on the old handle reach the new map.
\<close>

theorem napi_handles_recycle:
  assumes "drawn es = 2 ^ 32" "napi_run J es (st, w) = (st', w')"
    "bind_client_map J (ns_client st') lc name sch w' = (Ok m, w'')"
  shows "ns_next_handle st' = ns_next_handle st \<and>
    execute J fresh now (MapLifecycle lc name sch) (st', w') =
      (json_string J (JNat (unat (ns_next_handle st))),
       (st'\<lparr>ns_next_handle := ns_next_handle st + 1, ns_maps := (ns_maps st')(ns_next_handle st \<mapsto> m)\<rparr>, w''))"
proof -
  have "(of_nat (2 ^ 32) :: u32) = 0" by simp
  then have "ns_next_handle st' = ns_next_handle st"
    using napi_run_next [of J es st w] assms(1,2) by simp
  then show ?thesis using execute_map_bound [OF assms(3)] by simp
qed

text \<open>Opening a map with an empty name fails, and draws a handle.\<close>

abbreviation failed_open :: napi_event where
  "failed_open \<equiv> Run (MapLifecycle Open [] ''v1'') 0 (\<lambda>_. 0)"

lemma failed_open_step:
  assumes "ns_client st = Client_Memory \<lparr>client_store = S, client_namespace = ns\<rparr>"
  shows "napi_step J failed_open (st, w) = (st\<lparr>ns_next_handle := ns_next_handle st + 1\<rparr>, w)"
  using assms
  by (simp add: map_lifecycle_def draw_handle_def NapiState_handle_def and_then_def on_world_def bind_client_map_def
      open_map_def MapBuilder_open_def MapBuilder_finish_client map_err_def is_path_segment_def)

lemma failed_opens:
  assumes "ns_client st = Client_Memory \<lparr>client_store = S, client_namespace = ns\<rparr>"
  shows "napi_run J (replicate n failed_open) (st, w) = (st\<lparr>ns_next_handle := ns_next_handle st + of_nat n\<rparr>, w)"
  using assms
proof (induction n arbitrary: st)
  case (Suc n)
  then show ?case
    by (simp del: napi_step.simps add: failed_open_step [OF Suc.prems] Suc.IH add.assoc)
qed simp

lemma drawn_failed_opens: "drawn (replicate n failed_open) = n"
  by (induction n) (simp_all add: drawn_def)

theorem napi_handles_recycle_witness:
  "let m1 = BoundMap_of sample_napi_env (ne_never_display sample_napi_env) (client_map 0 (map_loc ''prod'' ''users'') ''v1'');
       m2 = BoundMap_of sample_napi_env (ne_never_display sample_napi_env) (client_map 0 (map_loc ''prod'' ''teams'') ''v1'');
       create = (\<lambda>name. MapLifecycle Create name ''v1'');
       s1 = napi_run sample_napi_env [Run (create ''users'') 0 (\<lambda>_. 0)] (sample_napi_state, sample_world);
       s2 = napi_run sample_napi_env (replicate (2 ^ 32 - 1) failed_open) s1;
       (r, s3) = execute sample_napi_env 0 (\<lambda>_. 0) (create ''teams'') s2
   in ns_maps (fst s1) 1 = Some m1 \<and> ns_maps (fst s2) 1 = Some m1 \<and> r = Ok ''1'' \<and> ns_maps (fst s3) 1 = Some m2"
proof -
  let ?J = sample_napi_env and ?l1 = "map_loc ''prod'' ''users''" and ?l2 = "map_loc ''prod'' ''teams''"
  let ?m1 = "BoundMap_of ?J (ne_never_display ?J) (client_map 0 ?l1 ''v1'')"
  let ?m2 = "BoundMap_of ?J (ne_never_display ?J) (client_map 0 ?l2 ''v1'')"
  let ?c = "Client_Memory \<lparr>client_store = memory_at 0, client_namespace = ''prod''\<rparr>"
  have seg: "is_path_segment ''prod''" "is_path_segment ''users''" "is_path_segment ''teams''" "''v1'' \<noteq> []" by code_simp+
  have C: "map_serde_ok (ne_map_serde ?J)" by (simp add: sample_napi_env_def sample_map_serde_ok)
  have "0 < length (w_memories sample_world)" "fmlookup (st_objects (w_memories sample_world ! 0)) ?l1 = None"
    by (simp_all add: sample_world_def State_default_def)
  from client_map_created [OF C this(1) seg(1,2,4) this(2)] obtain t1 where
    t1: "bind_client_map ?J ?c Create ''users'' ''v1'' sample_world = (Ok ?m1, sample_world\<lparr>w_memories := (w_memories sample_world)[0 := t1]\<rparr>)"
      "same_elsewhere ?l1 (w_memories sample_world ! 0) t1" by blast
  let ?w1 = "sample_world\<lparr>w_memories := (w_memories sample_world)[0 := t1]\<rparr>"
  have "0 < length (w_memories ?w1)" and absent: "fmlookup (st_objects (w_memories ?w1 ! 0)) ?l2 = None"
    using t1(2) by (simp_all add: sample_world_def State_default_def same_elsewhere_def memory_view_def)
  from client_map_created [OF C this(1) seg(1,3,4) this(2)] obtain w2 where
    w2: "bind_client_map ?J ?c Create ''teams'' ''v1'' ?w1 = (Ok ?m2, w2)" by blast
  let ?st1 = "sample_napi_state\<lparr>ns_next_handle := 2, ns_maps := [1 \<mapsto> ?m1]\<rparr>"
  let ?e1 = "Run (MapLifecycle Create ''users'' ''v1'') 0 (\<lambda>_. 0)"
  let ?n = "2 ^ 32 - 1 :: nat"
  have s1: "napi_run ?J [?e1] (sample_napi_state, sample_world) = (?st1, ?w1)"
    using execute_map_bound [of ?J sample_napi_state Create "''users''" "''v1''" sample_world] t1(1)
    by (simp add: NapiState_new_def)
  have s2: "napi_run ?J (replicate ?n failed_open) (?st1, ?w1) = (?st1\<lparr>ns_next_handle := 2 + of_nat ?n\<rparr>, ?w1)"
    by (subst failed_opens) (simp_all add: NapiState_new_def)
  have run: "napi_run ?J (?e1 # replicate ?n failed_open) (sample_napi_state, sample_world) = (?st1\<lparr>ns_next_handle := 2 + of_nat ?n\<rparr>, ?w1)"
    using napi_run_append [of ?J "[?e1]" "replicate ?n failed_open"] s1 s2 by simp
  have d: "drawn (?e1 # replicate ?n failed_open) = 2 ^ 32"
    by (simp only: drawn_Cons drawn_failed_opens drawn_kind.simps) simp
  have "bind_client_map ?J (ns_client (?st1\<lparr>ns_next_handle := 2 + of_nat ?n\<rparr>)) Create ''teams'' ''v1'' ?w1 = (Ok ?m2, w2)"
    using w2 by (simp add: NapiState_new_def)
  note recycle = napi_handles_recycle [OF d run this, THEN conjunct2, of 0 "\<lambda>_. 0"]
  have one: "json_string ?J (JNat (unat (ns_next_handle sample_napi_state))) = Ok ''1''"
    by (simp add: json_string_def sample_napi_env_def NapiState_new_def) code_simp
  show ?thesis
    unfolding Let_def s1 s2 recycle one by (simp add: NapiState_new_def)
qed

end
