(* ===== verification/Napi_Types.thy ===== *)
theory Napi_Types
  imports Napi_Properties
begin

text \<open>
  The types of the answers that cross from the Node binding to JavaScript. The TypeScript facade
  (\<open>npm/src/index.ts\<close>) parses the text of an answer and takes the value for the type it declares,
  without a check: whatever a client has done before, the answers of \<open>execute\<close> have these types, and
  its errors are envelopes with a declared code.
\<close>

section \<open>The declared types\<close>

text \<open>A type is the predicate of the JSON values it admits; \<open>T\<close>, the type of application values, is \<open>ts_value\<close>.\<close>

fun ts_string :: "'v json \<Rightarrow> bool" where
  "ts_string (JStr _) = True"
| "ts_string _ = False"

fun ts_number :: "'v json \<Rightarrow> bool" where
  "ts_number (JNat _) = True"
| "ts_number _ = False"

fun ts_boolean :: "'v json \<Rightarrow> bool" where
  "ts_boolean (JBool _) = True"
| "ts_boolean _ = False"

fun ts_value :: "'v json \<Rightarrow> bool" where
  "ts_value (JVal _) = True"
| "ts_value _ = False"

fun ts_bool :: "bool \<Rightarrow> 'v json \<Rightarrow> bool" where
  "ts_bool b (JBool c) = (c = b)"
| "ts_bool b _ = False"

fun ts_array :: "('v json \<Rightarrow> bool) \<Rightarrow> 'v json \<Rightarrow> bool" where
  "ts_array P (JArr xs) = list_all P xs"
| "ts_array P _ = False"

fun ts_tuple :: "('v json \<Rightarrow> bool) list \<Rightarrow> 'v json \<Rightarrow> bool" where
  "ts_tuple Ps (JArr xs) = list_all2 (\<lambda>P x. P x) Ps xs"
| "ts_tuple Ps _ = False"

fun ts_object :: "(string \<times> ('v json \<Rightarrow> bool)) list \<Rightarrow> 'v json \<Rightarrow> bool" where
  "ts_object fs (JObj ms) = list_all2 (\<lambda>(k, P) (k', x). k' = k \<and> P x) fs ms"
| "ts_object fs _ = False"

text \<open>What \<open>nativeOptional\<close> takes an answer for.\<close>

definition ts_optional :: "('v json \<Rightarrow> bool) \<Rightarrow> 'v json \<Rightarrow> bool" where
  "ts_optional P x \<longleftrightarrow>
     ts_object [(''found'', ts_bool False)] x \<or> ts_object [(''found'', ts_bool True), (''value'', P)] x"

definition ts_LogRecord :: "'v json \<Rightarrow> bool" where
  "ts_LogRecord = ts_object [(''id'', ts_string), (''value'', ts_value)]"

definition ts_InsertIfAbsent :: "'v json \<Rightarrow> bool" where
  "ts_InsertIfAbsent x \<longleftrightarrow>
     ts_object [(''inserted'', ts_bool True), (''version'', ts_string)] x \<or>
     ts_object [(''inserted'', ts_bool False), (''value'', ts_value)] x"

definition ts_QueueClaim :: "'v json \<Rightarrow> bool" where
  "ts_QueueClaim = ts_object [(''id'', ts_string), (''value'', ts_value), (''leaseToken'', ts_string),
     (''attempt'', ts_number), (''leaseExpiresAtMillis'', ts_number)]"

definition ts_Ack :: "'v json \<Rightarrow> bool" where
  "ts_Ack x \<longleftrightarrow> x \<in> {JStr ''acknowledged'', JStr ''notFound'', JStr ''leaseMismatch'', JStr ''leaseExpired''}"

definition ObjsdsErrorCode :: "string list" where
  "ObjsdsErrorCode =
     [''ERR_OBJSDS_INVALID_CONFIGURATION'', ''ERR_OBJSDS_INVALID_JSON'', ''ERR_OBJSDS_INVALID_LOG_ID'',
      ''ERR_OBJSDS_INVALID_MESSAGE_ID'', ''ERR_OBJSDS_INVALID_LEASE_TOKEN'', ''ERR_OBJSDS_INVALID_HANDLE'',
      ''ERR_OBJSDS_NOT_FOUND'', ''ERR_OBJSDS_ALREADY_EXISTS'', ''ERR_OBJSDS_CONFLICT'',
      ''ERR_OBJSDS_INCOMPATIBLE'', ''ERR_OBJSDS_DOCUMENT'', ''ERR_OBJSDS_STORE'']"

text \<open>The type at which a method of the facade parses the answer to its operation.\<close>

fun map_answer :: "Operation \<Rightarrow> 'v json \<Rightarrow> bool" where
  "map_answer (MapLifecycle _ _ _) = ts_number"
| "map_answer (MapGet _ _) = ts_optional ts_value"
| "map_answer (MapEntries _) = ts_array (ts_tuple [ts_string, ts_value])"
| "map_answer (MapInsert _ _ _) = ts_string"
| "map_answer (MapInsertIfAbsent _ _ _) = ts_InsertIfAbsent"
| "map_answer (MapRemove _ _) = ts_optional ts_value"
| "map_answer _ = (\<lambda>_. False)"

fun log_answer :: "Operation \<Rightarrow> 'v json \<Rightarrow> bool" where
  "log_answer (LogLifecycle _ _ _) = ts_number"
| "log_answer (LogAppend _ _) = ts_string"
| "log_answer (LogGet _ _) = ts_optional ts_LogRecord"
| "log_answer (LogRecords _) = ts_array ts_LogRecord"
| "log_answer (LogRecordsAfter _ _) = ts_array ts_LogRecord"
| "log_answer _ = (\<lambda>_. False)"

fun queue_answer :: "Operation \<Rightarrow> 'v json \<Rightarrow> bool" where
  "queue_answer (QueueLifecycle _ _ _) = ts_number"
| "queue_answer (QueuePublish _ _) = ts_string"
| "queue_answer (QueueClaim _ _) = ts_optional ts_QueueClaim"
| "queue_answer (QueueAck _ _ _) = ts_Ack"
| "queue_answer (QueueLen _) = ts_number"
| "queue_answer (QueueIsEmpty _) = ts_boolean"
| "queue_answer _ = (\<lambda>_. False)"

definition answer_type :: "Operation \<Rightarrow> 'v json \<Rightarrow> bool" where
  "answer_type op x \<longleftrightarrow> map_answer op x \<or> log_answer op x \<or> queue_answer op x"

lemma answer_type_simps [simp]:
  "answer_type (MapLifecycle a1 b1 c1) = ts_number"
  "answer_type (MapGet a2 b2) = ts_optional ts_value"
  "answer_type (MapEntries a3) = ts_array (ts_tuple [ts_string, ts_value])"
  "answer_type (MapInsert a4 b4 c4) = ts_string"
  "answer_type (MapInsertIfAbsent a5 b5 c5) = ts_InsertIfAbsent"
  "answer_type (MapRemove a6 b6) = ts_optional ts_value"
  "answer_type (LogLifecycle a7 b7 c7) = ts_number"
  "answer_type (LogAppend a8 b8) = ts_string"
  "answer_type (LogGet a9 b9) = ts_optional ts_LogRecord"
  "answer_type (LogRecords a10) = ts_array ts_LogRecord"
  "answer_type (LogRecordsAfter a11 b11) = ts_array ts_LogRecord"
  "answer_type (QueueLifecycle a12 b12 c12) = ts_number"
  "answer_type (QueuePublish a13 b13) = ts_string"
  "answer_type (QueueClaim a14 b14) = ts_optional ts_QueueClaim"
  "answer_type (QueueAck a15 b15 c15) = ts_Ack"
  "answer_type (QueueLen a16) = ts_number"
  "answer_type (QueueIsEmpty a17) = ts_boolean"
  by (simp_all add: answer_type_def fun_eq_iff)

section \<open>Typed computations\<close>

text \<open>A declared error, and a result that is the text of a value of type \<open>T\<close> or a declared error.\<close>

definition declared :: "('v, 'j, 'x) napi_env \<Rightarrow> NapiError \<Rightarrow> bool" where
  "declared J e \<longleftrightarrow> (\<exists>code message details. code \<in> set ObjsdsErrorCode \<and> e = binding_error J code message details)"

definition typed :: "('v, 'j, 'x) napi_env \<Rightarrow> ('v json \<Rightarrow> bool) \<Rightarrow> NapiError + string \<Rightarrow> bool" where
  "typed J T r \<longleftrightarrow> (case r of Ok t \<Rightarrow> \<exists>x. T x \<and> ne_to_string J x = Ok t | Err e \<Rightarrow> declared J e)"

definition typed_comp :: "('v, 'j, 'x) napi_env \<Rightarrow> ('v json \<Rightarrow> bool) \<Rightarrow> ('w, NapiError, string) comp \<Rightarrow> bool" where
  "typed_comp J T c \<longleftrightarrow> (\<forall>w. typed J T (fst (c w)))"

definition fails_declared :: "('v, 'j, 'x) napi_env \<Rightarrow> ('w, NapiError, 'a) comp \<Rightarrow> bool" where
  "fails_declared J c \<longleftrightarrow> (\<forall>w e t. c w = (Err e, t) \<longrightarrow> declared J e)"

named_theorems typing \<open>typing rules of the answers\<close>

lemma declared_binding_error: "code \<in> set ObjsdsErrorCode \<Longrightarrow> declared J (binding_error J code message details)"
  unfolding declared_def by blast

lemma declared_binding_error_code [simp]:
  "declared J (configuration_error J text)" "declared J (invalid_handle J)"
  by (simp_all add: configuration_error_def invalid_handle_def declared_binding_error ObjsdsErrorCode_def)

lemma declared_operation_error [typing]: "declared J (operation_error J de e)"
  by (cases e) (simp_all add: declared_binding_error ObjsdsErrorCode_def)

lemma declared_queue_error [typing]: "declared J (queue_error J de e)"
  by (cases e) (simp_all add: declared_binding_error ObjsdsErrorCode_def)

lemma typed_json_string [typing]: "T x \<Longrightarrow> typed J T (json_string J x)"
  by (auto simp: typed_def json_string_def map_error_def declared_binding_error ObjsdsErrorCode_def split: sum.splits)

lemma typed_optional_json [typing]:
  "(\<And>y. x = Some y \<Longrightarrow> P y) \<Longrightarrow> typed J (ts_optional P) (optional_json J x)"
  by (cases x) (auto simp: optional_json_def ts_optional_def intro!: typed_json_string)

lemma typed_answer [typing]:
  "(\<And>e. declared J (er e)) \<Longrightarrow> (\<And>x. typed J T (render x)) \<Longrightarrow> typed_comp J T (answer er c render)"
  by (auto simp: typed_comp_def answer_def and_then_def map_err_def typed_def split: prod.splits sum.splits)

lemma typed_and_then:
  assumes "fails_declared J c" "\<And>x t. c s = (Ok x, t) \<Longrightarrow> typed J T (fst (k x t))"
  shows "typed J T (fst (and_then c k s))"
proof (cases "c s")
  case (Pair r t)
  then show ?thesis
    using assms by (cases r) (auto simp: and_then_def fails_declared_def typed_def)
qed

lemma typed_on_world: "typed_comp J T c \<Longrightarrow> typed J T (fst (on_world c s))"
  by (cases s) (auto simp: on_world_def typed_comp_def split: prod.splits dest: spec [of _ "snd s"])

lemma map_sum_eq_Err: "map_sum f g x = Err e \<longleftrightarrow> (\<exists>a. x = Err a \<and> e = f a)"
  by (cases x) auto

lemma parse_declared [typing]:
  "fails_declared J (lift_result (parse_value J text))" "fails_declared J (lift_result (parse_log_id J text))"
  "fails_declared J (lift_result (parse_message_id J text))" "fails_declared J (lift_result (parse_lease_token J text))"
  "fails_declared J (lift_result (lease_from_i64 J millis))"
  by (auto simp: fails_declared_def parse_value_def parse_log_id_def parse_message_id_def parse_lease_token_def
      lease_from_i64_def map_error_def map_sum_eq_Err declared_binding_error ObjsdsErrorCode_def
      split: sum.splits if_splits)

lemma find_declared [typing]:
  "fails_declared J (find_map J h)" "fails_declared J (find_log J h)" "fails_declared J (find_queue J h)"
  by (auto simp: fails_declared_def find_map_def find_log_def find_queue_def ok_or_def split: option.splits)

section \<open>Typed structures\<close>

definition typed_BoundMap :: "('v, 'j, 'x) napi_env \<Rightarrow> ('w, 'v) BoundMap \<Rightarrow> bool" where
  "typed_BoundMap J m \<longleftrightarrow>
     (\<forall>k. typed_comp J (ts_optional ts_value) (bm_get_json m k)) \<and>
     typed_comp J (ts_array (ts_tuple [ts_string, ts_value])) (bm_entries_json m) \<and>
     (\<forall>k v. typed_comp J ts_string (bm_insert_json m k v)) \<and>
     (\<forall>k v. typed_comp J ts_InsertIfAbsent (bm_insert_if_absent_json m k v)) \<and>
     (\<forall>k. typed_comp J (ts_optional ts_value) (bm_remove_json m k))"

definition typed_BoundLog :: "('v, 'j, 'x) napi_env \<Rightarrow> ('w, 'v) BoundLog \<Rightarrow> bool" where
  "typed_BoundLog J g \<longleftrightarrow>
     (\<forall>u v. typed_comp J ts_string (bl_append_json g u v)) \<and>
     (\<forall>i. typed_comp J (ts_optional ts_LogRecord) (bl_get_json g i)) \<and>
     typed_comp J (ts_array ts_LogRecord) (bl_records_json g) \<and>
     (\<forall>i. typed_comp J (ts_array ts_LogRecord) (bl_records_after_json g i))"

definition typed_BoundQueue :: "('v, 'j, 'x) napi_env \<Rightarrow> ('w, 'v) BoundQueue \<Rightarrow> bool" where
  "typed_BoundQueue J q \<longleftrightarrow>
     (\<forall>u v. typed_comp J ts_string (bq_publish_json q u v)) \<and>
     (\<forall>now u n. typed_comp J (ts_optional ts_QueueClaim) (bq_claim_json q now u n)) \<and>
     (\<forall>now i t. typed_comp J ts_Ack (bq_ack_json q now i t)) \<and>
     typed_comp J ts_number (bq_len_json q) \<and> typed_comp J ts_boolean (bq_is_empty_json q)"

lemma ts_Record [simp]: "ts_LogRecord (json_Record J r)"
  by (simp add: ts_LogRecord_def json_Record_def)

lemma ts_Claim [simp]: "ts_QueueClaim (json_Claim J c)"
  by (simp add: ts_QueueClaim_def json_Claim_def)

lemma ts_json_Ack [simp]: "ts_Ack (JStr (json_Ack a))"
  by (cases a) (simp_all add: ts_Ack_def)

lemma typed_BoundMap_of: "typed_BoundMap J (BoundMap_of J de m)"
  unfolding typed_BoundMap_def BoundMap_of_def BoundMap.simps map_get_json_def map_entries_json_def
    map_insert_json_def map_insert_if_absent_json_def map_remove_json_def
  by (intro conjI allI typing)
    (auto simp: ts_InsertIfAbsent_def list_all_iff split: InsertIfAbsent.splits)

lemma typed_BoundLog_of: "typed_BoundLog J (BoundLog_of J de g)"
  unfolding typed_BoundLog_def BoundLog_of_def BoundLog.simps log_append_json_def log_get_json_def
    log_records_json_def log_records_after_json_def
  by (intro conjI allI typing) (auto simp: list_all_iff)

lemma typed_BoundQueue_of: "typed_BoundQueue J (BoundQueue_of J de q)"
  unfolding typed_BoundQueue_def BoundQueue_of_def BoundQueue.simps queue_publish_json_def queue_claim_json_def
    queue_ack_json_def queue_len_json_def queue_is_empty_json_def
  by (intro conjI allI typing) auto

section \<open>The registry holds typed structures\<close>

definition typed_registry :: "('v, 'j, 'x) napi_env \<Rightarrow> ('z, 'x, 'v) NapiState \<Rightarrow> bool" where
  "typed_registry J st \<longleftrightarrow>
     (\<forall>h m. ns_maps st h = Some m \<longrightarrow> typed_BoundMap J m) \<and>
     (\<forall>h g. ns_logs st h = Some g \<longrightarrow> typed_BoundLog J g) \<and>
     (\<forall>h q. ns_queues st h = Some q \<longrightarrow> typed_BoundQueue J q)"

lemma bound_clients:
  "bind_client_map J c lc name sch w = (Ok m, w') \<Longrightarrow> typed_BoundMap J m"
  "bind_client_log J c lc name sch w = (Ok g, w') \<Longrightarrow> typed_BoundLog J g"
  "bind_client_queue J qc lc name sch w = (Ok q, w') \<Longrightarrow> typed_BoundQueue J q"
  by (auto simp: bind_client_map_def bind_client_log_def bind_client_queue_def and_then_def
      typed_BoundMap_of typed_BoundLog_of typed_BoundQueue_of
      split: Client.splits QueueClient.splits prod.splits sum.splits)

lemma bind_clients_declared:
  "bind_client_map J c lc name sch w = (Err e, w') \<Longrightarrow> declared J e"
  "bind_client_log J c lc name sch w = (Err e, w') \<Longrightarrow> declared J e"
  "bind_client_queue J qc lc name sch w = (Err e, w') \<Longrightarrow> declared J e"
  by (auto simp: bind_client_map_def bind_client_log_def bind_client_queue_def and_then_def
      open_map_def open_log_def open_queue_def map_err_def Let_def typing
      split: Client.splits QueueClient.splits prod.splits sum.splits)

lemma lifecycle_typed:
  assumes "typed_registry J st"
  shows "map_lifecycle J lc name sch (st, w) = (rm, (stm, wm)) \<Longrightarrow> typed_registry J stm \<and> typed J ts_number rm"
    "log_lifecycle J lc name sch (st, w) = (rl, (stl, wl)) \<Longrightarrow> typed_registry J stl \<and> typed J ts_number rl"
    "queue_lifecycle J lc name sch (st, w) = (rq, (stq, wq)) \<Longrightarrow> typed_registry J stq \<and> typed J ts_number rq"
  using assms
  by (auto simp: map_lifecycle_def log_lifecycle_def queue_lifecycle_def draw_handle_def NapiState_handle_def
      and_then_def on_world_def typed_registry_def typed_def [of _ _ "Err _"]
      split: prod.splits sum.splits if_splits dest: bound_clients bind_clients_declared intro!: typed_json_string)

lemma find_typed:
  assumes "typed_registry J st"
  shows "find_map J h (st, w) = (Ok m, t) \<Longrightarrow> typed_BoundMap J m \<and> t = (st, w)"
    "find_log J h (st, w) = (Ok g, t) \<Longrightarrow> typed_BoundLog J g \<and> t = (st, w)"
    "find_queue J h (st, w) = (Ok q, t) \<Longrightarrow> typed_BoundQueue J q \<and> t = (st, w)"
  using assms by (auto simp: find_map_def find_log_def find_queue_def typed_registry_def ok_or_def split: option.splits)

lemmas typed_structures = typed_BoundMap_def typed_BoundLog_def typed_BoundQueue_def

lemma execute_typed:
  assumes "typed_registry J st" "execute J fresh now op (st, w) = (r, (st', w'))"
  shows "typed_registry J st' \<and> typed J (answer_type op) r"
proof (cases "drawn_kind (Run op fresh now)")
  case (Some k)
  then show ?thesis using assms by (cases op) (auto dest: lifecycle_typed)
next
  case None
  have "typed J (answer_type op) (fst (execute J fresh now op (st, w)))"
    using None assms(1)
    by (cases op)
      (auto intro!: typed_and_then typing typed_on_world dest!: find_typed [OF assms(1)]
        simp: typed_structures)
  moreover have "st' = st" using execute_other_registry [OF None assms(2)] by simp
  ultimately show ?thesis using assms by simp
qed

lemma release_typed: "typed_registry J st \<Longrightarrow> typed_registry J (snd (release k h st))"
  by (cases k) (auto simp: typed_registry_def native_map_release_def native_log_release_def
      native_queue_release_def split: if_splits)

lemma napi_run_typed:
  "typed_registry J st \<Longrightarrow> napi_run J es (st, w) = (st', w') \<Longrightarrow> typed_registry J st'"
proof (induction es arbitrary: st w)
  case (Cons e es)
  obtain s1 w1 where s1: "napi_step J e (st, w) = (s1, w1)" by fastforce
  have "typed_registry J s1"
  proof (cases e)
    case (Run op fresh now)
    then show ?thesis
      using s1 execute_typed [OF Cons.prems(1)] by (cases "execute J fresh now op (st, w)") auto
  next
    case (Release k h)
    then show ?thesis using s1 release_typed [OF Cons.prems(1)] by auto
  qed
  then show ?case using Cons.IH Cons.prems(2) s1 by simp
qed simp

text \<open>
  C19: the answers of the binding have the types that the TypeScript facade takes them for. Whatever
  tasks ran and handles were released on a new client over any of the stores, if an operation succeeds
  its answer is the text of a JSON value of the type at which the facade parses it, and if it
  fails the error is an envelope with one of the declared codes.
\<close>

theorem napi_answers_typed:
  assumes "napi_run J es (NapiState_new c q, w) = (st, w')" "execute J fresh now op (st, w') = (r, s)"
  shows "(\<forall>t. r = Ok t \<longrightarrow> (\<exists>x. answer_type op x \<and> ne_to_string J x = Ok t)) \<and>
    (\<forall>e. r = Err e \<longrightarrow> (\<exists>code message details. code \<in> set ObjsdsErrorCode \<and> e = binding_error J code message details))"
proof -
  have "typed_registry J (NapiState_new c q)" by (simp add: typed_registry_def NapiState_new_def)
  then have "typed_registry J st" by (rule napi_run_typed [OF _ assms(1)])
  then have "typed J (answer_type op) r" using execute_typed assms(2) by (metis surj_pair)
  then show ?thesis by (auto simp: typed_def declared_def)
qed

theorem napi_answers_typed_witness:
  "\<exists>st w' r s. napi_run sample_napi_env sample_events (sample_napi_state, sample_world) = (st, w') \<and>
    execute sample_napi_env 9 (\<lambda>_. 0) (MapEntries 1) (st, w') = (r, s) \<and>
    (\<forall>t. r = Ok t \<longrightarrow> (\<exists>x. ts_array (ts_tuple [ts_string, ts_value]) x \<and> show_json x = t))"
proof -
  obtain st w' where run: "napi_run sample_napi_env sample_events (sample_napi_state, sample_world) = (st, w')" by fastforce
  obtain r s where ex: "execute sample_napi_env 9 (\<lambda>_. 0) (MapEntries 1) (st, w') = (r, s)" by (metis surj_pair)
  from napi_answers_typed [OF run ex] run ex show ?thesis by (auto simp: sample_napi_env_def)
qed

end
