(* ===== verification/Spec2Isabelle.thy ===== *)
theory Spec2Isabelle
  imports Retry Queue_Tests Core_Tests Conformance Filesystem_Crash Napi_Session Napi_Types
begin

text \<open>
  A verification of objsds: a map, a log and a work queue that each live in one object of an object
  store, over stores in memory, in files and on S3, and the Node binding that serves them to
  JavaScript.

  \<^bold>\<open>The program.\<close> A store (\<open>objsds-store\<close>) holds versioned objects at locations and has three
  operations: \<open>get\<close>, \<open>create\<close> at a location that must be empty, and \<open>replace\<close> at a version that must
  be current. A structure is a JSON document in one object. Every mutation reads the document,
  changes it and replaces the object at the version read; a conflict is returned to the caller.
  Three crates implement the store, one (\<open>objsds\<close>) the map, the log, their builders and errors,
  one (\<open>objsds-queue\<close>) the queue with leases, and one (\<open>objsds-napi\<close>) the binding.

  \<^bold>\<open>How it is modelled.\<close> A fallible operation on a state is a \<open>comp\<close>: a function from the state to a
  result (\<open>Inl\<close> the error) and the state, which is returned with errors too. Rust's \<open>?\<close> is
  \<open>and_then\<close>. A trait is a record of operations (\<open>object_store\<close>, \<open>BoundMap\<close>), its documented contract
  a locale. Integers keep their width. Code that is not in the repository is a parameter:
  \<open>serde_json\<close> (\<open>map_serde\<close>, \<open>log_serde\<close>, \<open>queue_serde\<close>, \<open>napi_env\<close>), the text of UUIDs (\<open>uuid_ops\<close>),
  the S3 client library (\<open>s3_setup\<close>, \<open>s3_requests\<close>). Fresh UUIDs and clock readings are arguments.
  What the code needs of serde is the hypothesis \<open>map_serde_ok\<close> and its like: decoding an encoded
  document gives it back.

  \<^bold>\<open>Foundations.\<close>
  \<^item> \<open>Objsds_Prelude\<close>: computations, checked arithmetic, decimal numbers, big-endian bytes, vectors, and
    \<open>binary_search_by\<close> and \<open>partition_point\<close> as \<open>core::slice\<close> has them, with the proof that on sorted
    input they find what a scan finds.
  \<^item> \<open>Store_Interface\<close> (\<open>objsds-store\<close>): locations, versions, objects, the trait; locales
    \<open>object_store_laws\<close> (the contract, failures included), \<open>versioned_store\<close> (a version that comes back
    stands for the same bytes), \<open>infallible_store\<close>. \<open>Memory_Store\<close> (\<open>objsds-store-memory\<close>) is an
    instance of all three.
  \<^item> \<open>Core_Error\<close>, \<open>Lifecycle\<close> (\<open>error.rs\<close>, \<open>document.rs\<close>, \<open>client.rs\<close>, \<open>lifecycle.rs\<close>): errors with their
    texts, metadata validation, the client, and create / open / open-or-create.
  \<^item> \<open>Document_Structure\<close>: the protocol all structures share, as \<open>transact\<close>, and the locale
    \<open>document_structure\<close> in which its atomicity is proved once; \<open>Sample_Codec\<close> is an executable
    encoder for the examples.

  \<^bold>\<open>Structures.\<close>
  \<^item> \<open>Map_Structure\<close>, \<open>Map_Properties\<close>, \<open>Map_Lifecycle\<close> (\<open>map/\<close>): the map refines a finite map with ordered
    entries; each operation is atomic over every store that keeps the contract; every outcome of
    the lifecycle operations.
  \<^item> \<open>Log_Structure\<close>, \<open>Log_Properties\<close> (\<open>log/\<close>): the log refines a list sorted by identifier; its
    binary searches are scans; an append under a repeated identifier corrupts it.
  \<^item> \<open>Queue_Structure\<close>, \<open>Queue_Transactions\<close>, \<open>Queue_Model\<close>, \<open>Queue_Refinement\<close>, \<open>Queue_Properties\<close>,
    \<open>Queue_Guarantees\<close>, \<open>Queue_Lifecycle\<close> (\<open>objsds-queue\<close>): the queue refines a list of messages; from
    that list come exclusive leases, retention until acknowledgement, rejection of stale tokens,
    delivery in order, consecutive attempts.
  \<^item> \<open>Concurrency\<close>, \<open>Concurrent_Structures\<close>: any number of clients, interleaved at store operations; the
    stored document is the initial one after the committed updates in their order, and a write fails
    only if another one was committed since its read.
  \<^item> \<open>Lifecycle_Race\<close>: both implementations of open-or-create while other clients act before each of
    their requests. \<open>Retry\<close>: the bounded retry of an insert that the documentation of \<open>objsds\<close> shows, under
    the same interference: how many requests it makes, and when it gives up.

  \<^bold>\<open>Filesystem store.\<close> \<open>Filesystem_Format\<close> and \<open>Filesystem_Path\<close> (\<open>format.rs\<close>, \<open>path.rs\<close>): the envelope
  and the paths. \<open>Filesystem_Syscalls\<close>: a tree of directories, files and symbolic links with the system
  calls the code makes; each call may fail as the schedule \<open>fs_faults\<close> says, so a statement for
  all states is a statement for all failures at all points. \<open>Filesystem_Store\<close> (\<open>store.rs\<close>,
  \<open>lock.rs\<close>): the operations, whole. \<open>Filesystem_Invariant\<close>, \<open>Filesystem_Contract\<close>, \<open>Filesystem_Laws\<close>,
  \<open>Filesystem_Progress\<close>, \<open>Filesystem_Properties\<close>: the store keeps the contract, writes are all or
  nothing under every failure, locks are released, links are not followed, and without failures
  writes succeed. Beside the tree the state has what the disk may hold (\<open>fs_disk\<close>): an entry that was
  changed may be old or new until its directory is synced, and of a file that was written and not
  synced anything may be left. \<open>Filesystem_Crash\<close>: a crash leaves any choice of these; an answered
  write is there afterwards and one that was cut off is whole or absent, if the directories above
  the object are on the disk, which the store does not see to for those it makes. An operation holds its file lock from first to last call, so operations of different
  processes on one object do not interleave and an operation is one step. The expansion of a path follows at
  most 40 links, the limit of Linux, after which the system call itself fails.

  \<^bold>\<open>S3 store.\<close> \<open>S3_Store\<close>: configuration, credentials, builder, errors, and the operations as the
  requests they make. \<open>S3_Properties\<close>: with conditional requests that the service decides atomically,
  the answers of the store are right about what was written, although other clients may act between
  the requests of one operation; the whole map protocol over it loses no update when entity tags
  determine the content. Outcomes of the builder; debug output without secrets.

  \<^bold>\<open>Node binding.\<close> \<open>Napi_Json\<close> and \<open>Napi_Binding\<close> (\<open>objsds-napi\<close>): JSON results and error envelopes,
  clients, the registry of handles with its 32-bit counter, every operation of \<open>execute\<close>, tasks. The
  stores of all clients live in a \<open>world\<close>; a store is lifted to its place there. \<open>Napi_World\<close>: the locale
  \<open>place\<close>, in which every operation of every structure over a lifted store is shown to be that
  operation on the store. \<open>Napi_Properties\<close>: handles are fresh and released ones stay invalid until
  the counter wraps. \<open>Napi_Isolation\<close>: clients do not touch each other's stores. \<open>Napi_Session\<close>: from
  the memory client's constructor to the stored bytes, a session of map calls answers the JSON of
  an ordered map; and after \<open>2^32\<close> handles a handle in use is issued again. \<open>Napi_Types\<close>: the types that
  the TypeScript facade (\<open>npm/src/index.ts\<close>) declares for the answers; every answer has its type, every
  error a declared code.

  \<^bold>\<open>Tests.\<close> A test is a program over the model whose panics are errors (\<open>Test_Harness\<close>). \<open>Conformance\<close>
  (\<open>objsds-tests\<close>): the contract test of the backends; the locale \<open>contract_tested\<close> shows that a store
  that keeps the contract fails it only after reporting a failure. \<open>Queue_Tests\<close>, \<open>Core_Tests\<close>: the unit
  tests of the crates, with the clocks and stores they define, pass for every encoding.

  \<^bold>\<open>Termination and fuel.\<close> Every function is total. Loops of the source run over lists and are
  structural recursions; the binary search has its measure. The only fuel is the number of links
  above. The loop of \<open>insert_with_limit\<close> runs over its attempts, at most two requests each.

  \<^bold>\<open>Not modelled.\<close> The examples and the integration tests (\<open>examples\<close>, \<open>tests\<close>): programs that call the
  code and print or compare. The classes of the TypeScript facade, beyond the types above. Abort
  signals, which the worker pool acts on. The bodies of HTTP requests and the S3 service, beyond the hypotheses on \<open>s3_requests\<close>. Poisoned mutexes, which the code
  recovers.
\<close>

end
